(* ===== verification/Prelude.thy ===== *)
theory Prelude
  imports Complex_Main "HOL-Library.Word" "HOL-Library.Multiset"
begin

text \<open>
  Shared vocabulary of the development: how the SDK's C++ may fail to return a value,
  sequencing of such computations, the list and string helpers several components use, and
  the collections of hints the component theories fill.

  A C++ function of the SDK either returns, or it aborts in an \<open>assert\<close>, runs into behaviour
  the language leaves undefined (a dereferenced end iterator, a null pointer), or throws. The
  type \<open>fault\<close> names these, and a fallible operation returns \<open>fault + 'a\<close>.
\<close>

named_theorems frames \<open>fields an operation leaves alone\<close>
named_theorems inv_intros \<open>preservation lemmas of component invariants\<close>
named_theorems step_defs \<open>definitions of operations, unfolded in step proofs\<close>

datatype fault =
    AssertFailed
  | UndefinedBehaviour
  | Thrown string

definition and_then :: "fault + 'a \<Rightarrow> ('a \<Rightarrow> fault + 'b) \<Rightarrow> fault + 'b" where
  "and_then r f = (case r of Inl e \<Rightarrow> Inl e | Inr a \<Rightarrow> f a)"

definition returns :: "fault + 'a \<Rightarrow> bool" where
  "returns r \<longleftrightarrow> (case r of Inl _ \<Rightarrow> False | Inr _ \<Rightarrow> True)"

lemma and_then_simps [simp]:
  "and_then (Inl e) f = Inl e"
  "and_then (Inr a) f = f a"
  by (simp_all add: and_then_def)

lemma returns_simps [simp]:
  "\<not> returns (Inl e)"
  "returns (Inr a)"
  by (simp_all add: returns_def)

lemma and_then_eq_Inr:
  "and_then r f = Inr b \<longleftrightarrow> (\<exists>a. r = Inr a \<and> f a = Inr b)"
  by (cases r) auto

lemma returnsE:
  assumes "returns r" obtains a where "r = Inr a"
  using assms by (cases r) auto

subsection \<open>Strings\<close>

text \<open>\<open>std::string\<close> and \<open>NSString\<close> values are lists of bytes; \<open>c_str\<close> is what a reader
  of the zero-terminated view of a \<open>std::string\<close> sees.\<close>

definition c_str :: "string \<Rightarrow> string" where
  "c_str s = takeWhile (\<lambda>c. c \<noteq> CHR 0x00) s"

fun starts_with :: "string \<Rightarrow> string \<Rightarrow> bool" where
  "starts_with [] s = True"
| "starts_with (c # cs) [] = False"
| "starts_with (c # cs) (d # ds) = (c = d \<and> starts_with cs ds)"

lemma starts_with_append [simp]: "starts_with p (p @ s)"
  by (induction p) auto

lemma starts_with_iff: "starts_with p s \<longleftrightarrow> (\<exists>t. s = p @ t)"
proof (induction p s rule: starts_with.induct)
  case (3 c cs d ds)
  then show ?case by auto
qed auto

lemma c_str_no_nul: "CHR 0x00 \<notin> set s \<Longrightarrow> c_str s = s"
  by (auto simp: c_str_def takeWhile_eq_all_conv)

lemma c_str_idem [simp]: "c_str (c_str s) = c_str s"
  by (rule c_str_no_nul) (auto simp: c_str_def dest: set_takeWhileD)

subsection \<open>Lists\<close>

text \<open>\<open>std::find\<close> followed by \<open>std::distance\<close>: the index of the first match, or the
  length of the list when there is none.\<close>

fun find_index :: "'a \<Rightarrow> 'a list \<Rightarrow> nat" where
  "find_index a [] = 0"
| "find_index a (x # xs) = (if x = a then 0 else Suc (find_index a xs))"

lemma find_index_le: "find_index a xs \<le> length xs"
  by (induction xs) auto

lemma find_index_less_iff: "find_index a xs < length xs \<longleftrightarrow> a \<in> set xs"
  by (induction xs) auto

lemma nth_find_index: "a \<in> set xs \<Longrightarrow> xs ! find_index a xs = a"
  by (induction xs) auto

lemma dropWhile_append_fresh:
  "\<not> P x \<Longrightarrow> dropWhile P (xs @ [x]) = dropWhile P xs @ [x]"
  by (simp add: dropWhile_append)

lemma dropWhile_sorted_filter:
  assumes "sorted (map f xs)" and "\<And>x y. f x \<le> f y \<Longrightarrow> P y \<Longrightarrow> P x"
  shows "dropWhile P xs = filter (\<lambda>x. \<not> P x) xs"
  using assms(1)
proof (induction xs)
  case (Cons x xs)
  show ?case
  proof (cases "P x")
    case True
    with Cons show ?thesis by simp
  next
    case False
    have "\<not> P y" if "y \<in> set xs" for y
      using that Cons.prems False assms(2)[of x y] by auto
    then have "filter (\<lambda>x. \<not> P x) xs = xs" by simp
    with False show ?thesis by simp
  qed
qed simp

end
