(* ===== verification/IeeeRound.thy ===== *)
theory IeeeRound
  imports Prelude "HOL-Library.Log_Nat"
begin

text \<open>
  Rounding of \<open>float\<close> (24 bits of precision) and \<open>double\<close> (53 bits) arithmetic: round to
  nearest, ties to even, of a rational in the normal range. The SDK divides counters as
  \<open>float\<close> and compares the result with a threshold that is itself a rounded quotient, so the
  outcome of the comparison depends on the rounding. Infinities, subnormal numbers and
  overflow do not arise for quotients of counters and are not modelled.
\<close>

definition rne :: "nat \<Rightarrow> nat \<Rightarrow> nat" where
  "rne a b =
     (let k = a div b; r = a mod b in
      if 2 * r < b then k else if b < 2 * r then Suc k
      else if even k then k else Suc k)"

definition scaled :: "int \<Rightarrow> nat \<Rightarrow> nat \<Rightarrow> nat \<times> nat" where
  "scaled e p q = (if 0 \<le> e then (p, q * 2 ^ nat e) else (p * 2 ^ nat (- e), q))"

definition scale_exp :: "nat \<Rightarrow> nat \<Rightarrow> nat \<Rightarrow> int" where
  "scale_exp prec p q =
     (let e = int (floorlog 2 p) - int (floorlog 2 q) - int prec;
          (a, b) = scaled e p q
      in if b * 2 ^ prec \<le> a then e + 1 else e)"

definition fl_pos :: "nat \<Rightarrow> nat \<Rightarrow> nat \<Rightarrow> rat" where
  "fl_pos prec p q =
     (let e = scale_exp prec p q; (a, b) = scaled e p q
      in of_nat (rne a b) * 2 powi e)"

definition fl :: "nat \<Rightarrow> rat \<Rightarrow> rat" where
  "fl prec x =
     (case quotient_of x of (p, q) \<Rightarrow>
        if p = 0 then 0
        else if 0 < p then fl_pos prec (nat p) (nat q)
        else - fl_pos prec (nat (- p)) (nat q))"

definition fl32 :: "rat \<Rightarrow> rat" where "fl32 = fl 24"
definition fl64 :: "rat \<Rightarrow> rat" where "fl64 = fl 53"

lemma rne_error:
  assumes "0 < b"
  shows "\<bar>of_nat (rne a b) - of_nat a / of_nat b\<bar> \<le> (1 / 2 :: rat)"
proof -
  define k r where "k = a div b" and "r = a mod b"
  have a: "a = k * b + r" and r: "r < b" using assms by (auto simp: k_def r_def)
  have q: "of_nat a / of_nat b = (of_nat k + of_nat r / of_nat b :: rat)"
    using assms by (simp add: a field_simps)
  have lo: "2 * r \<le> b \<Longrightarrow> of_nat r / of_nat b \<le> (1 / 2 :: rat)"
  proof -
    assume "2 * r \<le> b"
    then have "(of_nat (2 * r) :: rat) \<le> of_nat b" by (simp only: of_nat_le_iff)
    then show ?thesis using assms by (simp add: field_simps)
  qed
  have hi: "b \<le> 2 * r \<Longrightarrow> (1 / 2 :: rat) \<le> of_nat r / of_nat b"
  proof -
    assume "b \<le> 2 * r"
    then have "(of_nat b :: rat) \<le> of_nat (2 * r)" by (simp only: of_nat_le_iff)
    then show ?thesis using assms by (simp add: field_simps)
  qed
  have r1: "of_nat r / of_nat b \<le> (1 :: rat)" and r0: "0 \<le> (of_nat r / of_nat b :: rat)"
    using r assms by (simp_all add: field_simps)
  show ?thesis
    unfolding rne_def Let_def k_def[symmetric] r_def[symmetric] q
    using lo hi r1 r0 by (auto simp: abs_le_iff)
qed

lemma scaled_quotient:
  assumes "0 < q" and "scaled e p q = (a, b)"
  shows "0 < b" and "of_nat a / of_nat b = (of_nat p / of_nat q * 2 powi (- e) :: rat)"
  using assms
  by (auto simp: scaled_def power_int_def field_simps split: if_splits)

lemma scale_exp_le:
  assumes "0 < p" and "p \<le> q"
  shows "scale_exp prec p q \<le> 1 - int prec"
proof -
  have mono: "floorlog 2 p \<le> floorlog 2 q"
    using assms by (auto intro: floorlog_mono)
  show ?thesis using mono by (simp add: scale_exp_def Let_def split: prod.splits)
qed

lemma fl_pos_error:
  assumes "0 < p" and "p \<le> q"
  shows "\<bar>fl_pos prec p q - of_nat p / of_nat q\<bar> \<le> 2 powi (- int prec)"
proof -
  define e where "e = scale_exp prec p q"
  obtain a b where ab: "scaled e p q = (a, b)" by fastforce
  have q: "0 < q" using assms by simp
  note sq = scaled_quotient[OF q ab]
  have pos: "(0 :: rat) < 2 powi e" by simp
  have "of_nat p / of_nat q = (of_nat a / of_nat b * 2 powi e :: rat)"
    using sq(2) by (simp add: power_int_minus field_simps)
  then have "fl_pos prec p q - of_nat p / of_nat q
      = (of_nat (rne a b) - of_nat a / of_nat b) * (2 powi e :: rat)"
    by (simp add: fl_pos_def e_def[symmetric] ab left_diff_distrib)
  then have "\<bar>fl_pos prec p q - of_nat p / of_nat q\<bar>
      = \<bar>of_nat (rne a b) - of_nat a / of_nat b\<bar> * (2 powi e :: rat)"
    by (simp only: abs_mult) simp
  also have "\<dots> \<le> 1 / 2 * 2 powi e"
    using rne_error[OF sq(1), of a] pos by (intro mult_right_mono) auto
  also have "\<dots> = 2 powi (e - 1)" by (simp add: power_int_diff)
  also have "\<dots> \<le> 2 powi (- int prec)"
    using scale_exp_le[OF assms, of prec] by (intro power_int_increasing) (auto simp: e_def)
  finally show ?thesis .
qed

lemma fl_error:
  assumes "0 \<le> x" and "x \<le> 1"
  shows "\<bar>fl prec x - x\<bar> \<le> 2 powi (- int prec)"
proof -
  obtain p q where pq: "quotient_of x = (p, q)" by fastforce
  have q: "0 < q" and x: "x = of_int p / of_int q"
    using quotient_of_denom_pos[OF pq] quotient_of_div[OF pq] by auto
  have p0: "0 \<le> p" and p1: "p \<le> q"
    using assms q by (auto simp: x field_simps zero_le_divide_iff zero_le_mult_iff)
  show ?thesis
  proof (cases "p = 0")
    case True
    then show ?thesis by (simp add: fl_def pq x)
  next
    case False
    then have "0 < nat p" "nat p \<le> nat q" using p0 p1 by auto
    from fl_pos_error[OF this, of prec] have
      "\<bar>fl_pos prec (nat p) (nat q) - x\<bar> \<le> 2 powi (- int prec)"
      using p0 q by (simp add: x)
    moreover have "fl prec x = fl_pos prec (nat p) (nat q)"
      using False p0 by (simp add: fl_def pq)
    ultimately show ?thesis by simp
  qed
qed

subsection \<open>Counters and percentages\<close>

text \<open>A counter below \<open>2 ^ prec\<close> is converted without error.\<close>

lemma fl_of_nat:
  assumes "k < 2 ^ prec"
  shows "fl prec (of_nat k) = of_nat k"
proof (cases "k = 0")
  case True
  then show ?thesis by (simp add: fl_def)
next
  case False
  define e where "e = scale_exp prec k 1"
  have "floorlog 2 k \<le> prec" using assms by (intro floorlog_leI) auto
  moreover have "floorlog 2 (1::nat) = 1" by (simp add: floorlog_def)
  ultimately have e0: "e \<le> 0" by (simp add: e_def scale_exp_def Let_def split: prod.splits)
  obtain a b where ab: "scaled e k 1 = (a, b)" by fastforce
  have b: "b = 1" using ab e0 by (auto simp: scaled_def split: if_splits)
  have a: "of_nat a = (of_nat k * 2 powi (- e) :: rat)"
    using scaled_quotient(2)[OF _ ab] b by simp
  have "fl_pos prec k 1 = of_nat a * 2 powi e"
    unfolding fl_pos_def e_def[symmetric] Let_def ab by (simp add: b rne_def)
  also have "\<dots> = of_nat k"
    by (simp add: a power_int_minus)
  finally have "fl_pos prec k 1 = of_nat k" .
  moreover have "quotient_of (of_nat k) = (int k, 1)"
    using quotient_of_int[of "int k"] by (simp add: Rat.of_int_def)
  ultimately show ?thesis
    using False by (simp add: fl_def)
qed

lemma fl32_of_nat: "k < 16777216 \<Longrightarrow> fl32 (of_nat k) = of_nat k"
  using fl_of_nat[of k 24] by (simp add: fl32_def)

lemma rounding_keeps_order:
  fixes x y fx fy d :: rat
  assumes "\<bar>fx - x\<bar> \<le> e" and "\<bar>fy - y\<bar> \<le> e" and "2 * e < d" and "d \<le> x - y"
  shows "fy < fx"
  using assms unfolding abs_le_iff by linarith

text \<open>
  With at most 65536 requests in the window the rounding never changes the outcome of the
  comparison of a failure ratio with a percentage: the two exact values differ by at least
  \<open>1 / (100 n)\<close>, more than the two rounding errors together.
\<close>

lemma fl32_ratio_above_percent:
  fixes k n c :: nat
  assumes kn: "k \<le> n" and n0: "0 < n" and n: "n \<le> 65536" and c: "c \<le> 100"
  shows "fl32 (of_nat c / 100) < fl32 (of_nat k / of_nat n) \<longleftrightarrow> c * n < 100 * k"
proof -
  let ?x = "of_nat k / of_nat n :: rat" and ?y = "of_nat c / 100 :: rat"
  have ex: "\<bar>fl32 ?x - ?x\<bar> \<le> 1 / 16777216"
    using fl_error[of ?x 24] kn n0 by (simp add: fl32_def power_int_def field_simps)
  have ey: "\<bar>fl32 ?y - ?y\<bar> \<le> 1 / 16777216"
    using fl_error[of ?y 24] c by (simp add: fl32_def power_int_def field_simps)
  have sep: "2 * (1 / 16777216) < (1 / (100 * of_nat n) :: rat)"
    using n n0 by (simp add: field_simps)
  have gap: "1 / (100 * of_nat n) \<le> (of_nat a - of_nat b) / (100 * of_nat n :: rat)"
    if "b < a" for a b :: nat
    using that n0 of_nat_le_iff[of "Suc b" a, where 'a = rat] by (intro divide_right_mono) auto
  have diff: "?x - ?y = (of_nat (100 * k) - of_nat (c * n)) / (100 * of_nat n)"
    and diff': "?y - ?x = (of_nat (c * n) - of_nat (100 * k)) / (100 * of_nat n)"
    using n0 by (simp_all add: field_simps)
  consider (lt) "c * n < 100 * k" | (eq) "c * n = 100 * k" | (gt) "100 * k < c * n" by linarith
  then show ?thesis
  proof cases
    case lt
    then show ?thesis
      using rounding_keeps_order[OF ex ey sep gap[OF lt, folded diff]] by simp
  next
    case eq
    then have xy: "?x = ?y" using diff by simp
    show ?thesis unfolding xy using eq by simp
  next
    case gt
    then show ?thesis
      using rounding_keeps_order[OF ey ex sep gap[OF gt, folded diff']] by simp
  qed
qed

subsection \<open>The literals the SDK uses\<close>

lemma floorlog_small [simp]: "floorlog 2 (3::nat) = 2" "floorlog 2 (5::nat) = 3"
  by (simp_all add: compute_floorlog)

lemma quotient_of_three_fifths: "quotient_of (3 / 5) = (3, 5)"
  by code_simp

lemmas rounding_defs = fl_def fl_pos_def scale_exp_def scaled_def rne_def Let_def power_int_def

text \<open>The \<open>double\<close> literal \<open>0.6\<close> is rounded down, the \<open>float\<close> quotient \<open>60 / 100.0f\<close> up.\<close>

lemma fl64_three_fifths: "fl64 (3 / 5) = 5404319552844595 / 9007199254740992"
  by (simp add: fl64_def quotient_of_three_fifths rounding_defs power_one_over)

lemma fl32_three_fifths: "fl32 (3 / 5) = 10066330 / 16777216"
  by (simp add: fl32_def quotient_of_three_fifths rounding_defs power_one_over)

lemma fl32_1 [simp]: "fl32 1 = 1"
  using fl32_of_nat[of 1] by simp

end
