(* ===== verification/JsonValue.thy ===== *)
theory JsonValue
  imports IeeeRound
begin

text \<open>
  The values of the bundled JSON library (\<open>libs/json/jsoncpp.cpp\<close>, class \<open>Json::Value\<close>) and
  the accessors the SDK reads a configuration with. An accessor called on a value of the wrong
  type ends in \<open>JSON_FAIL_MESSAGE\<close>, which throws \<open>Json::LogicError\<close>.

  Reading a missing member through the non-const \<open>operator[]\<close> inserts a null and returns it, so
  a missing member and a null one are not told apart; the insertion is not modelled. The text
  of a real number is made by \<open>snprintf\<close> with \<open>%.17g\<close>: the argument \<open>g17\<close>.
\<close>

datatype json =
    JNull
  | JBool bool
  | JInt int
  | JReal rat
  | JString string
  | JArray "json list"
  | JObject "(string \<times> json) list"

definition json_fail :: "fault + 'a" where
  "json_fail = Inl (Thrown ''Json::LogicError'')"

subsection \<open>Decimal text of integers\<close>

fun digits_of_nat :: "nat \<Rightarrow> string" where
  "digits_of_nat n =
     (if n < 10 then [char_of (48 + n)]
      else digits_of_nat (n div 10) @ [char_of (48 + n mod 10)])"

declare digits_of_nat.simps [simp del]

definition int_to_string :: "int \<Rightarrow> string" where
  "int_to_string i =
     (if i < 0 then CHR ''-'' # digits_of_nat (nat (- i)) else digits_of_nat (nat i))"

lemma digits_of_nat_digits: "c \<in> set (digits_of_nat n) \<Longrightarrow> 48 \<le> (of_char c :: nat) \<and> (of_char c :: nat) < 58"
proof (induction n rule: digits_of_nat.induct)
  case (1 n)
  show ?case
  proof (cases "n < 10")
    case True
    then show ?thesis using 1 by (subst (asm) digits_of_nat.simps) (simp add: of_char_of)
  next
    case False
    have "n mod 10 < 10" by simp
    then show ?thesis using 1 False
      by (subst (asm) digits_of_nat.simps) (auto simp: of_char_of)
  qed
qed

subsection \<open>Accessors\<close>

definition json_member :: "json \<Rightarrow> string \<Rightarrow> fault + json" where
  "json_member v key =
     (case v of
        JNull \<Rightarrow> Inr JNull
      | JObject ms \<Rightarrow> Inr (case map_of ms key of None \<Rightarrow> JNull | Some x \<Rightarrow> x)
      | _ \<Rightarrow> json_fail)"

definition json_index :: "json \<Rightarrow> nat \<Rightarrow> fault + json" where
  "json_index v i =
     (case v of
        JNull \<Rightarrow> Inr JNull
      | JArray xs \<Rightarrow> Inr (if i < length xs then xs ! i else JNull)
      | _ \<Rightarrow> json_fail)"

definition json_size :: "json \<Rightarrow> nat" where
  "json_size v =
     (case v of JArray xs \<Rightarrow> length xs | JObject ms \<Rightarrow> length ms | _ \<Rightarrow> 0)"

definition json_asString :: "(rat \<Rightarrow> string) \<Rightarrow> json \<Rightarrow> fault + string" where
  "json_asString g17 v =
     (case v of
        JNull \<Rightarrow> Inr []
      | JString s \<Rightarrow> Inr s
      | JBool b \<Rightarrow> Inr (if b then ''true'' else ''false'')
      | JInt i \<Rightarrow> Inr (int_to_string i)
      | JReal x \<Rightarrow> Inr (g17 x)
      | _ \<Rightarrow> json_fail)"

definition minInt :: int where "minInt = - 2147483648"
definition maxInt :: int where "maxInt = 2147483647"

definition trunc_rat :: "rat \<Rightarrow> int" where
  "trunc_rat x = (if 0 \<le> x then \<lfloor>x\<rfloor> else - \<lfloor>- x\<rfloor>)"

definition json_asInt :: "json \<Rightarrow> fault + int" where
  "json_asInt v =
     (case v of
        JInt i \<Rightarrow> if minInt \<le> i \<and> i \<le> maxInt then Inr i else json_fail
      | JReal x \<Rightarrow> if of_int minInt \<le> x \<and> x \<le> of_int maxInt then Inr (trunc_rat x) else json_fail
      | JNull \<Rightarrow> Inr 0
      | JBool b \<Rightarrow> Inr (if b then 1 else 0)
      | _ \<Rightarrow> json_fail)"

definition json_asFloat :: "json \<Rightarrow> fault + rat" where
  "json_asFloat v =
     (case v of
        JInt i \<Rightarrow> Inr (fl32 (of_int i))
      | JReal x \<Rightarrow> Inr (fl32 x)
      | JNull \<Rightarrow> Inr 0
      | JBool b \<Rightarrow> Inr (if b then 1 else 0)
      | _ \<Rightarrow> json_fail)"

text \<open>Reading a member and converting it, as in \<open>configs[key].asString()\<close>.\<close>

definition member_string :: "(rat \<Rightarrow> string) \<Rightarrow> json \<Rightarrow> string \<Rightarrow> fault + string" where
  "member_string g17 v key = and_then (json_member v key) (json_asString g17)"

definition member_int :: "json \<Rightarrow> string \<Rightarrow> fault + int" where
  "member_int v key = and_then (json_member v key) json_asInt"

text \<open>\<open>vectorFromValue\<close> of \<open>Utils/JSONUtils.cpp\<close>.\<close>

fun vector_loop :: "(rat \<Rightarrow> string) \<Rightarrow> json \<Rightarrow> nat \<Rightarrow> nat \<Rightarrow> fault + string list" where
  "vector_loop g17 v i 0 = Inr []"
| "vector_loop g17 v i (Suc n) =
     and_then (and_then (json_index v i) (json_asString g17)) (\<lambda>s.
       and_then (vector_loop g17 v (Suc i) n) (\<lambda>ss. Inr (s # ss)))"

definition vectorFromValue :: "(rat \<Rightarrow> string) \<Rightarrow> json \<Rightarrow> fault + string list" where
  "vectorFromValue g17 v = vector_loop g17 v 0 (json_size v)"

lemma vector_loop_strings:
  assumes "i + n = length ss"
  shows "vector_loop g17 (JArray (map JString ss)) i n = Inr (drop i ss)"
  using assms
proof (induction n arbitrary: i)
  case (Suc n)
  then have "vector_loop g17 (JArray (map JString ss)) (Suc i) n = Inr (drop (Suc i) ss)" by simp
  moreover have "ss ! i # drop (Suc i) ss = drop i ss"
    using Suc.prems by (simp add: Cons_nth_drop_Suc)
  ultimately show ?case
    using Suc.prems by (simp add: json_index_def json_asString_def)
qed simp

lemma vectorFromValue_strings [simp]:
  "vectorFromValue g17 (JArray (map JString ss)) = Inr ss"
  by (simp add: vectorFromValue_def json_size_def vector_loop_strings)

lemma vectorFromValue_simps [simp]:
  "vectorFromValue g17 JNull = Inr []"
  "vectorFromValue g17 (JArray []) = Inr []"
  by (simp_all add: vectorFromValue_def json_size_def)

lemma vectorFromValue_object:
  "ms \<noteq> [] \<Longrightarrow> vectorFromValue g17 (JObject ms) = json_fail"
  by (cases ms) (simp_all add: vectorFromValue_def json_size_def json_index_def json_fail_def)

end
