(* ===== verification/Configuration.thy ===== *)
theory Configuration
  imports JsonValue
begin

text \<open>
  The SDK configuration: the structure of \<open>Utils/Configuration.{hpp,cpp}\<close>, its construction from
  the server's JSON (\<open>processConfigurationData\<close> of \<open>Utils/JSONUtils.cpp\<close>) and the enumerations
  of \<open>Utils/Utils.hpp\<close>. The enumerations are kept as the numbers they are: the code casts
  positions of lists to them without a check, so values outside the enumeration do occur.
  \<open>double\<close> and \<open>float\<close> fields are rationals.
\<close>

definition kRSOperationModeInnerOff :: nat where "kRSOperationModeInnerOff = 0"
definition kRSOperationModeInnerTransport :: nat where "kRSOperationModeInnerTransport = 1"
definition kRSOperationModeInnerReport :: nat where "kRSOperationModeInnerReport = 2"
definition kRSOperationModeInnerTransportAndReport :: nat where "kRSOperationModeInnerTransportAndReport = 3"

definition kRSStatsReportingLevelDebug :: nat where "kRSStatsReportingLevelDebug = 0"
definition kRSStatsReportingLevelRelease :: nat where "kRSStatsReportingLevelRelease = 1"

lemmas mode_defs =
  kRSOperationModeInnerOff_def kRSOperationModeInnerTransport_def kRSOperationModeInnerReport_def
  kRSOperationModeInnerTransportAndReport_def
lemmas level_defs = kRSStatsReportingLevelDebug_def kRSStatsReportingLevelRelease_def

record configuration =
  abTesMode :: bool
  abTestingRatio :: int
  SDKDomain :: string
  quicUDPPort :: int
  failuresMonitoringInterval :: int
  failuresFailoverThreshold :: rat
  sdkReleaseVersion :: rat
  configurationApiURL :: string
  refreshInterval :: int
  staleTimeout :: int
  edgeHost :: string
  operationMode :: nat
  allowedProtocols :: "string list"
  initialTransportProtocol :: string
  transportMonitoringURL :: string
  statsReportingURL :: string
  statsReportingInterval :: int
  statsReportingLevel :: nat
  statsReportingMaxRequests :: int
  domainsProvisionedList :: "string list"
  domainsWhiteList :: "string list"
  domainsBlackList :: "string list"
  domainsInternalBlackList :: "string list"
  appName :: string
  os :: string
  loggingLevel :: string

text \<open>
  The default constructor initialises the A/B fields, the edge fields and the mode; strings and
  vectors start empty; the remaining numbers keep whatever the memory held, here the fields of
  \<open>mem\<close>.
\<close>

definition Configuration_new :: "configuration \<Rightarrow> configuration" where
  "Configuration_new mem = mem
     \<lparr>operationMode := kRSOperationModeInnerOff,
      abTesMode := False,
      abTestingRatio := - 1,
      SDKDomain := ''revsdk.net'',
      quicUDPPort := 443,
      failuresMonitoringInterval := 120,
      failuresFailoverThreshold := fl64 (3 / 5),
      configurationApiURL := [], edgeHost := [], allowedProtocols := [],
      initialTransportProtocol := [], transportMonitoringURL := [], statsReportingURL := [],
      domainsProvisionedList := [], domainsWhiteList := [], domainsBlackList := [],
      domainsInternalBlackList := [], appName := [], os := [], loggingLevel := []\<rparr>"

definition Configuration_copy :: "configuration \<Rightarrow> configuration \<Rightarrow> configuration" where
  "Configuration_copy mem c = mem
     \<lparr>appName := appName c,
      os := os c,
      operationMode := operationMode c,
      sdkReleaseVersion := sdkReleaseVersion c,
      configurationApiURL := configurationApiURL c,
      refreshInterval := refreshInterval c,
      staleTimeout := staleTimeout c,
      edgeHost := edgeHost c,
      allowedProtocols := allowedProtocols c,
      initialTransportProtocol := initialTransportProtocol c,
      transportMonitoringURL := transportMonitoringURL c,
      statsReportingURL := statsReportingURL c,
      statsReportingInterval := statsReportingInterval c,
      statsReportingLevel := statsReportingLevel c,
      statsReportingMaxRequests := statsReportingMaxRequests c,
      domainsProvisionedList := domainsProvisionedList c,
      domainsWhiteList := domainsWhiteList c,
      domainsBlackList := domainsBlackList c,
      domainsInternalBlackList := domainsInternalBlackList c,
      loggingLevel := loggingLevel c,
      abTesMode := abTesMode c,
      abTestingRatio := abTestingRatio c,
      failuresFailoverThreshold := failuresFailoverThreshold c,
      failuresMonitoringInterval := failuresMonitoringInterval c,
      quicUDPPort := quicUDPPort c,
      SDKDomain := SDKDomain c\<rparr>"

lemma Configuration_copy_id: "Configuration_copy mem c = c"
  by (simp add: Configuration_copy_def)

subsection \<open>From the server's JSON\<close>

definition operationModes :: "string list" where
  "operationModes = [''off'', ''transfer_only'', ''report_only'', ''transfer_and_report'']"

definition statsLevels :: "string list" where
  "statsLevels = [''debug'', ''release'']"

text \<open>The percentage of the JSON becomes a \<open>float\<close> quotient stored in a \<open>double\<close>.\<close>

definition threshold_of_percent :: "int \<Rightarrow> rat" where
  "threshold_of_percent n = fl32 (fl32 (of_int n) / 100)"

lemma threshold_of_small_percent: "c \<le> 100 \<Longrightarrow> threshold_of_percent (int c) = fl32 (of_nat c / 100)"
  using fl32_of_nat[of c] by (simp add: threshold_of_percent_def)

definition process_configs ::
  "(rat \<Rightarrow> string) \<Rightarrow> configuration \<Rightarrow> json \<Rightarrow> json \<Rightarrow> fault + configuration" where
  "process_configs g17 c0 value configs =
     and_then (member_string g17 configs ''operation_mode'') (\<lambda>mode.
     and_then (member_string g17 configs ''stats_reporting_level'') (\<lambda>level.
     and_then (member_string g17 value ''app_name'') (\<lambda>v_app.
     and_then (member_string g17 value ''os'') (\<lambda>v_os.
     and_then (and_then (json_member configs ''sdk_release_version'') json_asFloat) (\<lambda>v_release.
     and_then (member_string g17 configs ''configuration_api_url'') (\<lambda>v_api.
     and_then (member_int configs ''configuration_refresh_interval_sec'') (\<lambda>v_refresh.
     and_then (member_int configs ''configuration_stale_timeout_sec'') (\<lambda>v_stale.
     and_then (member_string g17 configs ''edge_host'') (\<lambda>v_edge.
     and_then (and_then (json_member configs ''allowed_transport_protocols'') (vectorFromValue g17)) (\<lambda>v_allowed.
     and_then (member_string g17 configs ''initial_transport_protocol'') (\<lambda>v_initial.
     and_then (member_string g17 configs ''transport_monitoring_url'') (\<lambda>v_monitoring.
     and_then (member_string g17 configs ''stats_reporting_url'') (\<lambda>v_stats_url.
     and_then (member_int configs ''stats_reporting_interval_sec'') (\<lambda>v_stats_interval.
     and_then (member_int configs ''stats_reporting_max_requests_per_report'') (\<lambda>v_max.
     and_then (and_then (json_member configs ''domains_provisioned_list'') (vectorFromValue g17)) (\<lambda>v_provisioned.
     and_then (and_then (json_member configs ''domains_white_list'') (vectorFromValue g17)) (\<lambda>v_white.
     and_then (and_then (json_member configs ''domains_black_list'') (vectorFromValue g17)) (\<lambda>v_black.
     and_then (and_then (json_member configs ''internal_domains_black_list'') (vectorFromValue g17)) (\<lambda>v_internal.
     and_then (member_string g17 configs ''logging_level'') (\<lambda>v_logging.
     and_then (member_int configs ''edge_failures_failover_threshold_percent'') (\<lambda>v_threshold.
     and_then (member_int configs ''edge_failures_monitoring_interval_sec'') (\<lambda>v_monitor.
     and_then (member_int configs ''edge_quic_udp_port'') (\<lambda>v_port.
     and_then (member_string g17 configs ''edge_sdk_domain'') (\<lambda>v_domain.
     and_then (member_int configs ''a_b_testing_origin_offload_ratio'') (\<lambda>v_ratio.
     Inr (c0
       \<lparr>appName := v_app, os := v_os, sdkReleaseVersion := v_release,
        configurationApiURL := v_api, refreshInterval := v_refresh, staleTimeout := v_stale,
        edgeHost := v_edge, operationMode := find_index mode operationModes,
        allowedProtocols := v_allowed, initialTransportProtocol := v_initial,
        transportMonitoringURL := v_monitoring, statsReportingURL := v_stats_url,
        statsReportingInterval := v_stats_interval,
        statsReportingLevel := find_index level statsLevels,
        statsReportingMaxRequests := v_max, domainsProvisionedList := v_provisioned,
        domainsWhiteList := v_white, domainsBlackList := v_black,
        domainsInternalBlackList := v_internal, loggingLevel := v_logging,
        failuresFailoverThreshold := threshold_of_percent v_threshold,
        failuresMonitoringInterval := v_monitor, quicUDPPort := v_port,
        SDKDomain := v_domain, abTestingRatio := v_ratio\<rparr>))))))))))))))))))))))))))"

text \<open>\<open>parsed\<close> is what \<open>Json::Reader::parse\<close> made of the data, \<open>None\<close> when it reported errors.\<close>

definition processConfigurationData ::
  "(rat \<Rightarrow> string) \<Rightarrow> configuration \<Rightarrow> json option \<Rightarrow> fault + configuration" where
  "processConfigurationData g17 mem parsed =
     (let c0 = Configuration_new mem in
      case parsed of None \<Rightarrow> Inr c0
      | Some value \<Rightarrow>
          and_then (and_then (json_member value ''configs'') (\<lambda>cs. json_index cs 0))
            (process_configs g17 c0 value))"

lemma process_configs_fields:
  assumes "process_configs g17 c0 value configs = Inr c"
  obtains mode level where
    "member_string g17 configs ''operation_mode'' = Inr mode"
    "operationMode c = find_index mode operationModes"
    "member_string g17 configs ''stats_reporting_level'' = Inr level"
    "statsReportingLevel c = find_index level statsLevels"
    "abTesMode c = abTesMode c0"
    "and_then (json_member configs ''allowed_transport_protocols'') (vectorFromValue g17) = Inr (allowedProtocols c)"
    "member_string g17 configs ''initial_transport_protocol'' = Inr (initialTransportProtocol c)"
    "member_string g17 configs ''transport_monitoring_url'' = Inr (transportMonitoringURL c)"
    "member_string g17 configs ''edge_host'' = Inr (edgeHost c)"
    "member_int configs ''configuration_refresh_interval_sec'' = Inr (refreshInterval c)"
    "member_int configs ''configuration_stale_timeout_sec'' = Inr (staleTimeout c)"
    "member_int configs ''stats_reporting_max_requests_per_report'' = Inr (statsReportingMaxRequests c)"
    "member_string g17 configs ''logging_level'' = Inr (loggingLevel c)"
  using assms
  by (clarsimp simp: process_configs_def and_then_eq_Inr simp del: find_index.simps)

end
