(* ===== verification/ConfigValidation.thy ===== *)
theory ConfigValidation
  imports Configuration
begin

text \<open>
  The validation of a downloaded configuration, \<open>_isValidConfiguration\<close> of \<open>Utils/RSUtils.mm\<close>.
  It works on the Foundation objects \<open>NSJSONSerialization\<close> makes of the data, while the values are
  later read by jsoncpp from the same data. A Foundation object is a \<open>json\<close> value here and
  \<open>None\<close> is \<open>nil\<close>; a message an object does not understand raises an exception.

  Foundation's URL parser and \<open>-[NSString integerValue]\<close> are the arguments \<open>url_ok\<close> (scheme and
  host present) and \<open>str_int\<close>. Of the error text only the leading reason is kept, not the
  description of the offending object appended to it.
\<close>

datatype validity = Valid | RejectedSilently | Rejected string

definition unrecognized_selector :: "fault + 'a" where
  "unrecognized_selector = Inl (Thrown ''NSInvalidArgumentException'')"

fun ns_isString :: "json option \<Rightarrow> bool" where
  "ns_isString (Some (JString s)) = True"
| "ns_isString v = False"

fun ns_isArray :: "json option \<Rightarrow> bool" where
  "ns_isArray (Some (JArray xs)) = True"
| "ns_isArray v = False"

fun ns_isDictionary :: "json option \<Rightarrow> bool" where
  "ns_isDictionary (Some (JObject ms)) = True"
| "ns_isDictionary v = False"

fun ns_string :: "json option \<Rightarrow> string" where
  "ns_string (Some (JString s)) = s"
| "ns_string v = []"

fun ns_subscript :: "json option \<Rightarrow> string \<Rightarrow> fault + json option" where
  "ns_subscript None key = Inr None"
| "ns_subscript (Some (JObject ms)) key = Inr (map_of ms key)"
| "ns_subscript (Some v) key = unrecognized_selector"

fun ns_lastObject :: "json option \<Rightarrow> fault + json option" where
  "ns_lastObject None = Inr None"
| "ns_lastObject (Some (JArray xs)) = Inr (if xs = [] then None else Some (last xs))"
| "ns_lastObject (Some v) = unrecognized_selector"

text \<open>\<open>integerValue\<close> of the objects that respond to it.\<close>

fun ns_integerValue :: "(string \<Rightarrow> int) \<Rightarrow> json option \<Rightarrow> int option" where
  "ns_integerValue str_int (Some (JInt i)) = Some i"
| "ns_integerValue str_int (Some (JReal x)) = Some (trunc_rat x)"
| "ns_integerValue str_int (Some (JBool b)) = Some (if b then 1 else 0)"
| "ns_integerValue str_int (Some (JString s)) = Some (str_int s)"
| "ns_integerValue str_int v = None"

definition ns_intValue :: "(string \<Rightarrow> int) \<Rightarrow> json option \<Rightarrow> int option" where
  "ns_intValue str_int v = map_option (\<lambda>i. sint (word_of_int i :: 32 word)) (ns_integerValue str_int v)"

definition positive :: "int option \<Rightarrow> bool" where
  "positive i = (case i of Some n \<Rightarrow> 0 < n | None \<Rightarrow> False)"

text \<open>\<open>stdStringFromNSString\<close> sends \<open>UTF8String\<close> to whatever it is given.\<close>

fun stdStringFromNSString :: "json option \<Rightarrow> fault + string" where
  "stdStringFromNSString None = Inr []"
| "stdStringFromNSString (Some (JString s)) = Inr (c_str s)"
| "stdStringFromNSString (Some v) = unrecognized_selector"

definition isValidURL_ns :: "(string \<Rightarrow> bool) \<Rightarrow> json option \<Rightarrow> bool" where
  "isValidURL_ns url_ok v \<longleftrightarrow> ns_isString v \<and> url_ok (ns_string v)"

definition require :: "bool \<Rightarrow> string \<Rightarrow> (fault + validity) \<Rightarrow> fault + validity" where
  "require ok reason rest = (if ok then rest else Inr (Rejected reason))"

definition one_of :: "string list \<Rightarrow> json option \<Rightarrow> bool" where
  "one_of names v \<longleftrightarrow> ns_isString v \<and> ns_string v \<in> set names"

text \<open>The checks on the dictionary of the configuration, in the order of the code.\<close>

definition check_configs :: "(string \<Rightarrow> bool) \<Rightarrow> (string \<Rightarrow> int) \<Rightarrow> (string \<times> json) list \<Rightarrow> fault + validity" where
  "check_configs url_ok str_int ms =
     require (case map_of ms ''allowed_transport_protocols'' of Some (JArray (x # xs)) \<Rightarrow> True | _ \<Rightarrow> False)
       ''allowed transport protocols invalid ''
     (if \<not> isValidURL_ns url_ok (map_of ms ''configuration_api_url'')
      then and_then (stdStringFromNSString (map_of ms ''configuration_api_url''))
             (\<lambda>_. Inr (Rejected ''configuration api url invalid ''))
      else
     require (positive (ns_integerValue str_int (map_of ms ''configuration_refresh_interval_sec'')))
       ''configuration refresh interval invalid ''
     (require (positive (ns_integerValue str_int (map_of ms ''configuration_stale_timeout_sec'')))
       ''stale timeout invalid ''
     (require (ns_isArray (map_of ms ''domains_black_list''))
       ''configuration refresh interval invalid ''
     (require (ns_isArray (map_of ms ''domains_provisioned_list''))
       ''provisioned list invalid ''
     (require (ns_isString (map_of ms ''edge_host'') \<and> ns_string (map_of ms ''edge_host'') \<noteq> [])
       ''edge host invalid ''
     (require (one_of [''standard'', ''quic'', ''rev''] (map_of ms ''initial_transport_protocol''))
       ''initial transport protocol invalid ''
     (require (one_of [''debug'', ''error'', ''info''] (map_of ms ''logging_level''))
       ''logging level invalid ''
     (require (one_of [''off'', ''transfer_only'', ''report_only'', ''transfer_and_report''] (map_of ms ''operation_mode''))
       ''operation mode invalid ''
     (require (ns_intValue str_int (map_of ms ''sdk_release_version'') = Some 1)
       ''sdk release version invalid ''
     (require (positive (ns_integerValue str_int (map_of ms ''stats_reporting_interval_sec'')))
       ''stats reporting interval invalid ''
     (require (ns_isString (map_of ms ''stats_reporting_level'') \<and> ns_string (map_of ms ''stats_reporting_level'') \<noteq> [])
       ''stats reporting level invalid ''
     (require (positive (ns_intValue str_int (map_of ms ''stats_reporting_max_requests_per_report'')))
       ''max requests per request invalid ''
     (require (isValidURL_ns url_ok (map_of ms ''stats_reporting_url''))
       ''stats reporting url invalid ''
     (require (isValidURL_ns url_ok (map_of ms ''transport_monitoring_url''))
       ''transport monitoring url invalid ''
       (Inr Valid)))))))))))))))"

text \<open>\<open>doc\<close> is the object of the data, \<open>None\<close> when the data is empty or does not parse.\<close>

definition isValidConfiguration :: "(string \<Rightarrow> bool) \<Rightarrow> (string \<Rightarrow> int) \<Rightarrow> json option \<Rightarrow> fault + validity" where
  "isValidConfiguration url_ok str_int doc =
     (if doc = None then Inr RejectedSilently else
      and_then (ns_subscript doc ''os'') (\<lambda>osString.
      if \<not> ns_isString osString \<or> ns_string osString \<noteq> ''iOS''
      then and_then (stdStringFromNSString osString) (\<lambda>_. Inr (Rejected ''OS incorrect ''))
      else
      and_then (ns_subscript doc ''configs'') (\<lambda>configsArray.
      and_then (ns_lastObject configsArray) (\<lambda>configsDict.
        case configsDict of Some (JObject ms) \<Rightarrow> check_configs url_ok str_int ms
        | _ \<Rightarrow> Inr (Rejected ''configs missing'')))))"

lemma require_Valid: "require ok reason rest = Inr Valid \<longleftrightarrow> ok \<and> rest = Inr Valid"
  by (simp add: require_def)

lemma check_configs_Valid:
  "check_configs url_ok str_int ms = Inr Valid \<longleftrightarrow>
     (\<exists>x xs. map_of ms ''allowed_transport_protocols'' = Some (JArray (x # xs)))
   \<and> isValidURL_ns url_ok (map_of ms ''configuration_api_url'')
   \<and> positive (ns_integerValue str_int (map_of ms ''configuration_refresh_interval_sec''))
   \<and> positive (ns_integerValue str_int (map_of ms ''configuration_stale_timeout_sec''))
   \<and> ns_isArray (map_of ms ''domains_black_list'')
   \<and> ns_isArray (map_of ms ''domains_provisioned_list'')
   \<and> ns_isString (map_of ms ''edge_host'') \<and> ns_string (map_of ms ''edge_host'') \<noteq> []
   \<and> one_of [''standard'', ''quic'', ''rev''] (map_of ms ''initial_transport_protocol'')
   \<and> one_of [''debug'', ''error'', ''info''] (map_of ms ''logging_level'')
   \<and> one_of operationModes (map_of ms ''operation_mode'')
   \<and> ns_intValue str_int (map_of ms ''sdk_release_version'') = Some 1
   \<and> positive (ns_integerValue str_int (map_of ms ''stats_reporting_interval_sec''))
   \<and> ns_isString (map_of ms ''stats_reporting_level'') \<and> ns_string (map_of ms ''stats_reporting_level'') \<noteq> []
   \<and> positive (ns_intValue str_int (map_of ms ''stats_reporting_max_requests_per_report''))
   \<and> isValidURL_ns url_ok (map_of ms ''stats_reporting_url'')
   \<and> isValidURL_ns url_ok (map_of ms ''transport_monitoring_url'')"
  unfolding check_configs_def require_Valid operationModes_def
  by (auto simp: and_then_eq_Inr require_Valid split: option.splits json.splits list.splits)

lemma isValidConfiguration_Valid:
  "isValidConfiguration url_ok str_int doc = Inr Valid \<longleftrightarrow>
     (\<exists>top cs ms. doc = Some (JObject top) \<and> map_of top ''os'' = Some (JString ''iOS'')
        \<and> map_of top ''configs'' = Some (JArray cs) \<and> cs \<noteq> [] \<and> last cs = JObject ms
        \<and> check_configs url_ok str_int ms = Inr Valid)"
  (is "?l \<longleftrightarrow> ?r")
proof
  assume l: ?l
  then obtain top where doc: "doc = Some (JObject top)"
    by (cases doc rule: ns_subscript.cases[of "(doc, [])" for doc, simplified])
      (auto simp: isValidConfiguration_def unrecognized_selector_def)
  have os: "map_of top ''os'' = Some (JString ''iOS'')"
    using l doc
    by (cases "map_of top ''os''" rule: ns_isString.cases)
      (auto simp: isValidConfiguration_def and_then_eq_Inr split: if_splits)
  obtain cs where cs: "map_of top ''configs'' = Some (JArray cs)" "cs \<noteq> []"
    using l doc os
    by (cases "map_of top ''configs''" rule: ns_lastObject.cases)
      (auto simp: isValidConfiguration_def unrecognized_selector_def split: if_splits)
  then show ?r
    using l doc os by (auto simp: isValidConfiguration_def split: json.splits)
next
  assume ?r
  then show ?l by (auto simp: isValidConfiguration_def)
qed

subsection \<open>What an accepted configuration becomes\<close>

definition int_keys :: "string list" where
  "int_keys = [''configuration_refresh_interval_sec'', ''configuration_stale_timeout_sec'',
     ''stats_reporting_interval_sec'', ''stats_reporting_max_requests_per_report'',
     ''edge_failures_failover_threshold_percent'', ''edge_failures_monitoring_interval_sec'',
     ''edge_quic_udp_port'', ''a_b_testing_origin_offload_ratio'', ''sdk_release_version'']"

definition string_keys :: "string list" where
  "string_keys = [''operation_mode'', ''stats_reporting_level'', ''configuration_api_url'',
     ''edge_host'', ''initial_transport_protocol'', ''transport_monitoring_url'',
     ''stats_reporting_url'', ''logging_level'', ''edge_sdk_domain'']"

definition list_keys :: "string list" where
  "list_keys = [''allowed_transport_protocols'', ''domains_provisioned_list'',
     ''domains_white_list'', ''domains_black_list'', ''internal_domains_black_list'']"

text \<open>Every field that is present has the JSON type the reader expects.\<close>

definition well_typed :: "(string \<times> json) list \<Rightarrow> bool" where
  "well_typed ms \<longleftrightarrow>
     (\<forall>k \<in> set int_keys. \<forall>v. map_of ms k = Some v \<longrightarrow> (\<exists>i. v = JInt i \<and> minInt \<le> i \<and> i \<le> maxInt))
   \<and> (\<forall>k \<in> set string_keys. \<forall>v. map_of ms k = Some v \<longrightarrow> (\<exists>s. v = JString s))
   \<and> (\<forall>k \<in> set list_keys. \<forall>v. map_of ms k = Some v \<longrightarrow> (\<exists>ss. v = JArray (map JString ss)))"

definition field_int :: "(string \<times> json) list \<Rightarrow> string \<Rightarrow> int" where
  "field_int ms k = (case map_of ms k of Some (JInt i) \<Rightarrow> i | _ \<Rightarrow> 0)"

definition field_string :: "(string \<times> json) list \<Rightarrow> string \<Rightarrow> string" where
  "field_string ms k = (case map_of ms k of Some (JString s) \<Rightarrow> s | _ \<Rightarrow> [])"

definition field_list :: "(string \<times> json) list \<Rightarrow> string \<Rightarrow> string list" where
  "field_list ms k = (case map_of ms k of Some (JArray xs) \<Rightarrow> map (\<lambda>x. case x of JString s \<Rightarrow> s | _ \<Rightarrow> []) xs | _ \<Rightarrow> [])"

lemma member_int_typed:
  "well_typed ms \<Longrightarrow> k \<in> set int_keys \<Longrightarrow> member_int (JObject ms) k = Inr (field_int ms k)"
  by (cases "map_of ms k")
    (force simp: well_typed_def member_int_def json_member_def json_asInt_def field_int_def)+

lemma member_string_typed:
  "well_typed ms \<Longrightarrow> k \<in> set string_keys \<Longrightarrow>
   member_string g17 (JObject ms) k = Inr (field_string ms k)"
  by (cases "map_of ms k")
    (force simp: well_typed_def member_string_def json_member_def json_asString_def field_string_def)+

lemma member_list_typed:
  "well_typed ms \<Longrightarrow> k \<in> set list_keys \<Longrightarrow>
   and_then (json_member (JObject ms) k) (vectorFromValue g17) = Inr (field_list ms k)"
  by (cases "map_of ms k")
    (force simp: well_typed_def json_member_def field_list_def comp_def)+

lemma member_float_typed:
  "well_typed ms \<Longrightarrow> k \<in> set int_keys \<Longrightarrow>
   \<exists>x. and_then (json_member (JObject ms) k) json_asFloat = Inr x"
  by (cases "map_of ms k") (force simp: well_typed_def json_member_def json_asFloat_def)+

text \<open>One step of the reader on a well-typed object.\<close>

lemma ex_string:
  "well_typed ms \<Longrightarrow> k \<in> set string_keys \<Longrightarrow> (\<And>s. \<exists>c. f s = Inr c) \<Longrightarrow>
   \<exists>c. and_then (member_string g17 (JObject ms) k) f = Inr c"
  by (simp add: member_string_typed)

lemma ex_int:
  "well_typed ms \<Longrightarrow> k \<in> set int_keys \<Longrightarrow> (\<And>s. \<exists>c. f s = Inr c) \<Longrightarrow>
   \<exists>c. and_then (member_int (JObject ms) k) f = Inr c"
  by (simp add: member_int_typed)

lemma ex_list:
  "well_typed ms \<Longrightarrow> k \<in> set list_keys \<Longrightarrow> (\<And>s. \<exists>c. f s = Inr c) \<Longrightarrow>
   \<exists>c. and_then (and_then (json_member (JObject ms) k) (vectorFromValue g17)) f = Inr c"
  by (simp add: member_list_typed)

lemma ex_float:
  "well_typed ms \<Longrightarrow> k \<in> set int_keys \<Longrightarrow> (\<And>s. \<exists>c. f s = Inr c) \<Longrightarrow>
   \<exists>c. and_then (and_then (json_member (JObject ms) k) json_asFloat) f = Inr c"
  by (metis and_then_simps(2) member_float_typed)

lemma ex_known: "r = Inr a \<Longrightarrow> (\<And>s. \<exists>c. f s = Inr c) \<Longrightarrow> \<exists>c. and_then r f = Inr c"
  by simp

lemma ex_Inr: "\<exists>c. Inr x = Inr c"
  by simp

lemma process_configs_typed:
  assumes ms: "well_typed ms"
    and app: "member_string g17 value ''app_name'' = Inr a"
    and os: "member_string g17 value ''os'' = Inr b"
  shows "\<exists>c. process_configs g17 c0 value (JObject ms) = Inr c"
  unfolding process_configs_def
  by (intro ex_string[OF ms] ex_int[OF ms] ex_list[OF ms] ex_float[OF ms] ex_known[OF app]
      ex_known[OF os] ex_Inr)
    (simp_all add: int_keys_def string_keys_def list_keys_def)

lemma typed_int_present:
  assumes "well_typed ms" and "k \<in> set int_keys" and "positive (ns_integerValue str_int (map_of ms k))"
  shows "0 < field_int ms k" and "field_int ms k \<le> maxInt"
  using assms by (cases "map_of ms k"; force simp: well_typed_def positive_def field_int_def)+

lemma sint_in_int_range: "minInt \<le> i \<Longrightarrow> i \<le> maxInt \<Longrightarrow> sint (word_of_int i :: 32 word) = i"
  by (simp add: sint_sbintrunc' signed_take_bit_int_eq_self minInt_def maxInt_def)

lemma typed_intValue_positive:
  assumes "well_typed ms" and "k \<in> set int_keys" and "positive (ns_intValue str_int (map_of ms k))"
  shows "0 < field_int ms k"
proof (cases "map_of ms k")
  case None
  with assms(3) show ?thesis by (simp add: positive_def ns_intValue_def)
next
  case (Some v)
  with assms(1,2) obtain i where "v = JInt i" "minInt \<le> i" "i \<le> maxInt"
    by (auto simp: well_typed_def)
  with Some assms(3) show ?thesis
    by (simp add: positive_def ns_intValue_def field_int_def sint_in_int_range)
qed

lemma one_of_field: "one_of names (map_of ms k) \<Longrightarrow> field_string ms k \<in> set names"
  unfolding one_of_def by (cases "map_of ms k" rule: ns_string.cases) (simp_all add: field_string_def)

lemma nonempty_field:
  "ns_isString (map_of ms k) \<Longrightarrow> ns_string (map_of ms k) \<noteq> [] \<Longrightarrow> field_string ms k \<noteq> []"
  by (cases "map_of ms k" rule: ns_string.cases) (simp_all add: field_string_def)

lemma field_list_nonempty: "map_of ms k = Some (JArray (x # xs)) \<Longrightarrow> field_list ms k \<noteq> []"
  by (simp add: field_list_def)

text \<open>What the rest of the SDK needs of a configuration.\<close>

definition usable :: "configuration \<Rightarrow> bool" where
  "usable c \<longleftrightarrow>
     operationMode c \<le> kRSOperationModeInnerTransportAndReport
   \<and> 0 < refreshInterval c \<and> 0 < staleTimeout c \<and> 0 < statsReportingMaxRequests c
   \<and> allowedProtocols c \<noteq> [] \<and> edgeHost c \<noteq> []
   \<and> initialTransportProtocol c \<in> {''standard'', ''quic'', ''rev''}
   \<and> loggingLevel c \<in> {''debug'', ''error'', ''info''}"

lemma process_configs_usable:
  assumes ms: "well_typed ms" and ok: "check_configs url_ok str_int ms = Inr Valid"
    and c: "process_configs g17 c0 value (JObject ms) = Inr c"
  shows "usable c"
proof -
  from c obtain mode where mode: "member_string g17 (JObject ms) ''operation_mode'' = Inr mode"
      "operationMode c = find_index mode operationModes"
    and allowed: "and_then (json_member (JObject ms) ''allowed_transport_protocols'') (vectorFromValue g17)
        = Inr (allowedProtocols c)"
    and init: "member_string g17 (JObject ms) ''initial_transport_protocol'' = Inr (initialTransportProtocol c)"
    and edge: "member_string g17 (JObject ms) ''edge_host'' = Inr (edgeHost c)"
    and ref: "member_int (JObject ms) ''configuration_refresh_interval_sec'' = Inr (refreshInterval c)"
    and stale: "member_int (JObject ms) ''configuration_stale_timeout_sec'' = Inr (staleTimeout c)"
    and mx: "member_int (JObject ms) ''stats_reporting_max_requests_per_report'' = Inr (statsReportingMaxRequests c)"
    and lg: "member_string g17 (JObject ms) ''logging_level'' = Inr (loggingLevel c)"
    by (rule process_configs_fields)
  note v = ok[unfolded check_configs_Valid]
  have "mode \<in> set operationModes"
    using v one_of_field[of operationModes ms "''operation_mode''"] mode(1)
    by (simp add: member_string_typed[OF ms] string_keys_def)
  then have "operationMode c < length operationModes"
    unfolding mode(2) find_index_less_iff .
  then have m: "operationMode c \<le> kRSOperationModeInnerTransportAndReport"
    by (simp add: operationModes_def mode_defs)
  have "refreshInterval c = field_int ms ''configuration_refresh_interval_sec''"
    and "staleTimeout c = field_int ms ''configuration_stale_timeout_sec''"
    and "statsReportingMaxRequests c = field_int ms ''stats_reporting_max_requests_per_report''"
    using ref stale mx by (simp_all add: member_int_typed[OF ms] int_keys_def)
  then have n: "0 < refreshInterval c" "0 < staleTimeout c" "0 < statsReportingMaxRequests c"
    using v typed_int_present(1)[OF ms, of _ str_int] typed_intValue_positive[OF ms, of _ str_int]
    by (simp_all add: int_keys_def)
  have "allowedProtocols c = field_list ms ''allowed_transport_protocols''"
    using allowed by (simp add: member_list_typed[OF ms] list_keys_def)
  then have a: "allowedProtocols c \<noteq> []" using v field_list_nonempty by metis
  have "edgeHost c = field_string ms ''edge_host''"
    and "initialTransportProtocol c = field_string ms ''initial_transport_protocol''"
    and "loggingLevel c = field_string ms ''logging_level''"
    using edge init lg by (simp_all add: member_string_typed[OF ms] string_keys_def)
  moreover have "field_string ms ''edge_host'' \<noteq> []"
    using v nonempty_field by blast
  moreover have "field_string ms ''initial_transport_protocol'' \<in> set [''standard'', ''quic'', ''rev'']"
    and "field_string ms ''logging_level'' \<in> set [''debug'', ''error'', ''info'']"
    using v one_of_field by blast+
  ultimately show ?thesis
    unfolding usable_def using m n a by simp
qed

subsection \<open>Properties\<close>

text \<open>
  Property C23. A document that passes the validation, holds one configuration and has fields
  of the JSON types the reader expects is turned into a configuration without an exception, and
  that configuration is usable: its mode is one of the four, its intervals and the batch size
  are positive, a protocol is allowed, the edge host is known, the initial protocol and the
  logging level are known names.
\<close>

theorem accepted_configuration_is_usable:
  assumes "isValidConfiguration url_ok str_int (Some (JObject members)) = Inr Valid"
    and "map_of members ''configs'' = Some (JArray [JObject ms])"
    and "well_typed ms"
    and "member_string g17 (JObject members) ''app_name'' = Inr a"
  shows "\<exists>c. processConfigurationData g17 mem (Some (JObject members)) = Inr c \<and> usable c"
proof -
  from assms(1,2) have os: "map_of members ''os'' = Some (JString ''iOS'')"
    and ok: "check_configs url_ok str_int ms = Inr Valid"
    by (auto simp: isValidConfiguration_Valid)
  have "member_string g17 (JObject members) ''os'' = Inr ''iOS''"
    using os by (simp add: member_string_def json_member_def json_asString_def)
  then obtain c where "process_configs g17 (Configuration_new mem) (JObject members) (JObject ms) = Inr c"
    using process_configs_typed[OF assms(3,4)] by blast
  moreover have "usable c" using process_configs_usable[OF assms(3) ok calculation] .
  ultimately show ?thesis
    using assms(2) by (simp add: processConfigurationData_def json_member_def json_index_def)
qed

definition sample_configs :: "(string \<times> json) list" where
  "sample_configs =
     [(''allowed_transport_protocols'', JArray (map JString [''standard'', ''quic''])),
      (''configuration_api_url'', JString ''https://api.example''),
      (''configuration_refresh_interval_sec'', JInt 60),
      (''configuration_stale_timeout_sec'', JInt 120),
      (''domains_black_list'', JArray (map JString [])),
      (''domains_provisioned_list'', JArray (map JString [])),
      (''edge_host'', JString ''edge.example''),
      (''initial_transport_protocol'', JString ''standard''),
      (''logging_level'', JString ''error''),
      (''operation_mode'', JString ''transfer_and_report''),
      (''sdk_release_version'', JInt 1),
      (''stats_reporting_interval_sec'', JInt 60),
      (''stats_reporting_level'', JString ''debug''),
      (''stats_reporting_max_requests_per_report'', JInt 100),
      (''stats_reporting_url'', JString ''https://stats.example''),
      (''transport_monitoring_url'', JString ''https://monitor.example'')]"

lemma sample_checks: "check_configs (\<lambda>u. True) (\<lambda>s. 0) sample_configs = Inr Valid"
  by (simp add: check_configs_def sample_configs_def require_def isValidURL_ns_def positive_def
      one_of_def ns_intValue_def)

lemma sample_typed: "well_typed sample_configs"
  unfolding well_typed_def int_keys_def string_keys_def list_keys_def sample_configs_def
  by (auto simp: minInt_def maxInt_def) (rule exI[of _ "[''standard'', ''quic'']"], simp)

theorem accepted_configuration_is_usable_witness:
  "\<exists>c. processConfigurationData (\<lambda>x. []) undefined
     (Some (JObject [(''os'', JString ''iOS''), (''configs'', JArray [JObject sample_configs])])) = Inr c \<and> usable c"
  by (rule accepted_configuration_is_usable[of "\<lambda>u. True" "\<lambda>s. 0" _ sample_configs _ "[]"])
    (simp_all add: isValidConfiguration_def sample_checks sample_typed member_string_def
      json_member_def json_asString_def)

text \<open>
  Property C38. The validation checks the last element of \<open>configs\<close>, the reader reads the first:
  a document is accepted whatever stands before an acceptable configuration, and what is applied
  comes from the first element alone. With an empty first object the accepted document yields
  an operation mode outside the enumeration and zero intervals.
\<close>

theorem validation_checks_another_element:
  assumes "check_configs url_ok str_int ms = Inr Valid"
  defines "doc \<equiv> (\<lambda>x. JObject [(''os'', JString ''iOS''), (''configs'', JArray [x, JObject ms])])"
  shows "isValidConfiguration url_ok str_int (Some (doc x)) = Inr Valid
     \<and> processConfigurationData g17 mem (Some (doc x)) =
         process_configs g17 (Configuration_new mem) (doc x) x
     \<and> (\<exists>c. processConfigurationData g17 mem (Some (doc (JObject []))) = Inr c
          \<and> operationMode c = 4 \<and> refreshInterval c = 0 \<and> staleTimeout c = 0)"
proof -
  have "\<exists>c. process_configs g17 (Configuration_new mem) (doc (JObject [])) (JObject []) = Inr c
          \<and> operationMode c = 4 \<and> refreshInterval c = 0 \<and> staleTimeout c = 0"
    by (simp add: process_configs_def member_string_def member_int_def json_member_def
        json_asString_def json_asInt_def json_asFloat_def doc_def operationModes_def)
  then show ?thesis
    using assms(1) by (simp add: isValidConfiguration_def processConfigurationData_def json_member_def
      json_index_def doc_def)
qed

theorem validation_checks_another_element_witness:
  "isValidConfiguration (\<lambda>u. True) (\<lambda>s. 0)
     (Some (JObject [(''os'', JString ''iOS''), (''configs'', JArray [JNull, JObject sample_configs])])) = Inr Valid"
  using validation_checks_another_element[of "\<lambda>u. True" "\<lambda>s. 0" sample_configs JNull, OF sample_checks]
  by blast

text \<open>
  The validation takes a number in quotes for a number, the reader does not: a
  document whose refresh interval is the string \<open>60\<close> is accepted, and reading it throws.
\<close>

theorem quoted_number_accepted_but_throws:
  "let ms = (''configuration_refresh_interval_sec'', JString ''60'') # sample_configs;
       doc = JObject [(''os'', JString ''iOS''), (''configs'', JArray [JObject ms])]
   in isValidConfiguration (\<lambda>u. True) (\<lambda>s. if s = ''60'' then 60 else 0) (Some doc) = Inr Valid
    \<and> processConfigurationData g17 mem (Some doc) = Inl (Thrown ''Json::LogicError'')"
proof -
  let ?ms = "(''configuration_refresh_interval_sec'', JString ''60'') # sample_configs"
  let ?doc = "JObject [(''os'', JString ''iOS''), (''configs'', JArray [JObject ?ms])]"
  have "check_configs (\<lambda>u. True) (\<lambda>s. if s = ''60'' then 60 else 0) ?ms = Inr Valid"
    by (simp add: check_configs_def sample_configs_def require_def isValidURL_ns_def positive_def
      one_of_def ns_intValue_def)
  moreover have "process_configs g17 (Configuration_new mem) ?doc (JObject ?ms) = Inl (Thrown ''Json::LogicError'')"
    by (simp add: process_configs_def member_string_def member_int_def json_member_def
        json_asString_def json_asInt_def json_asFloat_def sample_configs_def json_fail_def)
  ultimately show ?thesis
    by (simp add: isValidConfiguration_def processConfigurationData_def json_member_def json_index_def Let_def)
qed

end
