(* ===== verification/DataStorage.thy ===== *)
theory DataStorage
  imports Configuration
begin

text \<open>
  Persistent storage (\<open>DataStorage/DataStorage.mm\<close>) and the conversions between the SDK's values
  and property lists (\<open>Utils/RSUtils.mm\<close>). The storage directory is a map from file names to the
  property list a file holds, \<open>None\<close> when there is no readable file; \<open>defaults\<close> is the integer
  part of \<open>NSUserDefaults\<close>. Whether the operating system lets a file be removed and written is an
  argument of the operations, and so is Foundation's test that bytes are UTF-8.

  A message sent to \<open>nil\<close> answers zero, an object that does not understand a message and a \<open>nil\<close>
  put into a collection raise an exception.
\<close>

datatype plist =
    PString string
  | PInt int
  | PReal rat
  | PBool bool
  | PData string
  | PArray "plist list"
  | PDict "(string \<times> plist) list"

record disk =
  files :: "string \<rightharpoonup> plist"
  defaults :: "string \<rightharpoonup> int"

record io_outcome =
  can_remove :: bool
  can_write :: bool

definition io_ok :: io_outcome where "io_ok = \<lparr>can_remove = True, can_write = True\<rparr>"

definition kRSConfigurationStorageKey :: string where "kRSConfigurationStorageKey = ''kRSConfigurationStorageKey''"
definition kRSRequestDataStorageKey :: string where "kRSRequestDataStorageKey = ''kRSRequestDataStorageKey''"
definition kRSLastMileDataStorageKey :: string where "kRSLastMileDataStorageKey = ''kRSLastMileDataStorageKey''"

lemmas storage_keys =
  kRSConfigurationStorageKey_def kRSRequestDataStorageKey_def kRSLastMileDataStorageKey_def

definition ns_exception :: "fault + 'a" where
  "ns_exception = Inl (Thrown ''NSInvalidArgumentException'')"

subsection \<open>Files\<close>

definition canWriteToPath :: "io_outcome \<Rightarrow> string \<Rightarrow> disk \<Rightarrow> bool \<times> disk" where
  "canWriteToPath io path d =
     (if files d path \<noteq> None
      then (if can_remove io then (True, d\<lparr>files := (files d)(path := None)\<rparr>) else (False, d))
      else (True, d))"

definition saveObject :: "io_outcome \<Rightarrow> plist \<Rightarrow> string \<Rightarrow> disk \<Rightarrow> disk" where
  "saveObject io obj name d =
     (let (ok, d') = canWriteToPath io name d in
      if ok \<and> can_write io then d'\<lparr>files := (files d')(name \<mapsto> obj)\<rparr> else d')"

definition contentsOfFileWithName :: "string \<Rightarrow> disk \<Rightarrow> plist option" where
  "contentsOfFileWithName name d = files d name"

definition deleteFile :: "io_outcome \<Rightarrow> string \<Rightarrow> disk \<Rightarrow> disk" where
  "deleteFile io name d = (if can_remove io then d\<lparr>files := (files d)(name := None)\<rparr> else d)"

lemma saveObject_ok [simp]: "saveObject io_ok obj name d = d\<lparr>files := (files d)(name \<mapsto> obj)\<rparr>"
  by (simp add: saveObject_def canWriteToPath_def io_ok_def)

lemma deleteFile_ok [simp]: "deleteFile io_ok name d = d\<lparr>files := (files d)(name := None)\<rparr>"
  by (simp add: deleteFile_def io_ok_def)

definition saveIntForKey :: "string \<Rightarrow> int \<Rightarrow> disk \<Rightarrow> disk" where
  "saveIntForKey key v d = d\<lparr>defaults := (defaults d)(key \<mapsto> v)\<rparr>"

definition getIntForKey :: "string \<Rightarrow> disk \<Rightarrow> int" where
  "getIntForKey key d = (case defaults d key of Some v \<Rightarrow> v | None \<Rightarrow> 0)"

subsection \<open>Strings and numbers\<close>

text \<open>\<open>stringWithUTF8String:\<close> reads up to the first zero and answers \<open>nil\<close> for bytes that are not UTF-8.\<close>

definition NSStringFromStdString :: "(string \<Rightarrow> bool) \<Rightarrow> string \<Rightarrow> string option" where
  "NSStringFromStdString utf8 s = (if utf8 (c_str s) then Some (c_str s) else None)"

fun stdStringFromObject :: "plist option \<Rightarrow> fault + string" where
  "stdStringFromObject None = Inr []"
| "stdStringFromObject (Some (PString s)) = Inr (c_str s)"
| "stdStringFromObject (Some v) = ns_exception"

fun integerValue :: "plist option \<Rightarrow> fault + int" where
  "integerValue None = Inr 0"
| "integerValue (Some (PInt i)) = Inr i"
| "integerValue (Some (PReal x)) = Inr (trunc_rat x)"
| "integerValue (Some (PBool b)) = Inr (if b then 1 else 0)"
| "integerValue (Some v) = ns_exception"

definition intValue :: "plist option \<Rightarrow> fault + int" where
  "intValue v = and_then (integerValue v) (\<lambda>i. Inr (sint (word_of_int i :: 32 word)))"

fun doubleValue :: "plist option \<Rightarrow> fault + rat" where
  "doubleValue None = Inr 0"
| "doubleValue (Some (PInt i)) = Inr (fl64 (of_int i))"
| "doubleValue (Some (PReal x)) = Inr x"
| "doubleValue (Some (PBool b)) = Inr (if b then 1 else 0)"
| "doubleValue (Some v) = ns_exception"

definition floatValue :: "plist option \<Rightarrow> fault + rat" where
  "floatValue v = and_then (doubleValue v) (\<lambda>x. Inr (fl32 x))"

definition boolValue :: "plist option \<Rightarrow> fault + bool" where
  "boolValue v = and_then (doubleValue v) (\<lambda>x. Inr (x \<noteq> 0))"

fun vectorFromObjects :: "plist list \<Rightarrow> fault + string list" where
  "vectorFromObjects [] = Inr []"
| "vectorFromObjects (x # xs) =
     and_then (stdStringFromObject (Some x)) (\<lambda>s. and_then (vectorFromObjects xs) (\<lambda>ss. Inr (s # ss)))"

fun vectorFromNSArray :: "plist option \<Rightarrow> fault + string list" where
  "vectorFromNSArray None = Inr []"
| "vectorFromNSArray (Some (PArray xs)) = vectorFromObjects xs"
| "vectorFromNSArray (Some v) = ns_exception"

fun NSArrayFromVector :: "(string \<Rightarrow> bool) \<Rightarrow> string list \<Rightarrow> fault + plist list" where
  "NSArrayFromVector utf8 [] = Inr []"
| "NSArrayFromVector utf8 (s # ss) =
     (case NSStringFromStdString utf8 s of None \<Rightarrow> ns_exception
      | Some t \<Rightarrow> and_then (NSArrayFromVector utf8 ss) (\<lambda>xs. Inr (PString t # xs)))"

text \<open>Strings that survive the way through \<open>NSString\<close>.\<close>

definition plain :: "(string \<Rightarrow> bool) \<Rightarrow> string \<Rightarrow> bool" where
  "plain utf8 s \<longleftrightarrow> utf8 s \<and> CHR 0x00 \<notin> set s"

lemma NSString_plain [simp]: "plain utf8 s \<Longrightarrow> NSStringFromStdString utf8 s = Some s"
  by (simp add: plain_def NSStringFromStdString_def c_str_no_nul)

lemma stdString_plain [simp]: "plain utf8 s \<Longrightarrow> stdStringFromObject (Some (PString s)) = Inr s"
  by (simp add: plain_def c_str_no_nul)

lemma NSArray_plain [simp]:
  "(\<And>s. s \<in> set ss \<Longrightarrow> plain utf8 s) \<Longrightarrow> NSArrayFromVector utf8 ss = Inr (map PString ss)"
  by (induction ss) simp_all

lemma vector_plain:
  "(\<And>s. s \<in> set ss \<Longrightarrow> plain utf8 s) \<Longrightarrow> vectorFromObjects (map PString ss) = Inr ss"
  by (induction ss) (simp_all del: stdStringFromObject.simps add: stdString_plain[of utf8])

lemma intValue_range:
  "minInt \<le> i \<Longrightarrow> i \<le> maxInt \<Longrightarrow> intValue (Some (PInt i)) = Inr i"
  by (simp add: intValue_def sint_sbintrunc' signed_take_bit_int_eq_self minInt_def maxInt_def)

subsection \<open>The configuration file\<close>

definition ns_str :: "(string \<Rightarrow> bool) \<Rightarrow> string \<Rightarrow> fault + plist" where
  "ns_str utf8 s = (case NSStringFromStdString utf8 s of None \<Rightarrow> ns_exception | Some t \<Rightarrow> Inr (PString t))"

definition ns_arr :: "(string \<Rightarrow> bool) \<Rightarrow> string list \<Rightarrow> fault + plist" where
  "ns_arr utf8 ss = and_then (NSArrayFromVector utf8 ss) (\<lambda>xs. Inr (PArray xs))"

text \<open>The assignments \<open>dictionary[key] = value\<close>, one after the other.\<close>

fun set_all :: "(string \<times> (fault + plist)) list \<Rightarrow> fault + (string \<times> plist) list" where
  "set_all [] = Inr []"
| "set_all ((k, v) # es) = and_then v (\<lambda>x. and_then (set_all es) (\<lambda>d. Inr ((k, x) # d)))"

definition NSDictionaryFromConfiguration ::
  "(string \<Rightarrow> bool) \<Rightarrow> configuration \<Rightarrow> fault + (string \<times> plist) list" where
  "NSDictionaryFromConfiguration utf8 c = set_all
     [(''os'', ns_str utf8 (os c)),
      (''app_name'', ns_str utf8 (appName c)),
      (''sdk_release_version'', Inr (PReal (sdkReleaseVersion c))),
      (''configuration_api_url'', ns_str utf8 (configurationApiURL c)),
      (''configuration_refresh_interval_sec'', Inr (PInt (refreshInterval c))),
      (''configuration_stale_timeout_sec'', Inr (PInt (staleTimeout c))),
      (''edge_host'', ns_str utf8 (edgeHost c)),
      (''operation_mode'', Inr (PInt (int (operationMode c)))),
      (''allowed_transport_protocols'', ns_arr utf8 (allowedProtocols c)),
      (''initial_transport_protocol'', ns_str utf8 (initialTransportProtocol c)),
      (''transport_monitoring_url'', ns_str utf8 (transportMonitoringURL c)),
      (''stats_reporting_url'', ns_str utf8 (statsReportingURL c)),
      (''stats_reporting_interval_sec'', Inr (PInt (statsReportingInterval c))),
      (''stats_reporting_level'', Inr (PInt (int (statsReportingLevel c)))),
      (''stats_reporting_max_requests_per_report'', Inr (PInt (statsReportingMaxRequests c))),
      (''domains_provisioned_list'', ns_arr utf8 (domainsProvisionedList c)),
      (''domains_white_list'', ns_arr utf8 (domainsWhiteList c)),
      (''domains_black_list'', ns_arr utf8 (domainsBlackList c)),
      (''internal_domains_black_list'', ns_arr utf8 (domainsInternalBlackList c)),
      (''logging_level'', ns_str utf8 (loggingLevel c)),
      (''a_b_mode'', Inr (PBool (abTesMode c))),
      (''a_b_testing_origin_offload_ratio'', Inr (PInt (abTestingRatio c))),
      (''edge_failures_failover_threshold_percent'', Inr (PReal (failuresFailoverThreshold c))),
      (''edge_failures_monitoring_interval_sec'', Inr (PInt (failuresMonitoringInterval c))),
      (''edge_quic_udp_port'', Inr (PInt (quicUDPPort c))),
      (''edge_sdk_domain'', ns_str utf8 (SDKDomain c))]"

definition configurationFromNSDictionary ::
  "configuration \<Rightarrow> (string \<times> plist) list \<Rightarrow> fault + configuration" where
  "configurationFromNSDictionary mem ms =
     and_then (stdStringFromObject (map_of ms ''os'')) (\<lambda>v_os.
     and_then (stdStringFromObject (map_of ms ''app_name'')) (\<lambda>v_appName.
     and_then (floatValue (map_of ms ''sdk_release_version'')) (\<lambda>v_sdkReleaseVersion.
     and_then (stdStringFromObject (map_of ms ''configuration_api_url'')) (\<lambda>v_configurationApiURL.
     and_then (intValue (map_of ms ''configuration_refresh_interval_sec'')) (\<lambda>v_refreshInterval.
     and_then (intValue (map_of ms ''configuration_stale_timeout_sec'')) (\<lambda>v_staleTimeout.
     and_then (stdStringFromObject (map_of ms ''edge_host'')) (\<lambda>v_edgeHost.
     and_then (integerValue (map_of ms ''operation_mode'')) (\<lambda>v_operationMode.
     and_then (vectorFromNSArray (map_of ms ''allowed_transport_protocols'')) (\<lambda>v_allowedProtocols.
     and_then (stdStringFromObject (map_of ms ''initial_transport_protocol'')) (\<lambda>v_initialTransportProtocol.
     and_then (stdStringFromObject (map_of ms ''transport_monitoring_url'')) (\<lambda>v_transportMonitoringURL.
     and_then (stdStringFromObject (map_of ms ''stats_reporting_url'')) (\<lambda>v_statsReportingURL.
     and_then (intValue (map_of ms ''stats_reporting_interval_sec'')) (\<lambda>v_statsReportingInterval.
     and_then (intValue (map_of ms ''stats_reporting_level'')) (\<lambda>v_statsReportingLevel.
     and_then (intValue (map_of ms ''stats_reporting_max_requests_per_report'')) (\<lambda>v_statsReportingMaxRequests.
     and_then (vectorFromNSArray (map_of ms ''domains_provisioned_list'')) (\<lambda>v_domainsProvisionedList.
     and_then (vectorFromNSArray (map_of ms ''domains_white_list'')) (\<lambda>v_domainsWhiteList.
     and_then (vectorFromNSArray (map_of ms ''domains_black_list'')) (\<lambda>v_domainsBlackList.
     and_then (vectorFromNSArray (map_of ms ''internal_domains_black_list'')) (\<lambda>v_domainsInternalBlackList.
     and_then (stdStringFromObject (map_of ms ''logging_level'')) (\<lambda>v_loggingLevel.
     and_then (boolValue (map_of ms ''a_b_mode'')) (\<lambda>v_abTesMode.
     and_then (intValue (map_of ms ''a_b_testing_origin_offload_ratio'')) (\<lambda>v_abTestingRatio.
     and_then (doubleValue (map_of ms ''edge_failures_failover_threshold_percent'')) (\<lambda>v_failuresFailoverThreshold.
     and_then (intValue (map_of ms ''edge_failures_monitoring_interval_sec'')) (\<lambda>v_failuresMonitoringInterval.
     and_then (intValue (map_of ms ''edge_quic_udp_port'')) (\<lambda>v_quicUDPPort.
     and_then (stdStringFromObject (map_of ms ''edge_sdk_domain'')) (\<lambda>v_SDKDomain.
     Inr ((Configuration_new mem)
       \<lparr>os := v_os,
        appName := v_appName,
        sdkReleaseVersion := v_sdkReleaseVersion,
        configurationApiURL := v_configurationApiURL,
        refreshInterval := v_refreshInterval,
        staleTimeout := v_staleTimeout,
        edgeHost := v_edgeHost,
        operationMode := nat v_operationMode,
        allowedProtocols := v_allowedProtocols,
        initialTransportProtocol := v_initialTransportProtocol,
        transportMonitoringURL := v_transportMonitoringURL,
        statsReportingURL := v_statsReportingURL,
        statsReportingInterval := v_statsReportingInterval,
        statsReportingLevel := nat v_statsReportingLevel,
        statsReportingMaxRequests := v_statsReportingMaxRequests,
        domainsProvisionedList := v_domainsProvisionedList,
        domainsWhiteList := v_domainsWhiteList,
        domainsBlackList := v_domainsBlackList,
        domainsInternalBlackList := v_domainsInternalBlackList,
        loggingLevel := v_loggingLevel,
        abTesMode := v_abTesMode,
        abTestingRatio := v_abTestingRatio,
        failuresFailoverThreshold := v_failuresFailoverThreshold,
        failuresMonitoringInterval := v_failuresMonitoringInterval,
        quicUDPPort := v_quicUDPPort,
        SDKDomain := v_SDKDomain\<rparr>)))))))))))))))))))))))))))"

definition saveConfiguration ::
  "io_outcome \<Rightarrow> (string \<Rightarrow> bool) \<Rightarrow> configuration \<Rightarrow> disk \<Rightarrow> fault + disk" where
  "saveConfiguration io utf8 c d =
     and_then (NSDictionaryFromConfiguration utf8 c) (\<lambda>ms.
       Inr (saveObject io (PDict ms) kRSConfigurationStorageKey d))"

definition storedConfiguration :: "configuration \<Rightarrow> disk \<Rightarrow> fault + configuration" where
  "storedConfiguration mem d =
     (case contentsOfFileWithName kRSConfigurationStorageKey d of
        None \<Rightarrow> configurationFromNSDictionary mem []
      | Some (PDict ms) \<Rightarrow> configurationFromNSDictionary mem ms
      | Some _ \<Rightarrow> ns_exception)"

definition in_int :: "int \<Rightarrow> bool" where
  "in_int i \<longleftrightarrow> minInt \<le> i \<and> i \<le> maxInt"

text \<open>A configuration whose strings are plain and whose numbers fit their C types.\<close>

definition storable :: "(string \<Rightarrow> bool) \<Rightarrow> configuration \<Rightarrow> bool" where
  "storable utf8 c \<longleftrightarrow>
     (\<forall>s \<in> set [os c, appName c, configurationApiURL c, edgeHost c, initialTransportProtocol c, transportMonitoringURL c, statsReportingURL c, loggingLevel c, SDKDomain c] \<union> set (allowedProtocols c)
          \<union> set (domainsProvisionedList c) \<union> set (domainsWhiteList c) \<union> set (domainsBlackList c)
          \<union> set (domainsInternalBlackList c). plain utf8 s)
   \<and> (\<forall>i \<in> set [refreshInterval c, staleTimeout c, statsReportingInterval c, statsReportingMaxRequests c, abTestingRatio c, failuresMonitoringInterval c, quicUDPPort c, int (statsReportingLevel c)]. in_int i)
   \<and> fl32 (sdkReleaseVersion c) = sdkReleaseVersion c"

lemma storable_values:
  assumes "storable utf8 c"
  shows "ns_str utf8 (os c) = Inr (PString (os c))"
    "ns_str utf8 (appName c) = Inr (PString (appName c))"
    "ns_str utf8 (configurationApiURL c) = Inr (PString (configurationApiURL c))"
    "ns_str utf8 (edgeHost c) = Inr (PString (edgeHost c))"
    "ns_str utf8 (initialTransportProtocol c) = Inr (PString (initialTransportProtocol c))"
    "ns_str utf8 (transportMonitoringURL c) = Inr (PString (transportMonitoringURL c))"
    "ns_str utf8 (statsReportingURL c) = Inr (PString (statsReportingURL c))"
    "ns_str utf8 (loggingLevel c) = Inr (PString (loggingLevel c))"
    "ns_str utf8 (SDKDomain c) = Inr (PString (SDKDomain c))"
    "ns_arr utf8 (allowedProtocols c) = Inr (PArray (map PString (allowedProtocols c)))"
    "ns_arr utf8 (domainsProvisionedList c) = Inr (PArray (map PString (domainsProvisionedList c)))"
    "ns_arr utf8 (domainsWhiteList c) = Inr (PArray (map PString (domainsWhiteList c)))"
    "ns_arr utf8 (domainsBlackList c) = Inr (PArray (map PString (domainsBlackList c)))"
    "ns_arr utf8 (domainsInternalBlackList c) = Inr (PArray (map PString (domainsInternalBlackList c)))"
  using assms by (simp_all add: storable_def ns_str_def ns_arr_def NSArray_plain[of _ utf8])

lemma storable_reads:
  assumes "storable utf8 c"
  shows "stdStringFromObject (Some (PString (os c))) = Inr (os c)"
    "stdStringFromObject (Some (PString (appName c))) = Inr (appName c)"
    "stdStringFromObject (Some (PString (configurationApiURL c))) = Inr (configurationApiURL c)"
    "stdStringFromObject (Some (PString (edgeHost c))) = Inr (edgeHost c)"
    "stdStringFromObject (Some (PString (initialTransportProtocol c))) = Inr (initialTransportProtocol c)"
    "stdStringFromObject (Some (PString (transportMonitoringURL c))) = Inr (transportMonitoringURL c)"
    "stdStringFromObject (Some (PString (statsReportingURL c))) = Inr (statsReportingURL c)"
    "stdStringFromObject (Some (PString (loggingLevel c))) = Inr (loggingLevel c)"
    "stdStringFromObject (Some (PString (SDKDomain c))) = Inr (SDKDomain c)"
    "vectorFromObjects (map PString (allowedProtocols c)) = Inr (allowedProtocols c)"
    "vectorFromObjects (map PString (domainsProvisionedList c)) = Inr (domainsProvisionedList c)"
    "vectorFromObjects (map PString (domainsWhiteList c)) = Inr (domainsWhiteList c)"
    "vectorFromObjects (map PString (domainsBlackList c)) = Inr (domainsBlackList c)"
    "vectorFromObjects (map PString (domainsInternalBlackList c)) = Inr (domainsInternalBlackList c)"
    "intValue (Some (PInt (refreshInterval c))) = Inr (refreshInterval c)"
    "intValue (Some (PInt (staleTimeout c))) = Inr (staleTimeout c)"
    "intValue (Some (PInt (statsReportingInterval c))) = Inr (statsReportingInterval c)"
    "intValue (Some (PInt (statsReportingMaxRequests c))) = Inr (statsReportingMaxRequests c)"
    "intValue (Some (PInt (abTestingRatio c))) = Inr (abTestingRatio c)"
    "intValue (Some (PInt (failuresMonitoringInterval c))) = Inr (failuresMonitoringInterval c)"
    "intValue (Some (PInt (quicUDPPort c))) = Inr (quicUDPPort c)"
    "intValue (Some (PInt (int (statsReportingLevel c)))) = Inr (int (statsReportingLevel c))"
    "floatValue (Some (PReal (sdkReleaseVersion c))) = Inr (sdkReleaseVersion c)"
    "boolValue (Some (PBool (abTesMode c))) = Inr (abTesMode c)"
  using assms by (simp_all add: storable_def in_int_def intValue_range floatValue_def boolValue_def
      stdString_plain[of utf8] vector_plain[of _ utf8] del: stdStringFromObject.simps)

lemma saved_configuration:
  assumes "storable utf8 c"
  shows "\<exists>d'. saveConfiguration io_ok utf8 c d = Inr d' \<and> storedConfiguration mem d' = Inr c
     \<and> defaults d' = defaults d"
  unfolding saveConfiguration_def NSDictionaryFromConfiguration_def set_all.simps
    storable_values[OF assms] and_then_simps saveObject_ok storedConfiguration_def contentsOfFileWithName_def
  by (simp add: configurationFromNSDictionary_def storable_reads[OF assms] Configuration_new_def
      del: stdStringFromObject.simps)

text \<open>
  Property C17. Saving a configuration and loading it again, whatever the memory the new structure
  starts from, gives the same configuration back, for configurations whose strings are UTF-8
  without a zero byte and whose numbers fit their C types.
\<close>

theorem configuration_round_trip:
  assumes "storable utf8 c"
  shows "\<exists>d'. saveConfiguration io_ok utf8 c d = Inr d' \<and> storedConfiguration mem d' = Inr c"
  using saved_configuration[OF assms] by blast

definition sample_configuration :: configuration where
  "sample_configuration = (Configuration_new
     \<lparr>abTesMode = True, abTestingRatio = 0, SDKDomain = [], quicUDPPort = 0, failuresMonitoringInterval = 0,
      failuresFailoverThreshold = 0, sdkReleaseVersion = 1, configurationApiURL = [], refreshInterval = 60,
      staleTimeout = 120, edgeHost = [], operationMode = 0, allowedProtocols = [], initialTransportProtocol = [],
      transportMonitoringURL = [], statsReportingURL = [], statsReportingInterval = 60, statsReportingLevel = 1,
      statsReportingMaxRequests = 100, domainsProvisionedList = [], domainsWhiteList = [], domainsBlackList = [],
      domainsInternalBlackList = [], appName = [], os = [], loggingLevel = []\<rparr>)
     \<lparr>edgeHost := ''edge.example'', allowedProtocols := [''standard'', ''quic''],
      initialTransportProtocol := ''standard'', operationMode := kRSOperationModeInnerTransportAndReport\<rparr>"

lemma sample_storable: "storable (\<lambda>s. True) sample_configuration"
  by (simp add: storable_def sample_configuration_def Configuration_new_def plain_def in_int_def
      minInt_def maxInt_def mode_defs fl32_1)

theorem configuration_round_trip_witness:
  "\<exists>d'. saveConfiguration io_ok (\<lambda>s. True) sample_configuration \<lparr>files = Map.empty, defaults = Map.empty\<rparr> = Inr d'
      \<and> storedConfiguration sample_configuration d' = Inr sample_configuration"
  by (rule configuration_round_trip[OF sample_storable])

text \<open>
  Without a stored configuration (the first launch) the loader does not keep the
  defaults the constructor sets: the failover threshold, the monitoring interval, the QUIC
  port and the A/B ratio are zero, and the SDK domain and all other strings are empty.
\<close>

theorem first_launch_overwrites_defaults:
  "files d kRSConfigurationStorageKey = None \<longrightarrow>
   (\<exists>c. storedConfiguration mem d = Inr c
      \<and> failuresFailoverThreshold c = 0 \<and> failuresFailoverThreshold (Configuration_new mem) = fl64 (3 / 5)
      \<and> failuresMonitoringInterval c = 0 \<and> quicUDPPort c = 0 \<and> quicUDPPort (Configuration_new mem) = 443
      \<and> abTestingRatio c = 0 \<and> SDKDomain c = [] \<and> SDKDomain (Configuration_new mem) = ''revsdk.net''
      \<and> operationMode c = kRSOperationModeInnerOff \<and> staleTimeout c = 0 \<and> refreshInterval c = 0
      \<and> allowedProtocols c = [])"
  by (simp add: storedConfiguration_def contentsOfFileWithName_def configurationFromNSDictionary_def
      Configuration_new_def intValue_def floatValue_def boolValue_def mode_defs)

theorem first_launch_overwrites_defaults_witness:
  "\<exists>c. storedConfiguration sample_configuration \<lparr>files = Map.empty, defaults = Map.empty\<rparr> = Inr c
      \<and> failuresFailoverThreshold c = 0 \<and> quicUDPPort c = 0 \<and> SDKDomain c = []"
  using first_launch_overwrites_defaults[of "\<lparr>files = Map.empty, defaults = Map.empty\<rparr>" sample_configuration]
  by auto

subsection \<open>The list of available protocols\<close>

definition saveAvailableProtocols ::
  "io_outcome \<Rightarrow> (string \<Rightarrow> bool) \<Rightarrow> string list \<Rightarrow> disk \<Rightarrow> fault + disk" where
  "saveAvailableProtocols io utf8 vec d =
     and_then (NSArrayFromVector utf8 vec) (\<lambda>xs.
       Inr (saveObject io (PArray xs) kRSLastMileDataStorageKey d))"

definition restoreAvailableProtocols :: "disk \<Rightarrow> fault + string list" where
  "restoreAvailableProtocols d = vectorFromNSArray (contentsOfFileWithName kRSLastMileDataStorageKey d)"

lemma available_protocols_round_trip:
  assumes "\<And>s. s \<in> set vec \<Longrightarrow> plain utf8 s"
  shows "and_then (saveAvailableProtocols io_ok utf8 vec d) restoreAvailableProtocols = Inr vec"
  using assms by (simp add: saveAvailableProtocols_def restoreAvailableProtocols_def
      contentsOfFileWithName_def vector_plain[of _ utf8] NSArray_plain[of _ utf8])

subsection \<open>The file of request records\<close>

text \<open>
  A record is the bytes of a \<open>Data\<close>; \<open>NSDataFromData\<close> of an empty one is \<open>nil\<close>, which
  \<open>addObject:\<close> refuses.
\<close>

definition NSDataFromData :: "string \<Rightarrow> string option" where
  "NSDataFromData data = (if data = [] then None else Some data)"

fun addObjects :: "string list \<Rightarrow> plist list \<Rightarrow> fault + plist list" where
  "addObjects [] xs = Inr xs"
| "addObjects (d # ds) xs =
     (case NSDataFromData d of None \<Rightarrow> ns_exception | Some b \<Rightarrow> addObjects ds (xs @ [PData b]))"

fun savedArray :: "plist option \<Rightarrow> fault + plist list" where
  "savedArray None = Inr []"
| "savedArray (Some (PArray xs)) = Inr xs"
| "savedArray (Some v) = ns_exception"

definition saveRequestDataVec :: "io_outcome \<Rightarrow> string list \<Rightarrow> disk \<Rightarrow> fault + disk" where
  "saveRequestDataVec io vec d =
     and_then (savedArray (contentsOfFileWithName kRSRequestDataStorageKey d)) (\<lambda>xs.
     and_then (addObjects vec xs) (\<lambda>ys.
       Inr (saveObject io (PArray ys) kRSRequestDataStorageKey d)))"

definition saveRequestData :: "io_outcome \<Rightarrow> string \<Rightarrow> disk \<Rightarrow> fault + disk" where
  "saveRequestData io data d =
     and_then (savedArray (contentsOfFileWithName kRSRequestDataStorageKey d)) (\<lambda>xs.
       case NSDataFromData data of None \<Rightarrow> ns_exception
       | Some b \<Rightarrow> Inr (saveObject io (PArray (xs @ [PData b])) kRSRequestDataStorageKey d))"

fun dataNSArrayToStdVector :: "plist list \<Rightarrow> fault + string list" where
  "dataNSArrayToStdVector [] = Inr []"
| "dataNSArrayToStdVector (PData b # xs) = and_then (dataNSArrayToStdVector xs) (\<lambda>ds. Inr (b # ds))"
| "dataNSArrayToStdVector (v # xs) = Inl AssertFailed"

definition loadRequestsData :: "disk \<Rightarrow> fault + string list" where
  "loadRequestsData d =
     (case contentsOfFileWithName kRSRequestDataStorageKey d of None \<Rightarrow> Inr []
      | Some v \<Rightarrow> and_then (savedArray (Some v)) dataNSArrayToStdVector)"

definition deleteRequestsFile :: "io_outcome \<Rightarrow> disk \<Rightarrow> disk" where
  "deleteRequestsFile io d = deleteFile io kRSRequestDataStorageKey d"

lemma addObjects_nonempty:
  "[] \<notin> set ds \<Longrightarrow> addObjects ds xs = Inr (xs @ map PData ds)"
  by (induction ds arbitrary: xs) (auto simp: NSDataFromData_def)

lemma dataNSArray_map [simp]: "dataNSArrayToStdVector (map PData ds) = Inr ds"
  by (induction ds) auto

lemma dataNSArray_Inr: "dataNSArrayToStdVector xs = Inr ds \<Longrightarrow> xs = map PData ds"
  by (induction xs arbitrary: ds rule: dataNSArrayToStdVector.induct) (auto simp: and_then_eq_Inr)

lemma savedArray_loaded:
  assumes "loadRequestsData d = Inr ds"
  shows "savedArray (contentsOfFileWithName kRSRequestDataStorageKey d) = Inr (map PData ds)"
  using assms
  by (auto simp: loadRequestsData_def and_then_eq_Inr dest: dataNSArray_Inr split: option.splits)

end
