(* ===== verification/FailureMonitor.thy ===== *)
theory FailureMonitor
  imports IeeeRound
begin

text \<open>
  The failure monitor (\<open>Protocol/ProtocolFailureMonitor.{h,cpp}\<close>): per protocol it keeps the
  reported errors and the started connections with their times; every reported failure is
  validated against the connections of the same window, and the subscribers of
  \<open>cbOnProtocolFailed\<close> are told when the share of failures is above the configured threshold.

  Time is \<open>std::chrono::system_clock\<close>: a reading is a count of microseconds, and the argument
  \<open>clk\<close> of an operation gives the successive readings it takes. \<open>interval\<close> and
  \<open>threshold\<close> are what \<open>Model::instance()\<close> returns for \<open>failuresMonitoringInterval\<close> and
  \<open>failuresFailoverThreshold\<close> during the call. The callbacks are values; what a call reports
  is the list of the callbacks invoked with the protocol they are given.
\<close>

record error_report =
  rep_code :: int
  rep_date :: int

record 'cb monitor =
  mReportMap :: "string \<rightharpoonup> error_report list"
  mLoggedConnections :: "string \<rightharpoonup> int list"
  cbOnProtocolFailed :: "(nat \<times> 'cb) list"

definition standardProtocolName :: string where "standardProtocolName = ''standard''"
definition quicProtocolName :: string where "quicProtocolName = ''quic''"
definition kSubscriberKey_Selector :: nat where "kSubscriberKey_Selector = 0"

text \<open>\<open>std::map::operator[]\<close> on a missing key yields an empty vector.\<close>

definition at_key :: "('k \<rightharpoonup> 'v list) \<Rightarrow> 'k \<Rightarrow> 'v list" where
  "at_key m k = (case m k of None \<Rightarrow> [] | Some v \<Rightarrow> v)"

lemma at_key_upd [simp]: "at_key (m(k \<mapsto> v)) j = (if j = k then v else at_key m j)"
  by (simp add: at_key_def)

definition initialize_monitor :: "'cb monitor" where
  "initialize_monitor =
     \<lparr>mReportMap = [standardProtocolName \<mapsto> [], quicProtocolName \<mapsto> []],
      mLoggedConnections = Map.empty,
      cbOnProtocolFailed = []\<rparr>"

text \<open>\<open>duration_cast<seconds>\<close> of a difference of readings truncates towards zero.\<close>

definition secs_of :: "int \<Rightarrow> int" where
  "secs_of d = (if 0 \<le> d then d div 1000000 else - ((- d) div 1000000))"

text \<open>
  The two pruning loops of \<open>validate\<close>. Each iteration that sees an element older than the
  interval erases it and takes a new reading for the next one. On an empty vector the loop
  dereferences or erases \<open>end()\<close>, whether the vector was empty at the start or became so:
  \<open>timePassed\<close> is not recomputed at the end, so the guard stays true.
\<close>

fun prune :: "(nat \<Rightarrow> int) \<Rightarrow> nat \<Rightarrow> int \<Rightarrow> ('a \<Rightarrow> int) \<Rightarrow> 'a list \<Rightarrow> fault + ('a list \<times> nat)" where
  "prune clk i interval date [] = Inl UndefinedBehaviour"
| "prune clk i interval date (x # xs) =
     (if interval < secs_of (clk i - date x) then prune clk (Suc i) interval date xs
      else Inr (x # xs, Suc i))"

definition fail_percent :: "nat \<Rightarrow> nat \<Rightarrow> rat" where
  "fail_percent failures requests =
     fl32 (fl32 (of_nat failures) / fl32 (of_nat requests))"

definition validate ::
  "(nat \<Rightarrow> int) \<Rightarrow> nat \<Rightarrow> int \<Rightarrow> rat \<Rightarrow> string \<Rightarrow> error_report \<Rightarrow> 'cb monitor
    \<Rightarrow> fault + ('cb monitor \<times> ('cb \<times> string) list)" where
  "validate clk i interval threshold proto report m =
     (let m' = m\<lparr>mReportMap := (mReportMap m)(proto \<mapsto> at_key (mReportMap m) proto @ [report])\<rparr>;
          vec = at_key (mReportMap m') proto;
          rqVec = at_key (mLoggedConnections m') proto
      in and_then (prune clk i interval (\<lambda>t. t) rqVec) (\<lambda>(rqVec', j).
         and_then (prune clk j interval rep_date vec) (\<lambda>(vec', _).
           if length rqVec' < length vec' then Inr (m', [])
           else if threshold < fail_percent (length vec') (length rqVec')
           then Inr (m', map (\<lambda>(_, cb). (cb, proto)) (cbOnProtocolFailed m'))
           else Inr (m', []))))"

definition logFailure ::
  "(nat \<Rightarrow> int) \<Rightarrow> int \<Rightarrow> rat \<Rightarrow> string \<Rightarrow> int \<Rightarrow> 'cb monitor
    \<Rightarrow> fault + ('cb monitor \<times> ('cb \<times> string) list)" where
  "logFailure clk interval threshold proto code m =
     validate clk 1 interval threshold proto \<lparr>rep_code = code, rep_date = clk 0\<rparr> m"

definition logConnection :: "int \<Rightarrow> string \<Rightarrow> 'cb monitor \<Rightarrow> 'cb monitor" where
  "logConnection now proto m =
     m\<lparr>mLoggedConnections :=
        (mLoggedConnections m)(proto \<mapsto> at_key (mLoggedConnections m) proto @ [now])\<rparr>"

definition clear_monitor :: "'cb monitor \<Rightarrow> 'cb monitor" where
  "clear_monitor m =
     m\<lparr>mReportMap := (mReportMap m)(standardProtocolName \<mapsto> [], quicProtocolName \<mapsto> [])\<rparr>"

text \<open>Subscribers are kept in the order of their keys, as \<open>std::map\<close> iterates them.\<close>

fun put_key :: "nat \<Rightarrow> 'cb \<Rightarrow> (nat \<times> 'cb) list \<Rightarrow> (nat \<times> 'cb) list" where
  "put_key k f [] = [(k, f)]"
| "put_key k f ((j, g) # xs) =
     (if k < j then (k, f) # (j, g) # xs
      else if k = j then (k, f) # xs
      else (j, g) # put_key k f xs)"

definition subscribeOnProtocolFailed :: "nat \<Rightarrow> 'cb \<Rightarrow> 'cb monitor \<Rightarrow> 'cb monitor" where
  "subscribeOnProtocolFailed k f m =
     m\<lparr>cbOnProtocolFailed := put_key k f (cbOnProtocolFailed m)\<rparr>"

definition unsubscribe :: "nat \<Rightarrow> 'cb monitor \<Rightarrow> 'cb monitor" where
  "unsubscribe k m =
     m\<lparr>cbOnProtocolFailed := filter (\<lambda>(j, _). j \<noteq> k) (cbOnProtocolFailed m)\<rparr>"

lemmas monitor_ops [step_defs] =
  logConnection_def clear_monitor_def subscribeOnProtocolFailed_def unsubscribe_def

subsection \<open>Reference specification: counting the window\<close>

definition in_window :: "int \<Rightarrow> int \<Rightarrow> int \<Rightarrow> bool" where
  "in_window now interval t \<longleftrightarrow> secs_of (now - t) \<le> interval"

definition window_count :: "int \<Rightarrow> int \<Rightarrow> int list \<Rightarrow> nat" where
  "window_count now interval ts = length (filter (in_window now interval) ts)"

definition requests_in_window :: "int \<Rightarrow> int \<Rightarrow> string \<Rightarrow> 'cb monitor \<Rightarrow> nat" where
  "requests_in_window now interval proto m =
     window_count now interval (at_key (mLoggedConnections m) proto)"

definition failures_in_window :: "int \<Rightarrow> int \<Rightarrow> string \<Rightarrow> 'cb monitor \<Rightarrow> nat" where
  "failures_in_window now interval proto m =
     window_count now interval (map rep_date (at_key (mReportMap m) proto))"

definition add_report :: "string \<Rightarrow> error_report \<Rightarrow> 'cb monitor \<Rightarrow> 'cb monitor" where
  "add_report proto report m =
     m\<lparr>mReportMap := (mReportMap m)(proto \<mapsto> at_key (mReportMap m) proto @ [report])\<rparr>"

definition failover_due :: "rat \<Rightarrow> nat \<Rightarrow> nat \<Rightarrow> bool" where
  "failover_due threshold failures requests \<longleftrightarrow>
     failures \<le> requests \<and> threshold < fail_percent failures requests"

definition monitor_inv :: "int \<Rightarrow> 'cb monitor \<Rightarrow> bool" where
  "monitor_inv now m \<longleftrightarrow>
     (\<forall>p. sorted (at_key (mLoggedConnections m) p) \<and> (\<forall>t \<in> set (at_key (mLoggedConnections m) p). t \<le> now))
   \<and> (\<forall>p. sorted (map rep_date (at_key (mReportMap m) p))
        \<and> (\<forall>r \<in> set (at_key (mReportMap m) p). rep_date r \<le> now))"

lemma secs_of_mono:
  assumes "d \<le> d'" shows "secs_of d \<le> secs_of d'"
proof (cases "0 \<le> d" "0 \<le> d'" rule: bool.exhaust[case_product bool.exhaust])
  case True_True
  then show ?thesis using assms by (simp add: secs_of_def zdiv_mono1)
next
  case True_False
  then show ?thesis using assms by simp
next
  case False_True
  then have "0 \<le> d' div 1000000" "0 \<le> - d div 1000000"
    by (simp_all only: pos_imp_zdiv_nonneg_iff zero_less_numeral) auto
  then show ?thesis using False_True by (simp add: secs_of_def)
next
  case False_False
  then show ?thesis using assms by (simp add: secs_of_def zdiv_mono1)
qed

lemma secs_of_0 [simp]: "secs_of 0 = 0"
  by (simp add: secs_of_def)

lemma old_monotone:
  "x \<le> y \<Longrightarrow> \<not> in_window now interval y \<Longrightarrow> \<not> in_window now interval x"
  using secs_of_mono[of "now - y" "now - x"] by (simp add: in_window_def)

lemma prune_Cons_window:
  "prune clk i interval date (x # xs) =
     (if in_window (clk i) interval (date x) then Inr (x # xs, Suc i)
      else prune clk (Suc i) interval date xs)"
  by (simp add: in_window_def not_less)

lemma prune_frozen:
  "\<exists>j. prune (\<lambda>_. now) i interval date xs =
     (case dropWhile (\<lambda>x. \<not> in_window now interval (date x)) xs of
        [] \<Rightarrow> Inl UndefinedBehaviour | y # ys \<Rightarrow> Inr (y # ys, j))"
proof (induction xs arbitrary: i)
  case (Cons x xs)
  then show ?case by (simp add: prune_Cons_window del: prune.simps)
qed simp

lemma prune_window:
  assumes "sorted (map date xs)"
  obtains j where
    "prune (\<lambda>_. now) i interval date xs =
       (if filter (\<lambda>x. in_window now interval (date x)) xs = [] then Inl UndefinedBehaviour
        else Inr (filter (\<lambda>x. in_window now interval (date x)) xs, j))"
proof -
  have eq: "dropWhile (\<lambda>x. \<not> in_window now interval (date x)) xs =
      filter (\<lambda>x. in_window now interval (date x)) xs"
    using dropWhile_sorted_filter[where P = "\<lambda>x. \<not> in_window now interval (date x)", OF assms]
      old_monotone[of _ _ now interval] by simp
  from prune_frozen[of now i interval date xs] obtain j where
    "prune (\<lambda>_. now) i interval date xs =
      (case filter (\<lambda>x. in_window now interval (date x)) xs of
        [] \<Rightarrow> Inl UndefinedBehaviour | y # ys \<Rightarrow> Inr (y # ys, j))"
    unfolding eq ..
  then show thesis using that[of j] by (simp split: list.splits)
qed

lemma window_count_map:
  "window_count now interval (map date xs) = length (filter (\<lambda>x. in_window now interval (date x)) xs)"
  by (simp add: window_count_def filter_map o_def)

lemma validate_window:
  assumes inv: "monitor_inv now m" and i0: "0 \<le> interval" and d: "rep_date r = now"
  shows "validate (\<lambda>_. now) i interval threshold proto r m =
     (if requests_in_window now interval proto m = 0 then Inl UndefinedBehaviour
      else Inr (add_report proto r m,
        if failover_due threshold (Suc (failures_in_window now interval proto m))
             (requests_in_window now interval proto m)
        then map (\<lambda>(_, cb). (cb, proto)) (cbOnProtocolFailed m) else []))"
proof -
  let ?rq = "at_key (mLoggedConnections m) proto"
  let ?vec = "at_key (mReportMap m) proto @ [r]"
  have srq: "sorted (map (\<lambda>t. t) ?rq)" using inv by (simp add: monitor_inv_def)
  have svec: "sorted (map rep_date ?vec)"
    using inv d by (auto simp: monitor_inv_def sorted_append)
  obtain j where rq: "prune (\<lambda>_. now) i interval (\<lambda>t. t) ?rq =
      (if filter (in_window now interval) ?rq = [] then Inl UndefinedBehaviour
       else Inr (filter (in_window now interval) ?rq, j))"
    by (rule prune_window[OF srq])
  have fresh: "in_window now interval (rep_date r)" using i0 d by (simp add: in_window_def)
  define vs where "vs = filter (\<lambda>x. in_window now interval (rep_date x)) ?vec"
  obtain j' where vec: "prune (\<lambda>_. now) j interval rep_date ?vec = Inr (vs, j')"
    using prune_window[OF svec, of now j interval] fresh by (auto simp: vs_def)
  define k where "k = Suc (failures_in_window now interval proto m)"
  define n where "n = requests_in_window now interval proto m"
  have lens: "length vs = k"
    "length (filter (in_window now interval) ?rq) = n"
    "filter (in_window now interval) ?rq = [] \<longleftrightarrow> n = 0"
    by (simp_all add: vs_def k_def n_def fresh failures_in_window_def requests_in_window_def
        window_count_def filter_map comp_def)
  have "at_key (mReportMap (add_report proto r m)) proto = ?vec"
    "at_key (mLoggedConnections (add_report proto r m)) proto = ?rq"
    "cbOnProtocolFailed (add_report proto r m) = cbOnProtocolFailed m"
    by (simp_all add: add_report_def)
  then show ?thesis
    unfolding validate_def Let_def add_report_def[symmetric] k_def[symmetric] n_def[symmetric]
    by (auto simp: rq vec lens failover_due_def)
qed

subsection \<open>Reachable monitors\<close>

text \<open>The operations the SDK performs on the monitor, with a clock that never runs backwards.\<close>

inductive monitor_reach :: "int \<Rightarrow> 'cb monitor \<Rightarrow> bool" where
  init: "monitor_reach t initialize_monitor"
| wait: "monitor_reach t m \<Longrightarrow> t \<le> t' \<Longrightarrow> monitor_reach t' m"
| connection: "monitor_reach t m \<Longrightarrow> monitor_reach t (logConnection t p m)"
| failure: "monitor_reach t m \<Longrightarrow> t \<le> clk 0 \<Longrightarrow> clk 0 \<le> t' \<Longrightarrow>
     logFailure clk interval threshold p code m = Inr (m', calls) \<Longrightarrow> monitor_reach t' m'"
| clear: "monitor_reach t m \<Longrightarrow> monitor_reach t (clear_monitor m)"
| subscribe: "monitor_reach t m \<Longrightarrow> monitor_reach t (subscribeOnProtocolFailed k f m)"
| unsubscribe: "monitor_reach t m \<Longrightarrow> monitor_reach t (unsubscribe k m)"

lemma logFailure_state:
  "logFailure clk interval threshold p code m = Inr (m', calls) \<Longrightarrow>
   m' = add_report p \<lparr>rep_code = code, rep_date = clk 0\<rparr> m"
  by (auto simp: logFailure_def validate_def Let_def and_then_eq_Inr add_report_def
      split: if_splits prod.splits)

lemma monitor_inv_mono [inv_intros]: "monitor_inv t m \<Longrightarrow> t \<le> t' \<Longrightarrow> monitor_inv t' m"
  unfolding monitor_inv_def by (meson order_trans)

lemma monitor_inv_init [inv_intros]: "monitor_inv t initialize_monitor"
  by (auto simp: monitor_inv_def initialize_monitor_def at_key_def)

lemma monitor_inv_connection [inv_intros]:
  "monitor_inv t m \<Longrightarrow> monitor_inv t (logConnection t p m)"
  by (auto simp: monitor_inv_def logConnection_def sorted_append)

lemma monitor_inv_report [inv_intros]:
  "monitor_inv t m \<Longrightarrow> t \<le> rep_date r \<Longrightarrow> monitor_inv (rep_date r) (add_report p r m)"
  by (force simp: monitor_inv_def add_report_def sorted_append)

lemma monitor_inv_frames [inv_intros]:
  "monitor_inv t m \<Longrightarrow> monitor_inv t (clear_monitor m)"
  "monitor_inv t m \<Longrightarrow> monitor_inv t (subscribeOnProtocolFailed k f m)"
  "monitor_inv t m \<Longrightarrow> monitor_inv t (unsubscribe k m)"
  by (auto simp: monitor_inv_def monitor_ops)

lemma monitor_reach_inv: "monitor_reach t m \<Longrightarrow> monitor_inv t m"
proof (induction rule: monitor_reach.induct)
  case (failure t m clk t' interval threshold p code m' calls)
  have "monitor_inv (clk 0) (add_report p \<lparr>rep_code = code, rep_date = clk 0\<rparr> m)"
    using monitor_inv_report[OF failure.IH, of "\<lparr>rep_code = code, rep_date = clk 0\<rparr>"] failure.hyps
    by simp
  then show ?case
    using logFailure_state[OF failure.hyps(4)] failure.hyps(3) by (blast intro: inv_intros)
qed (blast intro: inv_intros)+

subsection \<open>Properties\<close>

lemma fail_percent_small:
  assumes "failures < 16777216" and "requests < 16777216"
  shows "fail_percent failures requests = fl32 (of_nat failures / of_nat requests)"
  using assms by (simp add: fail_percent_def fl32_of_nat)

lemma first_failure_faults:
  "at_key (mLoggedConnections m) p = [] \<Longrightarrow>
   logFailure clk interval threshold p code m = Inl UndefinedBehaviour"
  by (simp add: logFailure_def validate_def Let_def)

text \<open>
  Property C1. The pruning loops and the float arithmetic of \<open>logFailure\<close> implement the
  counting specification on every reachable monitor: with a request of the protocol inside
  the monitoring window the report is stored and exactly the subscribers are called, each with
  the failing protocol, when the failures of the window (the new one included) are at most the
  requests of the window and their share is above the threshold. With no request in the window
  the loop runs past the end of the vector.
\<close>

theorem logFailure_decision:
  assumes "monitor_reach now m" and "0 \<le> interval"
  shows "logFailure (\<lambda>_. now) interval threshold p code m =
     (let failures = Suc (failures_in_window now interval p m);
          requests = requests_in_window now interval p m
      in if requests = 0 then Inl UndefinedBehaviour
         else Inr (add_report p \<lparr>rep_code = code, rep_date = now\<rparr> m,
           if failover_due threshold failures requests
           then map (\<lambda>(_, cb). (cb, p)) (cbOnProtocolFailed m) else []))"
  using validate_window[OF monitor_reach_inv[OF assms(1)] assms(2)]
  by (simp add: logFailure_def Let_def)

definition monitor_example :: "string monitor" where
  "monitor_example =
     subscribeOnProtocolFailed kSubscriberKey_Selector ''selector''
       (logConnection 1000000 quicProtocolName initialize_monitor)"

lemma monitor_example_reach: "monitor_reach 2000000 monitor_example"
  unfolding monitor_example_def
  by (intro monitor_reach.subscribe) (rule monitor_reach.wait[OF monitor_reach.connection[OF monitor_reach.init]], simp)

lemma monitor_example_counts:
  "requests_in_window 2000000 120 quicProtocolName monitor_example = 1"
  "failures_in_window 2000000 120 quicProtocolName monitor_example = 0"
  "cbOnProtocolFailed monitor_example = [(0, ''selector'')]"
  by (simp_all add: monitor_example_def requests_in_window_def failures_in_window_def
      window_count_def in_window_def secs_of_def monitor_ops initialize_monitor_def at_key_def
      quicProtocolName_def standardProtocolName_def kSubscriberKey_Selector_def)

theorem logFailure_decision_witness:
  "\<exists>m'. logFailure (\<lambda>_. 2000000) 120 (fl64 (3 / 5)) quicProtocolName (- 1) monitor_example
     = Inr (m', [(''selector'', quicProtocolName)])"
  using logFailure_decision[OF monitor_example_reach, of 120 "fl64 (3 / 5)" quicProtocolName "- 1"]
  by (simp add: monitor_example_counts Let_def failover_due_def fail_percent_def fl64_three_fifths)

text \<open>
  Property C32. With a percentage \<open>c\<close> from the configuration (stored as \<open>c / 100.0f\<close>) and at
  most 65536 requests in the window, the float comparison decides exactly whether
  \<open>failures / requests\<close> exceeds \<open>c / 100\<close>: the rounded test equals the integer test.
\<close>

theorem failover_due_exact:
  assumes "0 < requests" and "requests \<le> 65536" and "c \<le> 100"
  shows "failover_due (fl32 (of_nat c / 100)) failures requests \<longleftrightarrow>
     failures \<le> requests \<and> c * requests < 100 * failures"
proof (cases "failures \<le> requests")
  case True
  then show ?thesis
    using assms fl32_ratio_above_percent[OF True assms]
    by (simp add: failover_due_def fail_percent_small)
qed (simp add: failover_due_def)

theorem failover_due_exact_witness:
  "failover_due (fl32 (60 / 100)) 4 6 \<and> \<not> failover_due (fl32 (60 / 100)) 3 5"
  using failover_due_exact[of 6 60 4] failover_due_exact[of 5 60 3] by simp

text \<open>
  The built-in default threshold is not the configured 60 percent: the default is
  the \<open>double\<close> \<open>0.6\<close>, below three fifths, while the ratio is computed as \<open>float\<close>, above
  it. Three failures out of five requests switch the protocol under the default and do not
  under a configured threshold of 60.
\<close>

theorem default_threshold_differs:
  "failover_due (fl64 (3 / 5)) 3 5 \<and> \<not> failover_due (fl32 (60 / 100)) 3 5"
  using fail_percent_small[of 3 5]
  by (simp add: failover_due_def fl64_three_fifths fl32_three_fifths)

text \<open>
  \<open>clear\<close>, called on every change of network, forgets the failures of both
  protocols but keeps the connections: the first failure after it is weighed against all the
  requests of the window, those before the change included.
\<close>

theorem clear_keeps_requests:
  assumes "monitor_reach now m" and "0 \<le> interval"
    and "p = standardProtocolName \<or> p = quicProtocolName"
    and "0 < requests_in_window now interval p m"
  shows "logFailure (\<lambda>_. now) interval threshold p code (clear_monitor m) =
     Inr (add_report p \<lparr>rep_code = code, rep_date = now\<rparr> (clear_monitor m),
       if threshold < fail_percent 1 (requests_in_window now interval p m)
       then map (\<lambda>(_, cb). (cb, p)) (cbOnProtocolFailed m) else [])"
proof -
  have "failures_in_window now interval p (clear_monitor m) = 0"
    "requests_in_window now interval p (clear_monitor m) = requests_in_window now interval p m"
    "cbOnProtocolFailed (clear_monitor m) = cbOnProtocolFailed m"
    using assms(3)
    by (auto simp: failures_in_window_def requests_in_window_def window_count_def clear_monitor_def)
  then show ?thesis
    using validate_window[OF monitor_inv_frames(1)[OF monitor_reach_inv[OF assms(1)]] assms(2),
        of "\<lparr>rep_code = code, rep_date = now\<rparr>" 1 threshold p] assms(4)
    by (simp add: logFailure_def failover_due_def Suc_le_eq)
qed

theorem clear_keeps_requests_witness:
  "logFailure (\<lambda>_. 2000000) 120 (fl64 (3 / 5)) quicProtocolName 7 (clear_monitor monitor_example)
     = Inr (add_report quicProtocolName \<lparr>rep_code = 7, rep_date = 2000000\<rparr> (clear_monitor monitor_example),
         [(''selector'', quicProtocolName)])"
  using clear_keeps_requests[OF monitor_example_reach, of 120 quicProtocolName "fl64 (3 / 5)" 7]
  by (simp add: monitor_example_counts fail_percent_def fl64_three_fifths)

end
