(* ===== verification/ConfigService.thy ===== *)
theory ConfigService
  imports ConfigValidation DataStorage FailureMonitor
begin

text \<open>
  The configuration services: the interface \<open>IConfigurationService\<close>, its implementation
  \<open>ConfigurationService\<close> (\<open>Model/ConfigurationService.{h,cpp}\<close>) and the mock
  \<open>TestConfigurationService\<close> (\<open>Debug/TestConfigurationService.{h,cpp}\<close>).

  The clock is \<open>std::chrono::system_clock\<close> in microseconds. An \<open>environment\<close> holds what an
  operation reads of the outside while it runs: the time and the external stale condition
  (\<open>cbAdditionalStaleCondition\<close>, which the model binds to "no protocol is selected"). Calls to
  the delegate, to the network and to the timer are effects, in the order of the code.
\<close>

record environment =
  now :: int
  externalStale :: bool

datatype service_effect =
    StaleCallback
  | ApplyConfiguration configuration
  | ScheduleStatsReporting
  | TrackConfigurationPulled
  | TrackLoadError
  | RequestConfiguration string
  | ReconnectQUIC
  | PostLoaded int

subsection \<open>The interface\<close>

text \<open>
  A service answers the active configuration and may change its state and cause effects while it
  does. Its contract: asked again in the same environment it answers the same, without further
  effects, and asking does not change whether it is stale.
\<close>

type_synonym 's get_active = "environment \<Rightarrow> 's \<Rightarrow> configuration \<times> 's \<times> service_effect list"

locale configuration_service =
  fixes get :: "'s get_active" and stale :: "environment \<Rightarrow> 's \<Rightarrow> bool"
  assumes get_again: "get e s = (c, s1, fx) \<Longrightarrow> get e s1 = (c, s1, [])"
    and stale_get: "get e s = (c, s1, fx) \<Longrightarrow> stale e s1 = stale e s"
begin

lemma get_get: "get e (fst (snd (get e s))) = (fst (get e s), fst (snd (get e s)), [])"
  by (metis get_again prod.collapse)

text \<open>Reading the active configuration twice, as the model's decisions do, is reading it once.\<close>

lemma two_reads:
  "(let (c1, s1, fx1) = get e s; (c2, s2, fx2) = get e s1 in f c1 c2 s2 (fx1 @ fx2)) =
   (let (c, s1, fx) = get e s in f c c s1 fx)"
  by (cases "get e s") (simp add: get_again)

lemma stale_again: "stale e (fst (snd (get e s))) = stale e s"
  by (metis stale_get prod.collapse)

end

subsection \<open>The service\<close>

record config_service =
  mStaleOnFlag :: bool
  mActiveConfiguration :: configuration
  mStaleConfiguration :: configuration
  mLastUpdated :: int
  mConfigurationRefreshTimer :: "int option" \<comment> \<open>the interval of the scheduled timer\<close>
  service_disk :: disk

definition kTimestampKey :: string where "kTimestampKey = ''kRS_timestamp''"

definition isTimedOut :: "environment \<Rightarrow> config_service \<Rightarrow> bool" where
  "isTimedOut e s \<longleftrightarrow> staleTimeout (mActiveConfiguration s) < secs_of (now e - mLastUpdated s)"

definition isStale :: "environment \<Rightarrow> config_service \<Rightarrow> bool" where
  "isStale e s \<longleftrightarrow> isTimedOut e s \<or> externalStale e"

text \<open>\<open>Timer::scheduleTimer\<close> replaces the timer for a positive interval and leaves it otherwise.\<close>

definition scheduleTimer :: "int option \<Rightarrow> int \<Rightarrow> int option" where
  "scheduleTimer timer interval = (if 0 < interval then Some interval else timer)"

definition disableTimer :: "int option \<Rightarrow> int option" where
  "disableTimer timer = None"

definition ConfigurationService_new ::
  "configuration \<Rightarrow> environment \<Rightarrow> disk \<Rightarrow> fault + (config_service \<times> service_effect list)" where
  "ConfigurationService_new mem e d =
     and_then (storedConfiguration mem d) (\<lambda>conf.
       let s = \<lparr>mStaleOnFlag = False, mActiveConfiguration = Configuration_copy mem conf,
                mStaleConfiguration = (Configuration_new mem)\<lparr>operationMode := kRSOperationModeInnerOff\<rparr>,
                mLastUpdated = getIntForKey kTimestampKey d,
                mConfigurationRefreshTimer = scheduleTimer None (refreshInterval conf),
                service_disk = d\<rparr>
       in Inr (s, if \<not> isTimedOut e s then [ApplyConfiguration (mActiveConfiguration s)] else []))"

definition getActive :: "config_service get_active" where
  "getActive e s =
     (if isStale e s
      then (mStaleConfiguration s, s\<lparr>mStaleOnFlag := True\<rparr>,
            if \<not> mStaleOnFlag s then [StaleCallback] else [])
      else (mActiveConfiguration s, s, []))"

interpretation real_service: configuration_service getActive isStale
  by unfold_locales (auto simp: getActive_def isStale_def isTimedOut_def split: if_splits)

definition setOperationMode :: "environment \<Rightarrow> nat \<Rightarrow> config_service \<Rightarrow> config_service" where
  "setOperationMode e mode s =
     (if \<not> isStale e s
      then s\<lparr>mActiveConfiguration := (mActiveConfiguration s)\<lparr>operationMode := mode\<rparr>\<rparr> else s)"

definition stopUpdate :: "io_outcome \<Rightarrow> (string \<Rightarrow> bool) \<Rightarrow> config_service \<Rightarrow> fault + config_service" where
  "stopUpdate io utf8 s =
     and_then (saveConfiguration io utf8 (mActiveConfiguration s) (service_disk s)) (\<lambda>d.
       Inr (s\<lparr>service_disk := d\<rparr>))"

definition resumeUpdate ::
  "configuration \<Rightarrow> environment \<Rightarrow> config_service \<Rightarrow> fault + (config_service \<times> service_effect list)" where
  "resumeUpdate mem e s =
     and_then (storedConfiguration mem (service_disk s)) (\<lambda>conf.
       let (c, s1, fx) = getActive e (s\<lparr>mActiveConfiguration := Configuration_copy mem conf\<rparr>)
       in Inr (s1, fx @ [ApplyConfiguration c, ScheduleStatsReporting]))"

text \<open>\<open>default_url\<close> is \<open>loadConfigurationURL(SDKKey)\<close>; the URL parser of \<open>isValidURL\<close> is \<open>url_ok\<close>.\<close>

definition loadConfiguration ::
  "(string \<Rightarrow> bool) \<Rightarrow> string \<Rightarrow> string \<Rightarrow> config_service \<Rightarrow> service_effect list" where
  "loadConfiguration url_ok sdkKey default_url s =
     (let api = configurationApiURL (mActiveConfiguration s) in
      [RequestConfiguration (if url_ok (c_str api) then api @ ''/'' @ sdkKey else default_url)])"

text \<open>The A/B lottery on a new configuration; \<open>r\<close> is the value of \<open>rand()\<close>.\<close>

definition ab_lottery :: "int \<Rightarrow> bool \<Rightarrow> nat \<Rightarrow> configuration \<Rightarrow> configuration" where
  "ab_lottery oldABRatio oldABMode r conf =
     (if oldABRatio \<noteq> abTestingRatio conf
      then if 100 \<le> abTestingRatio conf \<or> int (r mod 100) < abTestingRatio conf
           then conf\<lparr>abTesMode := True, operationMode := kRSOperationModeInnerReport\<rparr>
           else conf\<lparr>abTesMode := False\<rparr>
      else conf\<lparr>abTesMode := oldABMode, abTestingRatio := oldABRatio\<rparr>)"

text \<open>What the completion block of a load gets: an error, or data with its two parses.\<close>

datatype load_result =
    LoadError
  | LoadData "json option" "json option" \<comment> \<open>the object of \<open>NSJSONSerialization\<close>, the value of jsoncpp\<close>

record load_context =
  ctx_url_ok :: "string \<Rightarrow> bool"
  ctx_str_int :: "string \<Rightarrow> int"
  ctx_utf8 :: "string \<Rightarrow> bool"
  ctx_g17 :: "rat \<Rightarrow> string"
  ctx_io :: io_outcome
  ctx_rand :: nat
  ctx_session :: "string \<times> int \<times> bool" \<comment> \<open>host and port of the QUIC session, and whether it is connected\<close>

text \<open>
  The values the completion block reads through the model (\<open>abTestingRatio\<close>, \<open>abTestingMode\<close>,
  \<open>edgeHost\<close>, \<open>quicUDPPort\<close>) come from \<open>getActive\<close> of this service. \<open>e\<close> is the environment
  before the new configuration is applied and \<open>e1\<close> the one after: applying it may select a
  protocol.
\<close>

definition apply_loaded ::
  "load_context \<Rightarrow> configuration \<Rightarrow> environment \<Rightarrow> environment \<Rightarrow> configuration \<Rightarrow> config_service
    \<Rightarrow> fault + (config_service \<times> service_effect list)" where
  "apply_loaded ctx mem e e1 conf s =
     (let (c1, s1, fx1) = getActive e s;
          (c2, s2, fx2) = getActive e s1;
          new = ab_lottery (abTestingRatio c1) (abTesMode c2) (ctx_rand ctx) conf;
          s3 = s2\<lparr>mLastUpdated := now e,
                  service_disk := saveIntForKey kTimestampKey (now e) (service_disk s2),
                  mActiveConfiguration := new\<rparr>
      in and_then (saveConfiguration (ctx_io ctx) (ctx_utf8 ctx) new (service_disk s3)) (\<lambda>d.
           let s4 = s3\<lparr>service_disk := d\<rparr>;
               (host, port, connected) = ctx_session ctx;
               (c5, s5, fx5) = getActive e1 s4;
               hostChanged = (host \<noteq> edgeHost c5);
               (c6, s6, fx6) = (if hostChanged then (c5, s5, []) else getActive e1 s5);
               changed = (hostChanged \<or> port \<noteq> quicUDPPort c6);
               s7 = s6\<lparr>mConfigurationRefreshTimer :=
                        scheduleTimer (mConfigurationRefreshTimer s6) (refreshInterval new)\<rparr>
           in Inr (s7, fx1 @ fx2 @ [TrackConfigurationPulled, ApplyConfiguration new, ScheduleStatsReporting]
                     @ fx5 @ fx6 @ (if changed \<and> connected then [ReconnectQUIC] else [])
                     @ [PostLoaded (refreshInterval new)])))"

definition onConfigurationLoaded ::
  "load_context \<Rightarrow> configuration \<Rightarrow> environment \<Rightarrow> environment \<Rightarrow> load_result \<Rightarrow> config_service
    \<Rightarrow> fault + (config_service \<times> service_effect list)" where
  "onConfigurationLoaded ctx mem e e1 r s =
     (case r of LoadError \<Rightarrow> Inr (s, [TrackLoadError])
      | LoadData doc parsed \<Rightarrow>
        and_then (isValidConfiguration (ctx_url_ok ctx) (ctx_str_int ctx) doc) (\<lambda>v.
          if v = Valid
          then and_then (processConfigurationData (ctx_g17 ctx) mem parsed) (\<lambda>conf.
                 apply_loaded ctx mem e e1 conf (s\<lparr>mStaleOnFlag := False\<rparr>))
          else Inr (s, [])))"

lemmas service_ops [step_defs] =
  isTimedOut_def isStale_def scheduleTimer_def getActive_def setOperationMode_def

subsection \<open>The mock service\<close>

record test_service =
  mTestConfiguration :: "configuration option"
  mDefaultConfiguration :: configuration

definition TestConfigurationService_new :: "configuration \<Rightarrow> test_service" where
  "TestConfigurationService_new aConfiguration =
     \<lparr>mTestConfiguration = None, mDefaultConfiguration = Configuration_copy aConfiguration aConfiguration\<rparr>"

text \<open>A mode is not negative; other values are cast as they are.\<close>

definition pushTestConfig :: "string \<Rightarrow> int \<Rightarrow> test_service \<Rightarrow> test_service \<times> service_effect list" where
  "pushTestConfig aProtocolName aOperationMode s =
     (let d = (mDefaultConfiguration s)\<lparr>operationMode := nat aOperationMode\<rparr>;
          c = d\<lparr>allowedProtocols := [aProtocolName]\<rparr>
      in (\<lparr>mTestConfiguration = Some c, mDefaultConfiguration = d\<rparr>, [ApplyConfiguration c]))"

definition getActive_test :: "test_service get_active" where
  "getActive_test e s =
     (case mTestConfiguration s of Some c \<Rightarrow> (c, s, [])
      | None \<Rightarrow> (Configuration_copy (mDefaultConfiguration s) (mDefaultConfiguration s), s, []))"

definition isStale_test :: "environment \<Rightarrow> test_service \<Rightarrow> bool" where
  "isStale_test e s \<longleftrightarrow> False"

definition setOperationMode_test :: "nat \<Rightarrow> test_service \<Rightarrow> test_service" where
  "setOperationMode_test mode s = s"

interpretation mock_service: configuration_service getActive_test isStale_test
  by unfold_locales (auto simp: getActive_test_def isStale_test_def split: option.splits)

subsection \<open>Staleness\<close>

lemma getActive_not_stale: "\<not> isStale e s \<Longrightarrow> getActive e s = (mActiveConfiguration s, s, [])"
  by (simp add: getActive_def)

lemma getActive_frame [frames]:
  "mActiveConfiguration (fst (snd (getActive e s))) = mActiveConfiguration s"
  "mStaleConfiguration (fst (snd (getActive e s))) = mStaleConfiguration s"
  "mLastUpdated (fst (snd (getActive e s))) = mLastUpdated s"
  "service_disk (fst (snd (getActive e s))) = service_disk s"
  "mConfigurationRefreshTimer (fst (snd (getActive e s))) = mConfigurationRefreshTimer s"
  by (simp_all add: getActive_def)

text \<open>A series of requests for the active configuration, and the stale callbacks it causes.\<close>

fun reads :: "environment list \<Rightarrow> config_service \<Rightarrow> config_service \<times> service_effect list" where
  "reads [] s = (s, [])"
| "reads (e # es) s =
     (let (c, s1, fx1) = getActive e s; (s2, fx2) = reads es s1 in (s2, fx1 @ fx2))"

lemma isStale_flag [simp]: "isStale e (s\<lparr>mStaleOnFlag := b\<rparr>) = isStale e s"
  by (simp add: isStale_def isTimedOut_def)

lemma reads_flagged: "mStaleOnFlag s \<Longrightarrow> reads es s = (s, [])"
proof (induction es arbitrary: s)
  case (Cons e es)
  have "s\<lparr>mStaleOnFlag := True\<rparr> = s" using Cons.prems by simp
  then have "fst (snd (getActive e s)) = s \<and> snd (snd (getActive e s)) = []"
    using Cons.prems by (simp add: getActive_def)
  with Cons show ?case by (auto simp: Let_def split: prod.splits)
qed simp

text \<open>
  Property C29. Between two loads the stale callback is called once, on the first request for the
  active configuration that finds the service stale, and never otherwise: for any series of
  requests in any environments the effects are the single callback when the flag was down and
  some request found it stale, and nothing else.
\<close>

theorem stale_callback_once:
  "snd (reads es s) =
     (if \<not> mStaleOnFlag s \<and> (\<exists>e \<in> set es. isStale e s) then [StaleCallback] else [])"
proof (cases "mStaleOnFlag s")
  case False
  then show ?thesis
  proof (induction es)
    case (Cons e es)
    show ?case
    proof (cases "isStale e s")
      case True
      have "reads es (s\<lparr>mStaleOnFlag := True\<rparr>) = (s\<lparr>mStaleOnFlag := True\<rparr>, [])"
        by (rule reads_flagged) simp
      with True Cons.prems show ?thesis by (simp add: getActive_def)
    next
      case ns: False
      then show ?thesis using Cons by (simp add: getActive_not_stale Let_def split: prod.split)
    qed
  qed simp
qed (simp add: reads_flagged)

subsection \<open>The A/B lottery\<close>

text \<open>
  When the offload ratio changes to a value between 0 and 100, exactly that many of
  the hundred residues of \<open>rand()\<close> put the installation into the test group, and the members of
  the group are switched to reporting only.
\<close>

theorem lottery_share_is_ratio:
  assumes "oldABRatio \<noteq> abTestingRatio conf" and "0 \<le> abTestingRatio conf" and "abTestingRatio conf \<le> 100"
  shows "int (card {r \<in> {..<100}. abTesMode (ab_lottery oldABRatio oldABMode r conf)}) = abTestingRatio conf
     \<and> (abTesMode (ab_lottery oldABRatio oldABMode r conf) \<longrightarrow>
          operationMode (ab_lottery oldABRatio oldABMode r conf) = kRSOperationModeInnerReport)"
proof -
  have "{r \<in> {..<100}. abTesMode (ab_lottery oldABRatio oldABMode r conf)} = {..<nat (abTestingRatio conf)}"
    using assms by (auto simp: ab_lottery_def)
  moreover have "abTesMode (ab_lottery oldABRatio oldABMode r conf) \<longrightarrow>
      operationMode (ab_lottery oldABRatio oldABMode r conf) = kRSOperationModeInnerReport"
    using assms(1) by (simp add: ab_lottery_def)
  ultimately show ?thesis using assms(2) by simp
qed

theorem lottery_share_is_ratio_witness:
  "int (card {r \<in> {..<100}. abTesMode (ab_lottery (- 1) False r (sample_configuration\<lparr>abTestingRatio := 30\<rparr>))}) = 30"
  using lottery_share_is_ratio[of "- 1" "sample_configuration\<lparr>abTestingRatio := 30\<rparr>" False] by simp

text \<open>
  Reloading a configuration whose ratio did not change keeps a member of the test
  group in the group but gives it the server's operation mode back, so that it stops being
  limited to reporting; and when the service is stale at the moment of the load, the ratio it
  compares with is the \<open>-1\<close> of the stale configuration, so that the lottery is held again.
\<close>

theorem unchanged_ratio_drops_report_mode:
  "(let new = ab_lottery (abTestingRatio conf) True r conf in
      abTesMode new \<and> operationMode new = operationMode conf)
   \<and> (\<exists>s fx. ConfigurationService_new mem e \<lparr>files = Map.empty, defaults = Map.empty\<rparr> = Inr (s, fx)
      \<and> abTestingRatio (fst (getActive (e\<lparr>externalStale := True\<rparr>) s)) = - 1)"
  by (auto simp: ab_lottery_def Let_def ConfigurationService_new_def getActive_def isStale_def
      storedConfiguration_def contentsOfFileWithName_def configurationFromNSDictionary_def
      intValue_def floatValue_def boolValue_def Configuration_new_def)

subsection \<open>Loading\<close>

lemma getActive_flag: "mStaleOnFlag s \<Longrightarrow> mStaleOnFlag (fst (snd (getActive e s)))"
  by (simp add: getActive_def)

lemma apply_loaded_result:
  assumes "apply_loaded ctx mem e e1 conf s = Inr (s', fx)"
  shows "\<exists>new d. new = ab_lottery (abTestingRatio (fst (getActive e s))) (abTesMode (fst (getActive e s)))
             (ctx_rand ctx) conf
     \<and> saveConfiguration (ctx_io ctx) (ctx_utf8 ctx) new (saveIntForKey kTimestampKey (now e) (service_disk s)) = Inr d
     \<and> mActiveConfiguration s' = new \<and> mLastUpdated s' = now e \<and> service_disk s' = d
     \<and> mConfigurationRefreshTimer s' = scheduleTimer (mConfigurationRefreshTimer s) (refreshInterval new)
     \<and> (mStaleOnFlag (fst (snd (getActive e s))) \<longrightarrow> mStaleOnFlag s')
     \<and> (\<exists>rest. fx = snd (snd (getActive e s)) @ rest)"
proof -
  obtain c1 s1 fx1 where g1: "getActive e s = (c1, s1, fx1)" by (cases "getActive e s") auto
  then have g2: "getActive e s1 = (c1, s1, [])" by (rule real_service.get_again)
  have f1: "service_disk s1 = service_disk s" "mConfigurationRefreshTimer s1 = mConfigurationRefreshTimer s"
    using g1 frames(4,5) by (metis fst_conv snd_conv)+
  define new where "new = ab_lottery (abTestingRatio c1) (abTesMode c1) (ctx_rand ctx) conf"
  obtain d where d: "saveConfiguration (ctx_io ctx) (ctx_utf8 ctx) new
      (saveIntForKey kTimestampKey (now e) (service_disk s)) = Inr d"
    using assms by (auto simp: apply_loaded_def g1 g2 f1 Let_def and_then_eq_Inr new_def)
  define s4 where "s4 = s1\<lparr>mLastUpdated := now e, mActiveConfiguration := new, service_disk := d\<rparr>"
  obtain c5 s5 fx5 where g5: "getActive e1 s4 = (c5, s5, fx5)" by (cases "getActive e1 s4") auto
  then have g6: "getActive e1 s5 = (c5, s5, [])" by (rule real_service.get_again)
  have s': "s' = s5\<lparr>mConfigurationRefreshTimer := scheduleTimer (mConfigurationRefreshTimer s5) (refreshInterval new)\<rparr>
      \<and> (\<exists>rest. fx = fx1 @ rest)"
    using assms d by (auto simp: apply_loaded_def g1 g2 f1 Let_def and_then_eq_Inr
        g5[unfolded s4_def] g6 simp flip: new_def split: prod.splits if_splits)
  have "mActiveConfiguration s5 = mActiveConfiguration s4" "mLastUpdated s5 = mLastUpdated s4"
    "service_disk s5 = service_disk s4" "mConfigurationRefreshTimer s5 = mConfigurationRefreshTimer s4"
    using g5 frames by (metis fst_conv snd_conv)+
  moreover have "mStaleOnFlag s1 \<longrightarrow> mStaleOnFlag s5"
    using g5 getActive_flag[of s4 e1] by (simp add: s4_def)
  ultimately show ?thesis using d f1 s' by (simp add: s4_def new_def g1)
qed

lemma apply_loaded_returns:
  assumes "saveConfiguration (ctx_io ctx) (ctx_utf8 ctx)
      (ab_lottery (abTestingRatio (fst (getActive e s))) (abTesMode (fst (getActive e s))) (ctx_rand ctx) conf)
      (saveIntForKey kTimestampKey (now e) (service_disk s)) = Inr d"
  shows "\<exists>s' fx. apply_loaded ctx mem e e1 conf s = Inr (s', fx)"
proof -
  obtain c1 s1 fx1 where g1: "getActive e s = (c1, s1, fx1)" by (cases "getActive e s") auto
  then have g2: "getActive e s1 = (c1, s1, [])" by (rule real_service.get_again)
  have "service_disk s1 = service_disk s" using g1 frames(4) by (metis fst_conv snd_conv)
  then show ?thesis
    using assms by (simp add: apply_loaded_def g1 g2 Let_def split: prod.split)
qed

text \<open>
  Property C18. After a valid configuration was loaded and could be stored, the service is not
  timed out until the stale timeout has passed, and neither is a service started from the disk
  within that time: it applies the very configuration that was loaded.
\<close>

theorem restart_resumes_loaded_configuration:
  assumes "onConfigurationLoaded ctx mem e e1 (LoadData doc parsed) s = Inr (s', fx)"
    and "isValidConfiguration (ctx_url_ok ctx) (ctx_str_int ctx) doc = Inr Valid"
    and "ctx_io ctx = io_ok" and "storable (ctx_utf8 ctx) (mActiveConfiguration s')"
    and "now e \<le> now e2" and "now e2 - now e \<le> 1000000 * staleTimeout (mActiveConfiguration s')"
  shows "\<not> isTimedOut e2 s'
     \<and> (\<exists>t. ConfigurationService_new mem2 e2 (service_disk s') =
              Inr (t, [ApplyConfiguration (mActiveConfiguration s')])
          \<and> mActiveConfiguration t = mActiveConfiguration s' \<and> mLastUpdated t = mLastUpdated s')"
proof -
  obtain conf where "apply_loaded ctx mem e e1 conf (s\<lparr>mStaleOnFlag := False\<rparr>) = Inr (s', fx)"
    using assms(1,2) by (auto simp: onConfigurationLoaded_def and_then_eq_Inr)
  from apply_loaded_result[OF this] obtain d where
    save: "saveConfiguration io_ok (ctx_utf8 ctx) (mActiveConfiguration s')
        (saveIntForKey kTimestampKey (now e) (service_disk s)) = Inr d"
    and s': "mLastUpdated s' = now e" "service_disk s' = d"
    using assms(3) by auto
  from saved_configuration[OF assms(4)] save
  have st: "storedConfiguration mem2 d = Inr (mActiveConfiguration s')"
    and df: "defaults d = defaults (saveIntForKey kTimestampKey (now e) (service_disk s))"
    by (metis Inr_inject)+
  have ts: "getIntForKey kTimestampKey d = now e"
    by (simp add: getIntForKey_def df saveIntForKey_def)
  have fresh: "secs_of (now e2 - now e) \<le> staleTimeout (mActiveConfiguration s')"
    using assms(5,6) by (simp add: secs_of_def)
  show ?thesis
    using fresh by (simp add: isTimedOut_def s' ConfigurationService_new_def st ts Configuration_copy_id Let_def)
qed

text \<open>A first load by a freshly installed SDK.\<close>

definition sample_context :: load_context where
  "sample_context = \<lparr>ctx_url_ok = (\<lambda>u. True), ctx_str_int = (\<lambda>s. 0), ctx_utf8 = (\<lambda>s. True),
     ctx_g17 = (\<lambda>x. []), ctx_io = io_ok, ctx_rand = 17, ctx_session = ([], 0, False)\<rparr>"

definition sample_document :: json where
  "sample_document = JObject [(''os'', JString ''iOS''), (''configs'', JArray [JObject sample_configs])]"

definition sample_service :: config_service where
  "sample_service = \<lparr>mStaleOnFlag = False, mActiveConfiguration = sample_configuration,
     mStaleConfiguration = sample_configuration\<lparr>operationMode := kRSOperationModeInnerOff\<rparr>,
     mLastUpdated = 0, mConfigurationRefreshTimer = None,
     service_disk = \<lparr>files = Map.empty, defaults = Map.empty\<rparr>\<rparr>"

definition at_time :: "int \<Rightarrow> environment" where
  "at_time t = \<lparr>now = t, externalStale = False\<rparr>"

lemma sample_processed:
  "\<exists>c. processConfigurationData (\<lambda>x. []) sample_configuration (Some sample_document) = Inr c
     \<and> storable (\<lambda>s. True) (c\<lparr>abTesMode := b\<rparr>) \<and> staleTimeout c = 120 \<and> abTestingRatio c = 0"
  by (simp add: processConfigurationData_def process_configs_def sample_document_def sample_configs_def
      json_member_def json_index_def member_string_def member_int_def json_asString_def json_asInt_def
      json_asFloat_def statsLevels_def Configuration_new_def vectorFromValue_strings[of "\<lambda>x. []" "[''standard'', ''quic'']", simplified]
      minInt_def maxInt_def storable_def plain_def in_int_def fl32_1)

lemma sample_load:
  "\<exists>s' fx. onConfigurationLoaded sample_context sample_configuration (at_time 5) (at_time 5)
       (LoadData (Some sample_document) (Some sample_document)) sample_service = Inr (s', fx)
     \<and> storable (\<lambda>s. True) (mActiveConfiguration s') \<and> staleTimeout (mActiveConfiguration s') = 120"
proof -
  obtain c where c: "processConfigurationData (\<lambda>x. []) sample_configuration (Some sample_document) = Inr c"
    and st: "storable (\<lambda>s. True) (c\<lparr>abTesMode := False\<rparr>)" and t: "staleTimeout c = 120" and r: "abTestingRatio c = 0"
    using sample_processed by blast
  have nst: "\<not> isStale (at_time 5) sample_service"
    by (simp add: isStale_def isTimedOut_def sample_service_def at_time_def secs_of_def
        sample_configuration_def Configuration_new_def)
  have now5: "now (at_time 5) = 5" by (simp add: at_time_def)
  from nst have sf: "sample_service\<lparr>mStaleOnFlag := False\<rparr> = sample_service" by (simp add: sample_service_def)
  have ab: "ab_lottery (abTestingRatio (mActiveConfiguration sample_service)) m 17 c = c\<lparr>abTesMode := False\<rparr>" for m
    by (simp add: ab_lottery_def r sample_service_def sample_configuration_def Configuration_new_def)
  obtain d where d: "saveConfiguration io_ok (\<lambda>s. True) (c\<lparr>abTesMode := False\<rparr>)
      (saveIntForKey kTimestampKey 5 (service_disk sample_service)) = Inr d"
    using saved_configuration[OF st] by blast
  have "isValidConfiguration (\<lambda>u. True) (\<lambda>s. 0) (Some sample_document) = Inr Valid"
    by (simp add: isValidConfiguration_def sample_document_def sample_checks)
  moreover have "\<exists>s' fx. apply_loaded sample_context sample_configuration (at_time 5) (at_time 5) c sample_service = Inr (s', fx)"
    using d by (intro apply_loaded_returns)
      (simp add: getActive_not_stale[OF nst] ab now5 sample_context_def)
  ultimately have "\<exists>s' fx. onConfigurationLoaded sample_context sample_configuration (at_time 5) (at_time 5)
       (LoadData (Some sample_document) (Some sample_document)) sample_service = Inr (s', fx)"
    using c sf by (simp add: onConfigurationLoaded_def) (simp add: sample_context_def)
  then obtain s' fx where l: "onConfigurationLoaded sample_context sample_configuration (at_time 5) (at_time 5)
       (LoadData (Some sample_document) (Some sample_document)) sample_service = Inr (s', fx)" by blast
  then have "apply_loaded sample_context sample_configuration (at_time 5) (at_time 5) c sample_service = Inr (s', fx)"
    using \<open>isValidConfiguration _ _ _ = _\<close> c sf
    by (simp add: onConfigurationLoaded_def sample_context_def)
  from apply_loaded_result[OF this] have "mActiveConfiguration s' = c\<lparr>abTesMode := False\<rparr>"
    by (auto simp: getActive_not_stale[OF nst] ab sample_context_def)
  with l st t show ?thesis by auto
qed

theorem restart_resumes_loaded_configuration_witness:
  "\<exists>s' fx t. onConfigurationLoaded sample_context sample_configuration (at_time 5) (at_time 5)
       (LoadData (Some sample_document) (Some sample_document)) sample_service = Inr (s', fx)
     \<and> ConfigurationService_new sample_configuration (at_time 60000005) (service_disk s') =
         Inr (t, [ApplyConfiguration (mActiveConfiguration s')])"
proof -
  obtain s' fx where l: "onConfigurationLoaded sample_context sample_configuration (at_time 5) (at_time 5)
       (LoadData (Some sample_document) (Some sample_document)) sample_service = Inr (s', fx)"
    and st: "storable (\<lambda>s. True) (mActiveConfiguration s')" "staleTimeout (mActiveConfiguration s') = 120"
    using sample_load by blast
  have v: "isValidConfiguration (ctx_url_ok sample_context) (ctx_str_int sample_context) (Some sample_document) = Inr Valid"
    by (simp add: isValidConfiguration_def sample_document_def sample_checks sample_context_def)
  have io: "ctx_io sample_context = io_ok" "ctx_utf8 sample_context = (\<lambda>s. True)" by (simp_all add: sample_context_def)
  from restart_resumes_loaded_configuration[OF l v io(1), of "at_time 60000005" sample_configuration] st l io
  show ?thesis by (auto simp: at_time_def)
qed

text \<open>
  A load that succeeds while the service is timed out leaves the stale flag raised:
  the ratio is read through \<open>getActive\<close> before the time of the update is stored, which calls the
  stale callback once more and raises the flag the load has just cleared. When the service
  becomes stale again, no request calls the callback.
\<close>

theorem load_while_stale_masks_callback:
  assumes "isTimedOut e s" and "\<not> externalStale e1" and "now e1 = now e"
    and "apply_loaded ctx mem e e1 conf (s\<lparr>mStaleOnFlag := False\<rparr>) = Inr (s', fx)"
    and "0 \<le> staleTimeout (mActiveConfiguration s')"
  shows "StaleCallback \<in> set fx \<and> \<not> isStale e1 s' \<and> mStaleOnFlag s' \<and> snd (reads es s') = []"
proof -
  let ?s = "s\<lparr>mStaleOnFlag := False\<rparr>"
  have st: "isStale e ?s" using assms(1) unfolding isStale_flag by (simp add: isStale_def)
  then have g1: "getActive e ?s = (mStaleConfiguration s, ?s\<lparr>mStaleOnFlag := True\<rparr>, [StaleCallback])"
    by (simp add: getActive_def)
  from apply_loaded_result[OF assms(4)] have up: "mLastUpdated s' = now e" by blast
  have fresh: "\<not> isStale e1 s'"
    using assms(2,3,5) by (simp add: isStale_def isTimedOut_def up secs_of_def)
  have "StaleCallback \<in> set fx \<and> mStaleOnFlag s'"
    using apply_loaded_result[OF assms(4)] by (auto simp: g1)
  with fresh show ?thesis by (simp add: reads_flagged)
qed

theorem load_while_stale_masks_callback_witness:
  "\<exists>s' fx. apply_loaded sample_context sample_configuration (at_time 200000000) (at_time 200000000)
       sample_configuration (sample_service\<lparr>mStaleOnFlag := False\<rparr>) = Inr (s', fx)
     \<and> StaleCallback \<in> set fx \<and> snd (reads [at_time 900000000] s') = []"
proof -
  let ?e = "at_time 200000000"
  let ?s = "sample_service\<lparr>mStaleOnFlag := False\<rparr>"
  have out: "isTimedOut ?e sample_service"
    by (simp add: isTimedOut_def sample_service_def at_time_def secs_of_def
        sample_configuration_def Configuration_new_def)
  then have st: "isStale ?e ?s" unfolding isStale_flag by (simp add: isStale_def)
  then have c: "fst (getActive ?e ?s) = mStaleConfiguration sample_service" by (simp add: getActive_def)
  have ab: "ab_lottery (abTestingRatio (fst (getActive ?e ?s))) (abTesMode (fst (getActive ?e ?s))) 17
      sample_configuration = sample_configuration"
    unfolding c by (simp add: ab_lottery_def sample_service_def sample_configuration_def Configuration_new_def)
  obtain d where "saveConfiguration io_ok (\<lambda>s. True) sample_configuration
      (saveIntForKey kTimestampKey (now ?e) (service_disk ?s)) = Inr d"
    using saved_configuration[OF sample_storable] by blast
  then have "\<exists>s' fx. apply_loaded sample_context sample_configuration ?e ?e sample_configuration ?s = Inr (s', fx)"
    using ab by (intro apply_loaded_returns) (simp add: sample_context_def)
  then obtain s' fx where l: "apply_loaded sample_context sample_configuration ?e ?e sample_configuration ?s = Inr (s', fx)"
    by blast
  from apply_loaded_result[OF l] ab have "mActiveConfiguration s' = sample_configuration"
    by (auto simp: sample_context_def)
  then have "0 \<le> staleTimeout (mActiveConfiguration s')"
    by (simp add: sample_configuration_def Configuration_new_def)
  with load_while_stale_masks_callback[OF out _ _ l, of "[at_time 900000000]"] l
  show ?thesis by (auto simp: at_time_def)
qed

end
