(* ===== verification/EventLog.thy ===== *)
theory EventLog
  imports DataStorage
begin

text \<open>
  The log events of the SDK on disk (\<open>Stats/Event.hpp\<close>, \<open>DataStorage/DataStorage.mm\<close>) and how a report takes
  them (\<open>logDataArray\<close> of \<open>Stats/NativeStatsHandler.mm\<close>): an array of dictionaries of strings, emptied
  whenever a report is composed.
\<close>

record rs_event =
  severity :: string
  event_code :: int
  event_message :: string
  event_interval :: rat
  event_timestamp :: int \<comment> \<open>a \<open>long double\<close> that holds whole milliseconds\<close>

text \<open>The constructor; \<open>now_us\<close> is the system clock, in microseconds as its type has it.\<close>

definition Event_new :: "int \<Rightarrow> string \<Rightarrow> int \<Rightarrow> string \<Rightarrow> rat \<Rightarrow> rs_event" where
  "Event_new now_us aSeverity aCode aMessage aInterval =
     \<lparr>severity = aSeverity, event_code = aCode, event_message = aMessage, event_interval = aInterval,
      event_timestamp = trunc_rat (of_int now_us / 1000)\<rparr>"

definition kRSEventsDataStorageKey :: string where "kRSEventsDataStorageKey = ''kRSEventsDataStorageKey''"

text \<open>The format \<open>%.f\<close>: no digits behind the point, rounded to even.\<close>

definition format_f :: "rat \<Rightarrow> string" where
  "format_f x = (case quotient_of \<bar>x\<bar> of (a, b) \<Rightarrow>
     (if x < 0 then [CHR ''-''] else []) @ digits_of_nat (rne (nat a) (nat b)))"

text \<open>A text that is not UTF-8 is \<open>nil\<close>, which an array literal refuses.\<close>

definition event_dictionary :: "(string \<Rightarrow> bool) \<Rightarrow> rs_event \<Rightarrow> fault + plist" where
  "event_dictionary utf8 e =
     (case (NSStringFromStdString utf8 (severity e), NSStringFromStdString utf8 (event_message e)) of
        (Some s, Some m) \<Rightarrow>
          Inr (PDict [(''log_severity'', PString s), (''log_event_code'', PString (int_to_string (event_code e))),
            (''log_message'', PString m), (''log_interval'', PString (format_f (event_interval e))),
            (''timestamp'', PString (format_f (of_int (event_timestamp e))))])
      | _ \<Rightarrow> ns_exception)"

text \<open>\<open>arrayWithContentsOfFile:\<close> answers \<open>nil\<close> for a file that is missing or holds something else.\<close>

definition loadEvents :: "disk \<Rightarrow> plist list" where
  "loadEvents d = (case files d kRSEventsDataStorageKey of Some (PArray xs) \<Rightarrow> xs | _ \<Rightarrow> [])"

definition data_storage_addEvent :: "io_outcome \<Rightarrow> (string \<Rightarrow> bool) \<Rightarrow> rs_event \<Rightarrow> disk \<Rightarrow> fault + disk" where
  "data_storage_addEvent io utf8 e d =
     and_then (event_dictionary utf8 e) (\<lambda>v. Inr (saveObject io (PArray (loadEvents d @ [v])) kRSEventsDataStorageKey d))"

definition deleteEvents :: "io_outcome \<Rightarrow> disk \<Rightarrow> disk" where
  "deleteEvents io d = deleteFile io kRSEventsDataStorageKey d"

definition logDataArray :: "io_outcome \<Rightarrow> disk \<Rightarrow> plist list \<times> disk" where
  "logDataArray io d = (loadEvents d, deleteEvents io d)"

text \<open>The directory: whether it exists afterwards.\<close>

definition initDataStorage :: "bool \<Rightarrow> bool \<Rightarrow> bool" where
  "initDataStorage exists can_create = (if \<not> exists then can_create else exists)"

subsection \<open>Every event is reported once\<close>

datatype event_op = LogEvent rs_event | ComposeReport

fun event_run :: "io_outcome \<Rightarrow> (string \<Rightarrow> bool) \<Rightarrow> event_op list \<Rightarrow> disk \<Rightarrow> fault + (plist list list \<times> disk)" where
  "event_run io utf8 [] d = Inr ([], d)"
| "event_run io utf8 (LogEvent e # ops) d =
     and_then (data_storage_addEvent io utf8 e d) (\<lambda>d1. event_run io utf8 ops d1)"
| "event_run io utf8 (ComposeReport # ops) d =
     (case logDataArray io d of (xs, d1) \<Rightarrow>
        and_then (event_run io utf8 ops d1) (\<lambda>(reports, d2). Inr (xs # reports, d2)))"

fun logged :: "event_op list \<Rightarrow> rs_event list" where
  "logged [] = []"
| "logged (LogEvent e # ops) = e # logged ops"
| "logged (ComposeReport # ops) = logged ops"

definition told :: "rs_event \<Rightarrow> plist" where
  "told e = PDict [(''log_severity'', PString (severity e)), (''log_event_code'', PString (int_to_string (event_code e))),
     (''log_message'', PString (event_message e)), (''log_interval'', PString (format_f (event_interval e))),
     (''timestamp'', PString (format_f (of_int (event_timestamp e))))]"

lemma event_dictionary_plain:
  "plain utf8 (severity e) \<Longrightarrow> plain utf8 (event_message e) \<Longrightarrow> event_dictionary utf8 e = Inr (told e)"
  by (simp add: event_dictionary_def told_def)

lemma events_after:
  "loadEvents (saveObject io_ok (PArray xs) kRSEventsDataStorageKey d) = xs" "loadEvents (deleteEvents io_ok d) = []"
  by (simp_all add: loadEvents_def deleteEvents_def)

text \<open>
  With a working disk, the reports composed one after the other and what is left in the file are together
  the events, each once and in the order they were logged.
\<close>

theorem events_reported_once:
  assumes "\<forall>e \<in> set (logged ops). plain utf8 (severity e) \<and> plain utf8 (event_message e)"
  shows "\<exists>reports d'. event_run io_ok utf8 ops d = Inr (reports, d')
    \<and> concat reports @ loadEvents d' = loadEvents d @ map told (logged ops)"
  using assms
proof (induction ops arbitrary: d)
  case (Cons op ops)
  show ?case
  proof (cases op)
    case (LogEvent e)
    let ?d = "saveObject io_ok (PArray (loadEvents d @ [told e])) kRSEventsDataStorageKey d"
    have "data_storage_addEvent io_ok utf8 e d = Inr ?d"
      using Cons.prems LogEvent by (simp add: data_storage_addEvent_def event_dictionary_plain)
    then show ?thesis using Cons.IH[of ?d] Cons.prems LogEvent events_after(1) by simp
  next
    case ComposeReport
    from Cons.IH[of "deleteEvents io_ok d"] Cons.prems ComposeReport obtain reports d' where
      "event_run io_ok utf8 ops (deleteEvents io_ok d) = Inr (reports, d')"
      "concat reports @ loadEvents d' = map told (logged ops)" by (auto simp: events_after(2))
    with ComposeReport show ?thesis by (simp add: logDataArray_def)
  qed
qed simp

text \<open>A report takes its events out of the file for good: nothing gives them back when it cannot be sent.\<close>

lemma composed_report_keeps_no_events: "can_remove io \<Longrightarrow> loadEvents (snd (logDataArray io d)) = []"
  by (simp add: logDataArray_def deleteEvents_def deleteFile_def loadEvents_def)

end
