(* ===== verification/HeaderText.thy ===== *)
theory HeaderText
  imports Prelude
begin

text \<open>
  Texts of headers, as the client stream reads them: numbers (\<open>IteratorRangeToNumber\<close> with base 10,
  \<open>quicrepack/src/base/strings/string_number_conversions.cc\<close>), and lists of values
  (\<open>SplitStringT\<close>, \<open>string_split.cc\<close>). A failed conversion still writes what it had read, which the
  second component gives.
\<close>

definition is_space :: "char \<Rightarrow> bool" where
  "is_space c \<longleftrightarrow> c \<in> {CHR 0x09, CHR 0x0A, CHR 0x0B, CHR 0x0C, CHR 0x0D, CHR 0x20}"

definition is_digit10 :: "char \<Rightarrow> bool" where
  "is_digit10 c \<longleftrightarrow> 48 \<le> (of_char c :: nat) \<and> (of_char c :: nat) < 58"

definition digit10 :: "char \<Rightarrow> int" where
  "digit10 c = int (of_char c) - 48"

text \<open>\<open>Base<Sign>::Invoke\<close> after its first test; the C++ quotients of negative numbers truncate.\<close>

fun parse_positive :: "int \<Rightarrow> bool \<Rightarrow> int \<Rightarrow> string \<Rightarrow> bool \<times> int" where
  "parse_positive mx first out [] = (True, out)"
| "parse_positive mx first out (c # cs) =
     (if \<not> is_digit10 c then (False, out)
      else if \<not> first \<and> (mx div 10 < out \<or> out = mx div 10 \<and> mx mod 10 < digit10 c) then (False, mx)
      else parse_positive mx False ((if first then out else out * 10) + digit10 c) cs)"

fun parse_negative :: "int \<Rightarrow> bool \<Rightarrow> int \<Rightarrow> string \<Rightarrow> bool \<times> int" where
  "parse_negative mn first out [] = (True, out)"
| "parse_negative mn first out (c # cs) =
     (if \<not> is_digit10 c then (False, out)
      else if \<not> first \<and> (out < - (- mn div 10) \<or> out = - (- mn div 10) \<and> (- mn) mod 10 < digit10 c) then (False, mn)
      else parse_negative mn False ((if first then out else out * 10) - digit10 c) cs)"

definition invoke_positive :: "int \<Rightarrow> string \<Rightarrow> bool \<times> int" where
  "invoke_positive mx cs = (if cs = [] then (False, 0) else parse_positive mx True 0 cs)"

definition invoke_negative :: "int \<Rightarrow> string \<Rightarrow> bool \<times> int" where
  "invoke_negative mn cs = (if cs = [] then (False, 0) else parse_negative mn True 0 cs)"

text \<open>\<open>old\<close> is what the output held before; an unsigned conversion leaves it for a minus sign.\<close>

definition string_to_number :: "int \<Rightarrow> int \<Rightarrow> int \<Rightarrow> string \<Rightarrow> bool \<times> int" where
  "string_to_number mn mx old s =
     (let cs = dropWhile is_space s; valid = (cs = s);
          (ok, v) =
            (if cs \<noteq> [] \<and> hd cs = CHR ''-''
             then if mn = 0 then (False, old) else invoke_negative mn (tl cs)
             else if cs \<noteq> [] \<and> hd cs = CHR ''+'' then invoke_positive mx (tl cs)
             else invoke_positive mx cs)
      in (valid \<and> ok, v))"

definition StringToInt :: "int \<Rightarrow> string \<Rightarrow> bool \<times> int" where
  "StringToInt old s = string_to_number (- (2 ^ 31)) (2 ^ 31 - 1) old s"

definition StringToSizeT :: "nat \<Rightarrow> string \<Rightarrow> bool \<times> nat" where
  "StringToSizeT old s = (case string_to_number 0 (2 ^ 64 - 1) (int old) s of (ok, v) \<Rightarrow> (ok, nat v))"

subsection \<open>Lists of values\<close>

definition TrimString :: "string \<Rightarrow> string" where
  "TrimString s = rev (dropWhile is_space (rev (dropWhile is_space s)))"

fun split_at :: "char \<Rightarrow> string \<Rightarrow> string list" where
  "split_at d [] = [[]]"
| "split_at d (c # cs) =
     (if c = d then [] # split_at d cs
      else case split_at d cs of p # ps \<Rightarrow> (c # p) # ps | [] \<Rightarrow> [[c]])"

definition SplitString :: "char \<Rightarrow> string \<Rightarrow> string list" where
  "SplitString d s = (if s = [] then [] else map TrimString (split_at d s))"

subsection \<open>Which texts are numbers\<close>

definition digits_value :: "string \<Rightarrow> int" where
  "digits_value cs = foldl (\<lambda>n c. n * 10 + digit10 c) 0 cs"

definition numeral_text :: "string \<Rightarrow> bool" where
  "numeral_text cs \<longleftrightarrow> cs \<noteq> [] \<and> (\<forall>c \<in> set cs. is_digit10 c)"

text \<open>The specification: a sign or none, then digits.\<close>

definition decimal :: "string \<Rightarrow> int option" where
  "decimal s =
     (let (sign, ds) = (if s \<noteq> [] \<and> hd s = CHR ''-'' then (-1, tl s)
                        else if s \<noteq> [] \<and> hd s = CHR ''+'' then (1, tl s) else (1, s))
      in if numeral_text ds then Some (sign * digits_value ds) else None)"

lemma digit10_bounds: "is_digit10 c \<Longrightarrow> 0 \<le> digit10 c \<and> digit10 c \<le> 9"
  by (simp add: is_digit10_def digit10_def)

lemma foldl_digits_mono:
  assumes "0 \<le> n" and "\<forall>c \<in> set cs. is_digit10 c"
  shows "n \<le> foldl (\<lambda>n c. n * 10 + digit10 c) n cs"
  using assms
proof (induction cs arbitrary: n)
  case (Cons c cs)
  then have "0 \<le> digit10 c" using digit10_bounds[of c] by simp
  with Cons.prems(1) have "0 \<le> n * 10 + digit10 c" "n \<le> n * 10 + digit10 c" by simp_all
  with Cons.IH[of "n * 10 + digit10 c"] Cons.prems(2) show ?case by simp
qed simp

lemma next_digit_fits:
  fixes mx out d :: int
  assumes "0 \<le> d" and "d \<le> 9"
  shows "(mx div 10 < out \<or> out = mx div 10 \<and> mx mod 10 < d) \<longleftrightarrow> mx < out * 10 + d"
proof -
  obtain q r where qr: "mx div 10 = q" "mx mod 10 = r" by blast
  then have "mx = 10 * q + r" "0 \<le> r" "r < 10" by auto
  with assms show ?thesis unfolding qr by (cases "q < out"; cases "out = q") linarith+
qed

lemma parse_positive_step:
  assumes "is_digit10 c"
  shows "parse_positive mx False out (c # cs) =
    (if mx < out * 10 + digit10 c then (False, mx) else parse_positive mx False (out * 10 + digit10 c) cs)"
  using assms next_digit_fits[of "digit10 c" mx out] digit10_bounds[OF assms] by simp

lemma parse_positive_loop:
  assumes "0 \<le> out" and "out \<le> mx"
  shows "(fst (parse_positive mx False out cs) \<longleftrightarrow>
       (\<forall>c \<in> set cs. is_digit10 c) \<and> foldl (\<lambda>n c. n * 10 + digit10 c) out cs \<le> mx)
     \<and> (fst (parse_positive mx False out cs) \<longrightarrow>
       snd (parse_positive mx False out cs) = foldl (\<lambda>n c. n * 10 + digit10 c) out cs)"
  using assms
proof (induction cs arbitrary: out)
  case (Cons c cs)
  let ?f = "\<lambda>n c. n * 10 + digit10 c" and ?o = "out * 10 + digit10 c"
  show ?case
  proof (cases "is_digit10 c")
    case d: True
    then have o: "0 \<le> ?o" using digit10_bounds[OF d] Cons.prems(1) by linarith
    show ?thesis
    proof (cases "mx < ?o")
      case True
      have "mx < foldl ?f ?o cs" if "\<forall>c \<in> set cs. is_digit10 c"
        using foldl_digits_mono[OF o that] True by linarith
      with True d show ?thesis unfolding parse_positive_step[OF d] by auto
    next
      case False
      then have "?o \<le> mx" by linarith
      from Cons.IH[OF o this] False d show ?thesis unfolding parse_positive_step[OF d] by simp
    qed
  qed simp
qed simp

lemma parse_negative_mirrors:
  "parse_negative mn first out cs = (case parse_positive (- mn) first (- out) cs of (ok, v) \<Rightarrow> (ok, - v))"
proof (induction cs arbitrary: first out)
  case (Cons c cs)
  obtain q where q: "- mn div 10 = q" by blast
  have eqs: "- out = q \<longleftrightarrow> out = - q" "q < - out \<longleftrightarrow> out < - q" by linarith+
  have "(if first then - out else - out * 10) + digit10 c = - ((if first then out else out * 10) - digit10 c)" by simp
  then show ?case
    unfolding parse_negative.simps parse_positive.simps Cons.IH q eqs by simp
qed simp

lemma invoke_positive_spec:
  assumes "9 \<le> mx"
  shows "fst (invoke_positive mx cs) \<longleftrightarrow> numeral_text cs \<and> digits_value cs \<le> mx"
    and "fst (invoke_positive mx cs) \<Longrightarrow> snd (invoke_positive mx cs) = digits_value cs"
proof -
  show "fst (invoke_positive mx cs) \<longleftrightarrow> numeral_text cs \<and> digits_value cs \<le> mx"
  proof (cases cs)
    case (Cons c ds)
    then show ?thesis
      using digit10_bounds[of c] assms parse_positive_loop[of "digit10 c" mx ds]
      by (auto simp: invoke_positive_def numeral_text_def digits_value_def)
  qed (simp add: invoke_positive_def numeral_text_def)
  assume ok: "fst (invoke_positive mx cs)"
  then obtain c ds where "cs = c # ds" by (cases cs) (auto simp: invoke_positive_def)
  with ok digit10_bounds[of c] assms parse_positive_loop[of "digit10 c" mx ds]
  show "snd (invoke_positive mx cs) = digits_value cs"
    by (auto simp: invoke_positive_def digits_value_def split: if_splits)
qed

lemma invoke_negative_spec:
  assumes "mn \<le> - 9"
  shows "fst (invoke_negative mn cs) \<longleftrightarrow> numeral_text cs \<and> mn \<le> - digits_value cs"
    and "fst (invoke_negative mn cs) \<Longrightarrow> snd (invoke_negative mn cs) = - digits_value cs"
  using invoke_positive_spec[of "- mn" cs] assms
  by (auto simp: invoke_negative_def invoke_positive_def parse_negative_mirrors split: prod.splits if_splits)

lemma sign_not_space [simp]: "\<not> is_space CHR ''-''" "\<not> is_space CHR ''+''" "\<not> is_digit10 CHR ''-''" "\<not> is_digit10 CHR ''+''"
  by (simp_all add: is_space_def is_digit10_def)

lemma digit_not_space: "is_digit10 c \<Longrightarrow> \<not> is_space c"
  by (auto simp: is_space_def is_digit10_def)

lemma dropWhile_same: "dropWhile P s = s \<longleftrightarrow> s = [] \<or> \<not> P (hd s)"
proof (cases s)
  case (Cons c cs)
  have "length (dropWhile P cs) \<le> length cs" by (rule length_dropWhile_le)
  then have "dropWhile P cs \<noteq> c # cs" by (metis impossible_Cons)
  with Cons show ?thesis by auto
qed simp

text \<open>\<open>StringToInt\<close> accepts exactly the decimal numerals of the range of \<open>int\<close>, and reads their value.\<close>

lemma space_no_numeral: "is_space c \<Longrightarrow> decimal (c # cs) = None"
  using digit_not_space[of c] by (auto simp: decimal_def numeral_text_def is_space_def split: prod.splits)

lemma string_to_number_decimal:
  assumes "mn \<le> - 9" and "9 \<le> mx"
  shows "fst (string_to_number mn mx old s) \<longleftrightarrow> (\<exists>v. decimal s = Some v \<and> mn \<le> v \<and> v \<le> mx)"
    and "fst (string_to_number mn mx old s) \<Longrightarrow> decimal s = Some (snd (string_to_number mn mx old s))"
proof -
  note pos = invoke_positive_spec[OF assms(2)] and neg = invoke_negative_spec[OF assms(1)]
  have value_pos: "0 \<le> digits_value ds" if "numeral_text ds" for ds
    using foldl_digits_mono[of 0 ds] that by (auto simp: numeral_text_def digits_value_def)
  have "(fst (string_to_number mn mx old s) \<longleftrightarrow> (\<exists>v. decimal s = Some v \<and> mn \<le> v \<and> v \<le> mx))
     \<and> (fst (string_to_number mn mx old s) \<longrightarrow> decimal s = Some (snd (string_to_number mn mx old s)))"
  proof (cases s)
    case Nil
    then show ?thesis by (simp add: string_to_number_def invoke_positive_def decimal_def numeral_text_def)
  next
    case (Cons c cs)
    show ?thesis
    proof (cases "is_space c")
      case True
      then have "dropWhile is_space s \<noteq> s" unfolding dropWhile_same Cons by simp
      then have "\<not> fst (string_to_number mn mx old s)"
        by (auto simp: string_to_number_def Let_def split: prod.splits)
      with space_no_numeral[OF True] Cons show ?thesis by simp
    next
      case False
      then have dw: "dropWhile is_space s = s" unfolding dropWhile_same Cons by simp
      consider "c = CHR ''-''" | "c = CHR ''+''" | "c \<noteq> CHR ''-''" "c \<noteq> CHR ''+''" by blast
      then show ?thesis
      proof cases
        case 1
        then show ?thesis using dw Cons assms neg[of cs] value_pos[of cs]
          by (auto simp: string_to_number_def decimal_def split: prod.splits)
      next
        case 2
        then show ?thesis using dw Cons assms pos[of cs] value_pos[of cs]
          by (auto simp: string_to_number_def decimal_def split: prod.splits)
      next
        case 3
        have "string_to_number mn mx old s = invoke_positive mx s"
          using dw Cons 3 by (simp add: string_to_number_def)
        moreover have "decimal s = (if numeral_text s then Some (digits_value s) else None)"
          using Cons 3 by (simp add: decimal_def)
        ultimately show ?thesis using assms pos[of s] value_pos[of s] by auto
      qed
    qed
  qed
  then show "fst (string_to_number mn mx old s) \<longleftrightarrow> (\<exists>v. decimal s = Some v \<and> mn \<le> v \<and> v \<le> mx)"
    and "fst (string_to_number mn mx old s) \<Longrightarrow> decimal s = Some (snd (string_to_number mn mx old s))" by blast+
qed

text \<open>
  Property C22. \<open>StringToInt\<close> accepts exactly the decimal numerals of the range of a 32-bit \<open>int\<close>, a sign or
  none and then digits, and reads their value; everything else is refused: white space around the
  number, an empty text, a number out of range.
\<close>

theorem StringToInt_reads_numerals:
  "fst (StringToInt old s) = (case decimal s of None \<Rightarrow> False | Some v \<Rightarrow> - (2 ^ 31) \<le> v \<and> v < 2 ^ 31)
   \<and> (if fst (StringToInt old s) then decimal s = Some (snd (StringToInt old s)) else True)"
  using string_to_number_decimal[of "- (2 ^ 31)" "2 ^ 31 - 1" old s] unfolding StringToInt_def
  by (auto split: option.splits)

end
