(* ===== verification/JsonReader.thy ===== *)
theory JsonReader
  imports JsonValue HeaderText "HOL-Library.List_Lexorder" "HOL-Library.Char_ord"
begin

text \<open>
  The reader of JSON documents the SDK uses for configurations: \<open>Json::Reader\<close> of
  \<open>libs/json/jsoncpp.cpp\<close> with the default features (comments allowed, any value as the root).

  The cursor \<open>current_\<close> is the list of the characters that are left; a \<open>Location\<close> in a token is the
  token's text. The stack of nodes is the value passed along. What the code records besides the value
  is left out: error messages, offsets and the text of comments. A reader answers \<open>None\<close> when it would
  not return, \<open>Inl\<close> the exception of the stack limit, and otherwise the success, the value (on a
  failure what it built so far) and the rest. Reading a \<open>double\<close> from a stream is the argument \<open>rd\<close>.
\<close>

datatype token_type =
    tokenEndOfStream
  | tokenObjectBegin
  | tokenObjectEnd
  | tokenArrayBegin
  | tokenArrayEnd
  | tokenString
  | tokenNumber
  | tokenTrue
  | tokenFalse
  | tokenNull
  | tokenArraySeparator
  | tokenMemberSeparator
  | tokenComment
  | tokenError

definition stackLimit_g :: nat where "stackLimit_g = 1000"

subsection \<open>Tokens\<close>

definition json_space :: "char \<Rightarrow> bool" where
  "json_space c \<longleftrightarrow> c \<in> {CHR '' '', CHR 0x09, CHR 0x0D, CHR 0x0A}"

definition skipSpaces :: "string \<Rightarrow> string" where
  "skipSpaces s = dropWhile json_space s"

definition getNextChar :: "string \<Rightarrow> char \<times> string" where
  "getNextChar s = (if s = [] then (CHR 0x00, []) else (hd s, tl s))"

definition json_match :: "string \<Rightarrow> string \<Rightarrow> bool \<times> string" where
  "json_match pattern s = (if starts_with pattern s then (True, drop (length pattern) s) else (False, s))"

definition drop_digits :: "string \<Rightarrow> string" where
  "drop_digits s = dropWhile is_digit10 s"

text \<open>The character behind the digits decides; it is not consumed.\<close>

definition readNumber :: "string \<Rightarrow> string" where
  "readNumber s =
     (let s1 = drop_digits s;
          s2 = (if s1 \<noteq> [] \<and> hd s1 = CHR ''.'' then drop_digits (tl s1) else s1)
      in if s2 \<noteq> [] \<and> hd s2 \<in> {CHR ''e'', CHR ''E''}
         then let s3 = tl s2
              in drop_digits (if s3 \<noteq> [] \<and> hd s3 \<in> {CHR ''+'', CHR ''-''} then tl s3 else s3)
         else s2)"

fun readString :: "string \<Rightarrow> bool \<times> string" where
  "readString [] = (False, [])"
| "readString (c # cs) =
     (if c = CHR 0x5C then (case cs of [] \<Rightarrow> (False, []) | _ # ds \<Rightarrow> readString ds)
      else if c = CHR 0x22 then (True, cs)
      else readString cs)"

fun readCStyleComment :: "string \<Rightarrow> bool \<times> string" where
  "readCStyleComment [] = (False, [])"
| "readCStyleComment (c # cs) =
     (if c = CHR ''*'' \<and> cs \<noteq> [] \<and> hd cs = CHR ''/'' then (True, tl cs) else readCStyleComment cs)"

fun readCppStyleComment :: "string \<Rightarrow> string" where
  "readCppStyleComment [] = []"
| "readCppStyleComment (c # cs) =
     (if c = CHR 0x0A then cs
      else if c = CHR 0x0D then (if cs \<noteq> [] \<and> hd cs = CHR 0x0A then tl cs else cs)
      else readCppStyleComment cs)"

definition readComment :: "string \<Rightarrow> bool \<times> string" where
  "readComment s =
     (case getNextChar s of (c, r) \<Rightarrow>
        if c = CHR ''*'' then readCStyleComment r
        else if c = CHR ''/'' then (True, readCppStyleComment r)
        else (False, r))"

definition token_if :: "token_type \<Rightarrow> bool \<times> string \<Rightarrow> token_type \<times> string" where
  "token_if t res = (case res of (ok, r) \<Rightarrow> (if ok then t else tokenError, r))"

text \<open>A token: its type, its text and the rest.\<close>

definition next_token :: "char \<Rightarrow> string \<Rightarrow> token_type \<times> string" where
  "next_token c r =
     (if c = CHR ''{'' then (tokenObjectBegin, r)
      else if c = CHR ''}'' then (tokenObjectEnd, r)
      else if c = CHR ''['' then (tokenArrayBegin, r)
      else if c = CHR '']'' then (tokenArrayEnd, r)
      else if c = CHR 0x22 then token_if tokenString (readString r)
      else if c = CHR ''/'' then token_if tokenComment (readComment r)
      else if is_digit10 c \<or> c = CHR ''-'' then (tokenNumber, readNumber r)
      else if c = CHR ''t'' then token_if tokenTrue (json_match ''rue'' r)
      else if c = CHR ''f'' then token_if tokenFalse (json_match ''alse'' r)
      else if c = CHR ''n'' then token_if tokenNull (json_match ''ull'' r)
      else if c = CHR '','' then (tokenArraySeparator, r)
      else if c = CHR '':'' then (tokenMemberSeparator, r)
      else if c = CHR 0x00 then (tokenEndOfStream, r)
      else (tokenError, r))"

definition readToken :: "string \<Rightarrow> token_type \<times> string \<times> string" where
  "readToken s =
     (let start = skipSpaces s; (c, r) = getNextChar start; (ty, r') = next_token c r
      in (ty, take (length start - length r') start, r'))"

lemma skipSpaces_length: "length (skipSpaces s) \<le> length s"
  by (simp add: skipSpaces_def length_dropWhile_le)

lemma readString_length: "length (snd (readString s)) \<le> length s"
proof (induction s rule: readString.induct)
  case (2 c cs)
  show ?case
  proof (cases cs)
    case Nil
    then show ?thesis by simp
  next
    case (Cons d ds)
    have "c = CHR 0x5C \<Longrightarrow> length (snd (readString ds)) \<le> length ds" using 2(1) Cons by blast
    moreover have "c \<noteq> CHR 0x5C \<Longrightarrow> c \<noteq> CHR 0x22 \<Longrightarrow> length (snd (readString cs)) \<le> length cs" using 2(2) by blast
    moreover have "readString (c # cs) = (if c = CHR 0x5C then readString ds else if c = CHR 0x22 then (True, cs) else readString cs)"
      unfolding Cons by (simp only: readString.simps(2)[of c "d # ds"] list.case)
    ultimately show ?thesis using Cons by (auto simp del: readString.simps intro: le_SucI)
  qed
qed simp

lemma readCStyleComment_length: "length (snd (readCStyleComment s)) \<le> length s"
  by (induction s rule: readCStyleComment.induct) auto

lemma readCppStyleComment_length: "length (readCppStyleComment s) \<le> length s"
  by (induction s rule: readCppStyleComment.induct) auto

lemma readComment_length: "length (snd (readComment s)) \<le> length s"
  using readCStyleComment_length[of "tl s"] readCppStyleComment_length[of "tl s"]
  by (auto simp: readComment_def getNextChar_def)

lemma drop_digits_length: "length (drop_digits s) \<le> length s"
  by (simp add: drop_digits_def length_dropWhile_le)

lemma readNumber_length: "length (readNumber s) \<le> length s"
proof -
  define s1 where "s1 = drop_digits s"
  define s2 where "s2 = (if s1 \<noteq> [] \<and> hd s1 = CHR ''.'' then drop_digits (tl s1) else s1)"
  define s3 where "s3 = tl s2"
  have "length s1 \<le> length s" by (simp add: s1_def drop_digits_length)
  moreover have "length s2 \<le> length s1" using drop_digits_length[of "tl s1"] by (auto simp: s2_def)
  moreover have "length (drop_digits (if s3 \<noteq> [] \<and> hd s3 \<in> {CHR ''+'', CHR ''-''} then tl s3 else s3)) \<le> length s2"
    using drop_digits_length[of "tl s3"] drop_digits_length[of s3] by (auto simp: s3_def)
  ultimately show ?thesis
    unfolding readNumber_def Let_def s1_def[symmetric] s2_def[symmetric] s3_def[symmetric] by auto
qed

lemma json_match_length: "length (snd (json_match p s)) \<le> length s"
  by (simp add: json_match_def)

lemma token_if_rest [simp]: "snd (token_if t res) = snd res"
  by (cases res) (simp add: token_if_def)

lemma next_token_length: "length (snd (next_token c r)) \<le> length r"
  using readString_length[of r] readComment_length[of r] readNumber_length[of r] json_match_length[of _ r]
  by (simp add: next_token_def)

lemma readToken_shorter:
  assumes "readToken s = (ty, tx, r)"
  shows "length r \<le> length s" and "ty \<noteq> tokenEndOfStream \<Longrightarrow> length r < length s"
proof -
  obtain c q where g: "getNextChar (skipSpaces s) = (c, q)" by fastforce
  with assms have r: "next_token c q = (ty, r)" by (auto simp: readToken_def Let_def split: prod.splits)
  have "length r \<le> length q" using next_token_length[of c q] r by simp
  moreover have "length q \<le> length (skipSpaces s)" using g by (auto simp: getNextChar_def split: if_splits)
  ultimately show "length r \<le> length s" using skipSpaces_length[of s] by linarith
  assume "ty \<noteq> tokenEndOfStream"
  then have "skipSpaces s \<noteq> []"
    using g r by (auto simp: getNextChar_def next_token_def is_digit10_def)
  then have "length q < length (skipSpaces s)" using g by (auto simp: getNextChar_def)
  with \<open>length r \<le> length q\<close> show "length r < length s" using skipSpaces_length[of s] by linarith
qed

function skipCommentTokens :: "string \<Rightarrow> token_type \<times> string \<times> string" where
  "skipCommentTokens s =
     (case readToken s of (ty, tx, r) \<Rightarrow> if ty = tokenComment then skipCommentTokens r else (ty, tx, r))"
  by pat_completeness auto
termination by (relation "measure length") (auto dest: readToken_shorter(2)[OF sym])

declare skipCommentTokens.simps [simp del]

function recoverFromError :: "token_type \<Rightarrow> string \<Rightarrow> string" where
  "recoverFromError skip s =
     (case readToken s of (ty, tx, r) \<Rightarrow>
        if ty = skip \<or> ty = tokenEndOfStream then r else recoverFromError skip r)"
  by pat_completeness auto
termination by (relation "measure (length \<circ> snd)") (auto dest: readToken_shorter(2)[OF sym])

declare recoverFromError.simps [simp del]

subsection \<open>Numbers\<close>

text \<open>
  \<open>decodeNumber\<close>: an integer while it fits 64 bits, a \<open>double\<close> otherwise. The negation of the least
  integer is undefined in C++; every compiler gives the value.
\<close>

fun decode_digits :: "(string \<Rightarrow> rat option) \<Rightarrow> string \<Rightarrow> nat \<Rightarrow> nat \<Rightarrow> string \<Rightarrow> nat + rat option" where
  "decode_digits rd text mx value [] = Inl value"
| "decode_digits rd text mx value (c # cs) =
     (if \<not> is_digit10 c then Inr (rd text)
      else if mx div 10 \<le> value
        \<and> (mx div 10 < value \<or> cs \<noteq> [] \<or> mx mod 10 < nat (digit10 c)) then Inr (rd text)
      else decode_digits rd text mx (value * 10 + nat (digit10 c)) cs)"

definition decodeNumber :: "(string \<Rightarrow> rat option) \<Rightarrow> string \<Rightarrow> json option" where
  "decodeNumber rd text =
     (let isNegative = (text \<noteq> [] \<and> hd text = CHR ''-'')
      in case decode_digits rd text (if isNegative then 2 ^ 63 else 2 ^ 64 - 1) 0 (if isNegative then tl text else text) of
           Inl value \<Rightarrow> Some (JInt (if isNegative then - int value else int value))
         | Inr r \<Rightarrow> map_option JReal r)"

subsection \<open>Strings\<close>

definition hex_digit :: "char \<Rightarrow> nat option" where
  "hex_digit c =
     (if is_digit10 c then Some (of_char c - 48)
      else if 97 \<le> (of_char c :: nat) \<and> (of_char c :: nat) \<le> 102 then Some (of_char c - 97 + 10)
      else if 65 \<le> (of_char c :: nat) \<and> (of_char c :: nat) \<le> 70 then Some (of_char c - 65 + 10)
      else None)"

fun hex_number :: "nat \<Rightarrow> string \<Rightarrow> nat option" where
  "hex_number v [] = Some v"
| "hex_number v (c # cs) = (case hex_digit c of None \<Rightarrow> None | Some d \<Rightarrow> hex_number (v * 16 + d) cs)"

definition decodeUnicodeEscapeSequence :: "string \<Rightarrow> (nat \<times> string) option" where
  "decodeUnicodeEscapeSequence s =
     (if length s < 4 then None else map_option (\<lambda>v. (v, drop 4 s)) (hex_number 0 (take 4 s)))"

definition decodeUnicodeCodePoint :: "string \<Rightarrow> (nat \<times> string) option" where
  "decodeUnicodeCodePoint s =
     (case decodeUnicodeEscapeSequence s of None \<Rightarrow> None
      | Some (unicode, r) \<Rightarrow>
        if 0xD800 \<le> unicode \<and> unicode \<le> 0xDBFF
        then if length r < 6 then None
             else if hd r = CHR 0x5C \<and> hd (tl r) = CHR ''u''
             then case decodeUnicodeEscapeSequence (tl (tl r)) of None \<Rightarrow> None
               | Some (pair, r') \<Rightarrow> Some (0x10000 + (unicode mod 0x400) * 0x400 + pair mod 0x400, r')
             else None
        else Some (unicode, r))"

definition codePointToUTF8 :: "nat \<Rightarrow> string" where
  "codePointToUTF8 cp =
     (if cp \<le> 0x7F then [char_of cp]
      else if cp \<le> 0x7FF then [char_of (0xC0 + cp div 0x40 mod 0x20), char_of (0x80 + cp mod 0x40)]
      else if cp \<le> 0xFFFF
      then [char_of (0xE0 + cp div 0x1000 mod 0x10), char_of (0x80 + cp div 0x40 mod 0x40), char_of (0x80 + cp mod 0x40)]
      else if cp \<le> 0x10FFFF
      then [char_of (0xF0 + cp div 0x40000 mod 8), char_of (0x80 + cp div 0x1000 mod 0x40),
            char_of (0x80 + cp div 0x40 mod 0x40), char_of (0x80 + cp mod 0x40)]
      else [])"

text \<open>The characters an escape other than \<open>\u\<close> stands for.\<close>

definition simple_escape :: "char \<Rightarrow> char option" where
  "simple_escape c =
     (if c = CHR 0x22 then Some (CHR 0x22) else if c = CHR ''/'' then Some (CHR ''/'')
      else if c = CHR 0x5C then Some (CHR 0x5C) else if c = CHR ''b'' then Some (CHR 0x08)
      else if c = CHR ''f'' then Some (CHR 0x0C) else if c = CHR ''n'' then Some (CHR 0x0A)
      else if c = CHR ''r'' then Some (CHR 0x0D) else if c = CHR ''t'' then Some (CHR 0x09) else None)"

lemma decodeUnicodeEscapeSequence_shorter:
  "decodeUnicodeEscapeSequence s = Some (v, r) \<Longrightarrow> length r < length s"
  by (cases s) (auto simp: decodeUnicodeEscapeSequence_def split: if_splits)

lemma decodeUnicodeCodePoint_shorter: "decodeUnicodeCodePoint s = Some (v, r) \<Longrightarrow> length r < length s"
proof -
  assume d: "decodeUnicodeCodePoint s = Some (v, r)"
  then obtain u q where q: "decodeUnicodeEscapeSequence s = Some (u, q)" by (auto simp: decodeUnicodeCodePoint_def split: option.splits)
  have "length r \<le> length q"
  proof (cases "0xD800 \<le> u \<and> u \<le> 0xDBFF")
    case True
    with d q obtain p where "decodeUnicodeEscapeSequence (tl (tl q)) = Some (p, r)"
      by (auto simp: decodeUnicodeCodePoint_def split: option.splits if_splits)
    from decodeUnicodeEscapeSequence_shorter[OF this] show ?thesis by simp
  next
    case False
    with d q show ?thesis by (auto simp: decodeUnicodeCodePoint_def)
  qed
  with decodeUnicodeEscapeSequence_shorter[OF q] show ?thesis by linarith
qed

text \<open>\<open>decodeString\<close> on the characters between the quotes.\<close>

function decode_chars :: "string \<Rightarrow> string option" where
  "decode_chars [] = Some []"
| "decode_chars (c # cs) =
     (if c = CHR 0x22 then Some []
      else if c = CHR 0x5C
      then (case cs of [] \<Rightarrow> None
            | e # ds \<Rightarrow>
              (if e = CHR ''u''
               then (case decodeUnicodeCodePoint ds of None \<Rightarrow> None
                     | Some (cp, r) \<Rightarrow> map_option ((@) (codePointToUTF8 cp)) (decode_chars r))
               else (case simple_escape e of None \<Rightarrow> None | Some x \<Rightarrow> map_option ((#) x) (decode_chars ds))))
      else map_option ((#) c) (decode_chars cs))"
  by pat_completeness auto
termination by (relation "measure length") (auto dest: decodeUnicodeCodePoint_shorter)

definition decodeString :: "string \<Rightarrow> string option" where
  "decodeString text = decode_chars (butlast (tl text))"

subsection \<open>Values\<close>

type_synonym reading_result = "(fault + bool \<times> json \<times> string) option"

text \<open>Members are kept in the order of their names, as in the \<open>std::map\<close> of the code.\<close>

fun set_member :: "string \<Rightarrow> json \<Rightarrow> (string \<times> json) list \<Rightarrow> (string \<times> json) list" where
  "set_member k v [] = [(k, v)]"
| "set_member k v ((k', v') # ms) =
     (if k = k' then (k, v) # ms else if k < k' then (k, v) # (k', v') # ms else (k', v') # set_member k v ms)"

definition failed :: "token_type \<Rightarrow> json \<Rightarrow> string \<Rightarrow> reading_result" where
  "failed skip v s = Some (Inr (False, v, recoverFromError skip s))"

partial_function (option) array_loop ::
  "(json \<Rightarrow> string \<Rightarrow> reading_result) \<Rightarrow> json list \<Rightarrow> string \<Rightarrow> reading_result" where
  "array_loop rv xs s =
     (case rv JNull s of None \<Rightarrow> None
      | Some (Inl e) \<Rightarrow> Some (Inl e)
      | Some (Inr (ok, v, r)) \<Rightarrow>
        if \<not> ok then failed tokenArrayEnd (JArray (xs @ [v])) r
        else (case skipCommentTokens r of (ty, tx, r2) \<Rightarrow>
          if ty \<notin> {tokenArraySeparator, tokenArrayEnd} then failed tokenArrayEnd (JArray (xs @ [v])) r2
          else if ty = tokenArrayEnd then Some (Inr (True, JArray (xs @ [v]), r2))
          else array_loop rv (xs @ [v]) r2))"

definition readArray :: "(json \<Rightarrow> string \<Rightarrow> reading_result) \<Rightarrow> string \<Rightarrow> reading_result" where
  "readArray rv s =
     (let s1 = skipSpaces s
      in if s1 \<noteq> [] \<and> hd s1 = CHR '']'' then (case readToken s1 of (ty, tx, r) \<Rightarrow> Some (Inr (True, JArray [], r)))
         else array_loop rv [] s1)"

text \<open>
  One member of an object: its name, the colon, its value, and what follows. The answer is the
  result of the object, or the name, the members and the rest with which the loop goes on.
\<close>

definition read_member ::
  "(json \<Rightarrow> string \<Rightarrow> reading_result) \<Rightarrow> string \<Rightarrow> (string \<times> json) list \<Rightarrow> string \<Rightarrow>
     (reading_result + string \<times> (string \<times> json) list \<times> string)" where
  "read_member rv name ms s =
     (case skipCommentTokens s of (ty, tx, r) \<Rightarrow>
        if ty = tokenObjectEnd \<and> name = [] then Inl (Some (Inr (True, JObject ms, r)))
        else if ty \<noteq> tokenString then Inl (failed tokenObjectEnd (JObject ms) r)
        else case decodeString tx of None \<Rightarrow> Inl (failed tokenObjectEnd (JObject ms) r)
        | Some nm \<Rightarrow>
          (case readToken r of (ty2, tx2, r2) \<Rightarrow>
            if ty2 \<noteq> tokenMemberSeparator then Inl (failed tokenObjectEnd (JObject ms) r2)
            else case rv (case map_of ms nm of None \<Rightarrow> JNull | Some v \<Rightarrow> v) r2 of
              None \<Rightarrow> Inl None
            | Some (Inl e) \<Rightarrow> Inl (Some (Inl e))
            | Some (Inr (ok, v, r3)) \<Rightarrow>
              if \<not> ok then Inl (failed tokenObjectEnd (JObject (set_member nm v ms)) r3)
              else (case readToken r3 of (ty4, tx4, r4) \<Rightarrow>
                if ty4 \<notin> {tokenObjectEnd, tokenArraySeparator, tokenComment}
                then Inl (failed tokenObjectEnd (JObject (set_member nm v ms)) r4)
                else (case (if ty4 = tokenComment then skipCommentTokens r4 else (ty4, tx4, r4)) of (ty5, tx5, r5) \<Rightarrow>
                  if ty5 = tokenObjectEnd then Inl (Some (Inr (True, JObject (set_member nm v ms), r5)))
                  else Inr (nm, set_member nm v ms, r5)))))"

partial_function (option) object_loop ::
  "(json \<Rightarrow> string \<Rightarrow> reading_result) \<Rightarrow> string \<Rightarrow> (string \<times> json) list \<Rightarrow> string \<Rightarrow> reading_result" where
  "object_loop rv name ms s =
     (case read_member rv name ms s of Inl res \<Rightarrow> res | Inr (nm, ms', r) \<Rightarrow> object_loop rv nm ms' r)"

definition readObject :: "(json \<Rightarrow> string \<Rightarrow> reading_result) \<Rightarrow> string \<Rightarrow> reading_result" where
  "readObject rv s = object_loop rv [] [] s"

text \<open>
  \<open>readValue\<close> with the number of levels that are left below the stack limit; \<open>old\<close> is the value that is
  being overwritten.
\<close>

fun readValue :: "(string \<Rightarrow> rat option) \<Rightarrow> nat \<Rightarrow> json \<Rightarrow> string \<Rightarrow> reading_result" where
  "readValue rd 0 old s = Some (Inl (Thrown ''Exceeded stackLimit in readValue().''))"
| "readValue rd (Suc levels) old s =
     (case skipCommentTokens s of (ty, tx, r) \<Rightarrow>
        if ty = tokenObjectBegin then readObject (readValue rd levels) r
        else if ty = tokenArrayBegin then readArray (readValue rd levels) r
        else if ty = tokenNumber
        then Some (Inr (case decodeNumber rd tx of None \<Rightarrow> (False, old, r) | Some v \<Rightarrow> (True, v, r)))
        else if ty = tokenString
        then Some (Inr (case decodeString tx of None \<Rightarrow> (False, old, r) | Some t \<Rightarrow> (True, JString t, r)))
        else if ty = tokenTrue then Some (Inr (True, JBool True, r))
        else if ty = tokenFalse then Some (Inr (True, JBool False, r))
        else if ty = tokenNull then Some (Inr (True, JNull, r))
        else Some (Inr (False, old, r)))"

text \<open>\<open>parse\<close>: what follows the value is not looked at.\<close>

definition parse_json :: "(string \<Rightarrow> rat option) \<Rightarrow> json \<Rightarrow> string \<Rightarrow> (fault + bool \<times> json) option" where
  "parse_json rd old document =
     map_option (\<lambda>res. case res of Inl e \<Rightarrow> Inl e | Inr (ok, v, r) \<Rightarrow> Inr (ok, v)) (readValue rd stackLimit_g old document)"

subsection \<open>The reader returns\<close>

definition advances :: "(json \<Rightarrow> string \<Rightarrow> reading_result) \<Rightarrow> bool" where
  "advances rv \<longleftrightarrow> (\<forall>v s. \<exists>res. rv v s = Some res \<and> (\<forall>v' r. res = Inr (True, v', r) \<longrightarrow> length r < length s))"

lemma skipCommentTokens_shorter:
  assumes "skipCommentTokens s = (ty, tx, r)"
  shows "length r \<le> length s \<and> (ty \<noteq> tokenEndOfStream \<longrightarrow> length r < length s)"
  using assms
proof (induction s rule: skipCommentTokens.induct)
  case (1 s)
  obtain ty1 tx1 r1 where t: "readToken s = (ty1, tx1, r1)" by (metis prod.exhaust)
  show ?case
  proof (cases "ty1 = tokenComment")
    case True
    with 1(2) t have "skipCommentTokens r1 = (ty, tx, r)" by (simp add: skipCommentTokens.simps[of s])
    from 1(1)[OF t[symmetric] refl True this] readToken_shorter[OF t] True show ?thesis by auto
  next
    case False
    with 1(2) t have "ty1 = ty" "r1 = r" by (simp_all add: skipCommentTokens.simps[of s])
    with readToken_shorter[OF t] show ?thesis by auto
  qed
qed

lemma failed_total: "\<exists>res. failed t v s = Some res \<and> (\<forall>v' r. res \<noteq> Inr (True, v', r))"
  by (simp add: failed_def)

lemma array_loop_total:
  assumes "advances rv"
  shows "\<exists>res. array_loop rv xs s = Some res \<and> (\<forall>v' r. res = Inr (True, v', r) \<longrightarrow> length r < length s)"
proof (induction "length s" arbitrary: xs s rule: less_induct)
  case less
  from assms obtain res where res: "rv JNull s = Some res" "\<And>v' r. res = Inr (True, v', r) \<Longrightarrow> length r < length s"
    unfolding advances_def by meson
  show ?case
  proof (cases res)
    case (Inl e)
    then show ?thesis by (simp add: array_loop.simps[of rv xs s] res(1))
  next
    case (Inr q)
    obtain ok v r where q: "q = (ok, v, r)" by (cases q)
    show ?thesis
    proof (cases ok)
      case False
      then show ?thesis using failed_total[of tokenArrayEnd "JArray (xs @ [v])" r]
        by (auto simp: array_loop.simps[of rv xs s] res(1) Inr q)
    next
      case True
      then have lt: "length r < length s" using res(2) Inr q by simp
      obtain ty tx r2 where t: "skipCommentTokens r = (ty, tx, r2)" by (metis prod.exhaust)
      have le: "length r2 \<le> length r" using skipCommentTokens_shorter[OF t] by blast
      have step: "array_loop rv xs s =
        (if ty \<notin> {tokenArraySeparator, tokenArrayEnd} then failed tokenArrayEnd (JArray (xs @ [v])) r2
         else if ty = tokenArrayEnd then Some (Inr (True, JArray (xs @ [v]), r2))
         else array_loop rv (xs @ [v]) r2)"
        using True by (simp add: array_loop.simps[of rv xs s] res(1) Inr q t)
      have again: "\<exists>res. array_loop rv (xs @ [v]) r2 = Some res \<and> (\<forall>v' r. res = Inr (True, v', r) \<longrightarrow> length r < length r2)"
        using less.hyps[of r2 "xs @ [v]"] lt le by simp
      have fail: "\<exists>res. failed tokenArrayEnd (JArray (xs @ [v])) r2 = Some res \<and> (\<forall>v' r. res = Inr (True, v', r) \<longrightarrow> length r < length s)"
        using failed_total by blast
      from again have "\<exists>res. array_loop rv (xs @ [v]) r2 = Some res \<and> (\<forall>v' r. res = Inr (True, v', r) \<longrightarrow> length r < length s)"
        using lt le by fastforce
      then show ?thesis unfolding step using fail lt le by simp
    qed
  qed
qed

lemma read_member_total:
  assumes "advances rv"
  shows "case read_member rv name ms s of
      Inl res \<Rightarrow> \<exists>res'. res = Some res' \<and> (\<forall>v' r. res' = Inr (True, v', r) \<longrightarrow> length r < length s)
    | Inr (nm, ms', r) \<Rightarrow> length r < length s"
proof -
  obtain ty tx r where t: "skipCommentTokens s = (ty, tx, r)" by (metis prod.exhaust)
  note s1 = skipCommentTokens_shorter[OF t]
  show ?thesis
  proof (cases "ty = tokenString \<and> decodeString tx \<noteq> None")
    case False
    then show ?thesis using s1 by (auto simp: read_member_def t failed_def)
  next
    case True
    then obtain nm where nm: "ty = tokenString" "decodeString tx = Some nm" by auto
    obtain ty2 tx2 r2 where t2: "readToken r = (ty2, tx2, r2)" by (metis prod.exhaust)
    note s2 = readToken_shorter[OF t2]
    define old where "old = (case map_of ms nm of None \<Rightarrow> JNull | Some v \<Rightarrow> v)"
    from assms obtain res where res: "rv old r2 = Some res" "\<And>v' r. res = Inr (True, v', r) \<Longrightarrow> length r < length r2"
      unfolding advances_def by meson
    have s0: "length r < length s" using s1 nm(1) by simp
    show ?thesis
    proof (cases "ty2 = tokenMemberSeparator")
      case False
      then show ?thesis using nm by (simp add: read_member_def t t2 failed_def)
    next
      case sep: True
      show ?thesis
      proof (cases res)
        case (Inl e)
        then show ?thesis using nm sep by (simp add: read_member_def t t2 res(1)[unfolded old_def])
      next
        case (Inr q)
        obtain ok v r3 where q: "q = (ok, v, r3)" by (cases q)
        obtain ty4 tx4 r4 where t4: "readToken r3 = (ty4, tx4, r4)" by (metis prod.exhaust)
        obtain ty5 tx5 r5 where t5: "(if ty4 = tokenComment then skipCommentTokens r4 else (ty4, tx4, r4)) = (ty5, tx5, r5)"
          by (metis prod.exhaust)
        have s5: "length r5 \<le> length r4" using skipCommentTokens_shorter t5 by (fastforce split: if_splits)
        have s4: "length r4 \<le> length r3" using readToken_shorter(1)[OF t4] .
        have s3: "ok \<Longrightarrow> length r3 < length r2" using res(2) Inr q by simp
        have end_: "ok \<Longrightarrow> length r5 < length s" using s5 s4 s3 s0 s2(1) by linarith
        have "read_member rv name ms s =
          (if \<not> ok then Inl (failed tokenObjectEnd (JObject (set_member nm v ms)) r3)
           else if ty4 \<notin> {tokenObjectEnd, tokenArraySeparator, tokenComment}
           then Inl (failed tokenObjectEnd (JObject (set_member nm v ms)) r4)
           else if ty5 = tokenObjectEnd then Inl (Some (Inr (True, JObject (set_member nm v ms), r5)))
           else Inr (nm, set_member nm v ms, r5))"
          using nm sep
          by (simp only: read_member_def t t2 t4 t5 res(1)[unfolded old_def] Inr q prod.case option.case sum.case
              token_type.distinct simp_thms if_True if_False)
        then show ?thesis using end_ by (simp add: failed_def)
      qed
    qed
  qed
qed

lemma object_loop_total:
  assumes "advances rv"
  shows "\<exists>res. object_loop rv name ms s = Some res \<and> (\<forall>v' r. res = Inr (True, v', r) \<longrightarrow> length r < length s)"
proof (induction "length s" arbitrary: name ms s rule: less_induct)
  case less
  show ?case
  proof (cases "read_member rv name ms s")
    case (Inl res)
    with read_member_total[OF assms, where name = name and ms = ms and s = s] show ?thesis by (auto simp: object_loop.simps[of rv name ms s])
  next
    case (Inr q)
    obtain nm ms' r where q: "q = (nm, ms', r)" by (cases q)
    have "length r < length s" using read_member_total[OF assms, where name = name and ms = ms and s = s] by (simp add: Inr q)
    with less.hyps[OF this, of nm ms'] show ?thesis by (auto simp: object_loop.simps[of rv name ms s] Inr q)
  qed
qed

lemma readArray_total:
  assumes "advances rv"
  shows "\<exists>res. readArray rv s = Some res \<and> (\<forall>v' r. res = Inr (True, v', r) \<longrightarrow> length r \<le> length s)"
proof (cases "skipSpaces s \<noteq> [] \<and> hd (skipSpaces s) = CHR '']''")
  case True
  obtain ty tx r where t: "readToken (skipSpaces s) = (ty, tx, r)" by (metis prod.exhaust)
  with True readToken_shorter(1)[OF t] skipSpaces_length[of s] show ?thesis by (simp add: readArray_def)
next
  case False
  then show ?thesis using array_loop_total[OF assms, of "[]" "skipSpaces s"] skipSpaces_length[of s]
    by (fastforce simp: readArray_def Let_def)
qed

lemma readValue_total: "advances (readValue rd levels)"
proof (induction levels)
  case 0
  then show ?case by (simp add: advances_def)
next
  case (Suc levels)
  show ?case
    unfolding advances_def
  proof (intro allI)
    fix old s
    obtain ty tx r where t: "skipCommentTokens s = (ty, tx, r)" by (metis prod.exhaust)
    note sh = skipCommentTokens_shorter[OF t]
    show "\<exists>res. readValue rd (Suc levels) old s = Some res \<and> (\<forall>v' r. res = Inr (True, v', r) \<longrightarrow> length r < length s)"
    proof (cases "ty = tokenObjectBegin \<or> ty = tokenArrayBegin")
      case True
      then have "length r < length s" using sh by auto
      then show ?thesis
        using True object_loop_total[OF Suc, of "[]" "[]" r] readArray_total[OF Suc, of r]
        by (fastforce simp: t readObject_def)
    next
      case False
      then show ?thesis using sh by (auto simp: t split: option.splits)
    qed
  qed
qed

lemma parse_json_total: "\<exists>res. parse_json rd old document = Some res"
  using readValue_total[of rd stackLimit_g] unfolding advances_def parse_json_def by (metis option.simps(9))

end
