(* ===== verification/JsonWriter.thy ===== *)
theory JsonWriter
  imports JsonReader
begin

text \<open>
  The writer of JSON documents the SDK uses for its reports: \<open>Json::StyledWriter\<close> of
  \<open>libs/json/jsoncpp.cpp\<close>. Values carry no comments here. An \<open>assert\<close> of the code is a fault; the round
  trip shows that none fires.
\<close>

record styled_writer =
  document :: string
  indentString :: string
  childValues :: "string list"
  addChildValues :: bool

definition rightMargin :: nat where "rightMargin = 74"
definition indentSize :: nat where "indentSize = 3"

definition StyledWriter_new :: styled_writer where
  "StyledWriter_new = \<lparr>document = [], indentString = [], childValues = [], addChildValues = False\<rparr>"

subsection \<open>Strings\<close>

definition isControlCharacter :: "char \<Rightarrow> bool" where
  "isControlCharacter c \<longleftrightarrow> 0 < (of_char c :: nat) \<and> (of_char c :: nat) \<le> 0x1F"

definition hex_upper :: "nat \<Rightarrow> char" where
  "hex_upper d = (if d < 10 then char_of (48 + d) else char_of (65 + (d - 10)))"

definition unicode_escape :: "char \<Rightarrow> string" where
  "unicode_escape c = [CHR 0x5C, CHR ''u'', CHR ''0'', CHR ''0'', hex_upper (of_char c div 16), hex_upper (of_char c mod 16)]"

definition escaped :: "bool \<Rightarrow> char \<Rightarrow> string" where
  "escaped nul c =
     (if c = CHR 0x22 then [CHR 0x5C, CHR 0x22]
      else if c = CHR 0x5C then [CHR 0x5C, CHR 0x5C]
      else if c = CHR 0x08 then [CHR 0x5C, CHR ''b'']
      else if c = CHR 0x0C then [CHR 0x5C, CHR ''f'']
      else if c = CHR 0x0A then [CHR 0x5C, CHR ''n'']
      else if c = CHR 0x0D then [CHR 0x5C, CHR ''r'']
      else if c = CHR 0x09 then [CHR 0x5C, CHR ''t'']
      else if isControlCharacter c \<or> nul \<and> c = CHR 0x00 then unicode_escape c
      else [c])"

definition needs_escape :: "bool \<Rightarrow> char \<Rightarrow> bool" where
  "needs_escape nul c \<longleftrightarrow>
     c \<in> {CHR 0x22, CHR 0x5C, CHR 0x08, CHR 0x0C, CHR 0x0A, CHR 0x0D, CHR 0x09} \<or> isControlCharacter c \<or> nul \<and> c = CHR 0x00"

definition valueToQuotedStringN :: "string \<Rightarrow> string" where
  "valueToQuotedStringN s =
     (if \<not> list_ex (needs_escape True) s then [CHR 0x22] @ s @ [CHR 0x22]
      else [CHR 0x22] @ concat (map (escaped True) s) @ [CHR 0x22])"

text \<open>The names of members go through the zero-terminated view.\<close>

definition valueToQuotedString :: "string \<Rightarrow> string" where
  "valueToQuotedString name =
     (let s = c_str name
      in if \<not> list_ex (needs_escape False) s then [CHR 0x22] @ s @ [CHR 0x22]
         else [CHR 0x22] @ concat (map (escaped False) s) @ [CHR 0x22])"

subsection \<open>Layout\<close>

definition append_text :: "string \<Rightarrow> styled_writer \<Rightarrow> styled_writer" where
  "append_text t w = w\<lparr>document := document w @ t\<rparr>"

definition pushValue :: "string \<Rightarrow> styled_writer \<Rightarrow> styled_writer" where
  "pushValue t w = (if addChildValues w then w\<lparr>childValues := childValues w @ [t]\<rparr> else append_text t w)"

definition writeIndent :: "styled_writer \<Rightarrow> styled_writer" where
  "writeIndent w =
     (if document w = [] then append_text (indentString w) w
      else if last (document w) = CHR '' '' then w
      else append_text (indentString w) (if last (document w) \<noteq> CHR 0x0A then append_text [CHR 0x0A] w else w))"

definition writeWithIndent :: "string \<Rightarrow> styled_writer \<Rightarrow> styled_writer" where
  "writeWithIndent t w = append_text t (writeIndent w)"

definition indent :: "styled_writer \<Rightarrow> styled_writer" where
  "indent w = w\<lparr>indentString := indentString w @ replicate indentSize (CHR '' '')\<rparr>"

definition unindent :: "styled_writer \<Rightarrow> fault + styled_writer" where
  "unindent w =
     (if length (indentString w) < indentSize then Inl AssertFailed
      else Inr (w\<lparr>indentString := take (length (indentString w) - indentSize) (indentString w)\<rparr>))"

subsection \<open>Values\<close>

text \<open>
  The loops take the method that writes a child as the argument \<open>wv\<close>; the congruence rules tell the
  recursion of \<open>writeValue\<close> that it is applied to the children only.
\<close>

primrec push_children ::
  "(json \<Rightarrow> styled_writer \<Rightarrow> fault + styled_writer) \<Rightarrow> json list \<Rightarrow> styled_writer \<Rightarrow> fault + styled_writer" where
  "push_children wv [] w = Inr w"
| "push_children wv (x # xs) w = and_then (wv x w) (push_children wv xs)"

definition nonempty_container :: "json \<Rightarrow> bool" where
  "nonempty_container v = (case v of JArray xs \<Rightarrow> xs \<noteq> [] | JObject ms \<Rightarrow> ms \<noteq> [] | _ \<Rightarrow> False)"

definition isMultineArray ::
  "(json \<Rightarrow> styled_writer \<Rightarrow> fault + styled_writer) \<Rightarrow> json list \<Rightarrow> styled_writer \<Rightarrow> fault + bool \<times> styled_writer" where
  "isMultineArray wv xs w =
     (let w1 = w\<lparr>childValues := []\<rparr>
      in if rightMargin \<le> length xs * 3 \<or> list_ex nonempty_container xs then Inr (True, w1)
         else and_then (push_children wv xs (w1\<lparr>addChildValues := True\<rparr>)) (\<lambda>w2.
           if length (childValues w2) < length xs then Inl UndefinedBehaviour
           else Inr (rightMargin \<le> 4 + (length xs - 1) * 2 + sum_list (map length (take (length xs) (childValues w2))),
                     w2\<lparr>addChildValues := False\<rparr>)))"

primrec element_loop ::
  "(json \<Rightarrow> styled_writer \<Rightarrow> fault + styled_writer) \<Rightarrow> bool \<Rightarrow> nat \<Rightarrow> json list \<Rightarrow> styled_writer \<Rightarrow> fault + styled_writer" where
  "element_loop wv hasChildValue i [] w = Inr w"
| "element_loop wv hasChildValue i (x # xs) w =
     and_then (if hasChildValue
               then if i < length (childValues w) then Inr (writeWithIndent (childValues w ! i) w) else Inl UndefinedBehaviour
               else wv x (writeIndent w))
       (\<lambda>w1. element_loop wv hasChildValue (i + 1) xs (if xs = [] then w1 else append_text '','' w1))"

definition join_with :: "string \<Rightarrow> string list \<Rightarrow> string" where
  "join_with sep ts = (case ts of [] \<Rightarrow> [] | t # us \<Rightarrow> t @ concat (map ((@) sep) us))"

definition writeArrayValue ::
  "(json \<Rightarrow> styled_writer \<Rightarrow> fault + styled_writer) \<Rightarrow> json list \<Rightarrow> styled_writer \<Rightarrow> fault + styled_writer" where
  "writeArrayValue wv xs w =
     (if xs = [] then Inr (pushValue ''[]'' w)
      else and_then (isMultineArray wv xs w) (\<lambda>(multi, w1).
        if multi
        then and_then (element_loop wv (childValues w1 \<noteq> []) 0 xs (indent (writeWithIndent ''['' w1))) (\<lambda>w2.
             and_then (unindent w2) (\<lambda>w3. Inr (writeWithIndent '']'' w3)))
        else if length (childValues w1) \<noteq> length xs then Inl AssertFailed
        else Inr (append_text (''[ '' @ join_with '', '' (childValues w1) @ '' ]'') w1)))"

primrec member_loop ::
  "(json \<Rightarrow> styled_writer \<Rightarrow> fault + styled_writer) \<Rightarrow> (string \<times> json) list \<Rightarrow> styled_writer \<Rightarrow> fault + styled_writer" where
  "member_loop wv [] w = Inr w"
| "member_loop wv (m # ms) w =
     and_then (wv (snd m) (append_text '' : '' (writeWithIndent (valueToQuotedString (fst m)) w)))
       (\<lambda>w1. member_loop wv ms (if ms = [] then w1 else append_text '','' w1))"

definition writeObject ::
  "(json \<Rightarrow> styled_writer \<Rightarrow> fault + styled_writer) \<Rightarrow> (string \<times> json) list \<Rightarrow> styled_writer \<Rightarrow> fault + styled_writer" where
  "writeObject wv ms w =
     (if ms = [] then Inr (pushValue ''{}'' w)
      else and_then (member_loop wv ms (indent (writeWithIndent ''{'' w))) (\<lambda>w1.
           and_then (unindent w1) (\<lambda>w2. Inr (writeWithIndent ''}'' w2))))"

lemma push_children_cong [fundef_cong]:
  "xs = ys \<Longrightarrow> w = w' \<Longrightarrow> (\<And>x u. x \<in> set ys \<Longrightarrow> f x u = g x u) \<Longrightarrow> push_children f xs w = push_children g ys w'"
proof (induction xs arbitrary: ys w w')
  case (Cons x xs)
  then have "f x w = g x w" "\<And>u. push_children f xs u = push_children g xs u" by auto
  then have "push_children f xs = push_children g xs" by blast
  with Cons.prems \<open>f x w = g x w\<close> show ?case by auto
qed simp

lemma isMultineArray_cong:
  "(\<And>x u. x \<in> set xs \<Longrightarrow> f x u = g x u) \<Longrightarrow> isMultineArray f xs w = isMultineArray g xs w"
  by (simp add: isMultineArray_def push_children_cong[of xs xs _ _ f g] Let_def cong: push_children_cong)

lemma element_loop_cong:
  "(\<And>x u. x \<in> set xs \<Longrightarrow> f x u = g x u) \<Longrightarrow> element_loop f h i xs w = element_loop g h i xs w"
proof (induction xs arbitrary: i w)
  case (Cons x xs)
  have "element_loop f h (i + 1) xs u = element_loop g h (i + 1) xs u" for u
    using Cons by (metis list.set_intros(2))
  then show ?case using Cons.prems[of x] by simp
qed simp

lemma writeArrayValue_cong [fundef_cong]:
  "xs = ys \<Longrightarrow> w = w' \<Longrightarrow> (\<And>x u. x \<in> set ys \<Longrightarrow> f x u = g x u) \<Longrightarrow> writeArrayValue f xs w = writeArrayValue g ys w'"
  using isMultineArray_cong[of ys f g] element_loop_cong[of ys f g]
  by (simp add: writeArrayValue_def cong: if_cong)

lemma member_loop_cong:
  "(\<And>m u. m \<in> set ms \<Longrightarrow> f (snd m) u = g (snd m) u) \<Longrightarrow> member_loop f ms w = member_loop g ms w"
proof (induction ms arbitrary: w)
  case (Cons m ms)
  have "member_loop f ms u = member_loop g ms u" for u using Cons by (metis list.set_intros(2))
  then show ?case using Cons.prems[of m] by simp
qed simp

lemma writeObject_cong [fundef_cong]:
  "ms = ns \<Longrightarrow> w = w' \<Longrightarrow> (\<And>m u. m \<in> set ns \<Longrightarrow> f (snd m) u = g (snd m) u) \<Longrightarrow> writeObject f ms w = writeObject g ns w'"
  using member_loop_cong[of ns f g] by (simp add: writeObject_def)

lemma json_member_smaller: "m \<in> set ms \<Longrightarrow> size (snd m) < Suc (size_list (size_prod (\<lambda>x. 0) size) ms)"
  using size_list_estimation[of m ms "size (snd m)" "size_prod (\<lambda>x. 0) size"] by (cases m) auto

function writeValue :: "(rat \<Rightarrow> string) \<Rightarrow> json \<Rightarrow> styled_writer \<Rightarrow> fault + styled_writer" where
  "writeValue g17 JNull w = Inr (pushValue ''null'' w)"
| "writeValue g17 (JInt i) w = Inr (pushValue (int_to_string i) w)"
| "writeValue g17 (JReal x) w = Inr (pushValue (g17 x) w)"
| "writeValue g17 (JString s) w = Inr (pushValue (valueToQuotedStringN s) w)"
| "writeValue g17 (JBool b) w = Inr (pushValue (if b then ''true'' else ''false'') w)"
| "writeValue g17 (JArray xs) w = writeArrayValue (writeValue g17) xs w"
| "writeValue g17 (JObject ms) w = writeObject (writeValue g17) ms w"
  by pat_completeness auto
termination
proof (relation "measure (\<lambda>(g17, v, w). size v)", goal_cases)
  case (3 g17 ms w m u)
  then show ?case using json_member_smaller[of m ms] by simp
qed (auto simp: size_list_estimation less_Suc_eq_le size_list_estimation')

definition write_json :: "(rat \<Rightarrow> string) \<Rightarrow> json \<Rightarrow> fault + string" where
  "write_json g17 v = and_then (writeValue g17 v StyledWriter_new) (\<lambda>w. Inr (document w @ [CHR 0x0A]))"

end
