(* ===== verification/JsonRoundTrip.thy ===== *)
theory JsonRoundTrip
  imports JsonWriter
begin

text \<open>
  What the writer writes, the reader reads back. Between the two stands a grammar, \<open>spells\<close>: the texts
  of a value with blanks between the tokens. The writer gives such a text, and the reader gives the
  value for every such text.
\<close>

subsection \<open>Texts of a value\<close>

definition blanks :: "string \<Rightarrow> bool" where
  "blanks a \<longleftrightarrow> set a \<subseteq> {CHR '' '', CHR 0x0A}"

inductive spells :: "json \<Rightarrow> string \<Rightarrow> bool"
  and spells_elements :: "json list \<Rightarrow> string \<Rightarrow> bool"
  and spells_members :: "(string \<times> json) list \<Rightarrow> string \<Rightarrow> bool"
where
  null: "spells JNull ''null''"
| bool: "spells (JBool b) (if b then ''true'' else ''false'')"
| int: "spells (JInt i) (int_to_string i)"
| string: "spells (JString s) (valueToQuotedStringN s)"
| no_elements: "spells (JArray []) ''[]''"
| elements: "spells_elements xs t \<Longrightarrow> spells (JArray xs) (''['' @ t @ '']'')"
| no_members: "spells (JObject []) ''{}''"
| members: "spells_members ms t \<Longrightarrow> spells (JObject ms) (''{'' @ t @ ''}'')"
| last_element: "spells x t \<Longrightarrow> blanks a \<Longrightarrow> blanks b \<Longrightarrow> spells_elements [x] (a @ t @ b)"
| element: "spells x t \<Longrightarrow> blanks a \<Longrightarrow> blanks b \<Longrightarrow> spells_elements xs u \<Longrightarrow> spells_elements (x # xs) (a @ t @ b @ '','' @ u)"
| last_member: "spells x t \<Longrightarrow> blanks a \<Longrightarrow> blanks b \<Longrightarrow> blanks c \<Longrightarrow> blanks d \<Longrightarrow>
    spells_members [(k, x)] (a @ valueToQuotedString k @ b @ '':'' @ c @ t @ d)"
| member: "spells x t \<Longrightarrow> blanks a \<Longrightarrow> blanks b \<Longrightarrow> blanks c \<Longrightarrow> blanks d \<Longrightarrow> spells_members ms u \<Longrightarrow>
    spells_members ((k, x) # ms) (a @ valueToQuotedString k @ b @ '':'' @ c @ t @ d @ '','' @ u)"

text \<open>
  Values that survive: nesting below the stack limit, integers of 64 bits, no reals (a real that is whole
  is written like an integer), names without a zero character, in the order of the map.
\<close>

fun readable :: "nat \<Rightarrow> json \<Rightarrow> bool" where
  "readable 0 v = False"
| "readable (Suc n) (JInt i) = (- (2 ^ 63) \<le> i \<and> i < 2 ^ 64)"
| "readable (Suc n) (JReal x) = False"
| "readable (Suc n) (JArray xs) = list_all (readable n) xs"
| "readable (Suc n) (JObject ms) =
     (sorted_wrt (<) (map fst ms) \<and> list_all (\<lambda>m. CHR 0x00 \<notin> set (fst m) \<and> readable n (snd m)) ms)"
| "readable (Suc n) v = True"

lemma readable_mono: "readable n v \<Longrightarrow> n \<le> m \<Longrightarrow> readable m v"
proof (induction n arbitrary: m v)
  case (Suc n)
  then obtain k where k: "m = Suc k" "n \<le> k" by (cases m) auto
  with Suc show ?case by (cases v) (auto simp: list_all_iff)
qed simp

subsection \<open>Tokens\<close>

lemma skipSpaces_blanks: "blanks a \<Longrightarrow> skipSpaces (a @ s) = skipSpaces s"
  unfolding blanks_def skipSpaces_def by (induction a) (auto simp: json_space_def)

lemma readToken_blanks: "blanks a \<Longrightarrow> readToken (a @ s) = readToken s"
  by (simp add: readToken_def skipSpaces_blanks)

lemma readToken_skipSpaces: "readToken (skipSpaces s) = readToken s"
proof -
  have "skipSpaces (skipSpaces s) = skipSpaces s" by (induction s) (simp_all add: skipSpaces_def)
  then show ?thesis by (simp add: readToken_def)
qed

lemma readToken_char:
  assumes "\<not> json_space c" and "next_token c (p @ r) = (ty, r)"
  shows "readToken (c # p @ r) = (ty, c # p, r)"
proof -
  have "skipSpaces (c # p @ r) = c # p @ r" using assms(1) by (simp add: skipSpaces_def)
  then show ?thesis using assms(2) by (simp add: readToken_def getNextChar_def)
qed

lemma skipCommentTokens_token: "readToken s = (ty, tx, r) \<Longrightarrow> ty \<noteq> tokenComment \<Longrightarrow> skipCommentTokens s = (ty, tx, r)"
  by (simp add: skipCommentTokens.simps[of s])

lemma skipCommentTokens_readToken: "readToken s = readToken s' \<Longrightarrow> skipCommentTokens s = skipCommentTokens s'"
  by (simp add: skipCommentTokens.simps[of s] skipCommentTokens.simps[of s'])

lemma punctuation [simp]:
  "readToken (CHR '']'' # r) = (tokenArrayEnd, '']'', r)" "readToken (CHR ''}'' # r) = (tokenObjectEnd, ''}'', r)"
  "readToken (CHR '','' # r) = (tokenArraySeparator, '','', r)" "readToken (CHR '':'' # r) = (tokenMemberSeparator, '':'', r)"
  "readToken (CHR ''['' # r) = (tokenArrayBegin, ''['', r)" "readToken (CHR ''{'' # r) = (tokenObjectBegin, ''{'', r)"
  using readToken_char[of "CHR '']''" "[]" r tokenArrayEnd] readToken_char[of "CHR ''}''" "[]" r tokenObjectEnd]
    readToken_char[of "CHR '',''" "[]" r tokenArraySeparator] readToken_char[of "CHR '':''" "[]" r tokenMemberSeparator]
    readToken_char[of "CHR ''[''" "[]" r tokenArrayBegin] readToken_char[of "CHR ''{''" "[]" r tokenObjectBegin]
  by (simp_all add: json_space_def next_token_def is_digit10_def)

subsection \<open>Strings\<close>

lemma of_char_less: "(of_char c :: nat) < 256"
  by (metis of_char_mod_256 mod_less_divisor zero_less_numeral)

lemma hex_upper_digit:
  assumes "d < 16"
  shows "hex_digit (hex_upper d) = Some d" and "hex_upper d \<noteq> CHR 0x22" and "hex_upper d \<noteq> CHR 0x5C"
proof -
  have "d < 10 \<or> 10 \<le> d" by linarith
  then show "hex_digit (hex_upper d) = Some d"
    using assms by (auto simp: hex_upper_def hex_digit_def is_digit10_def of_char_of)
  have "(of_char (hex_upper d) :: nat) = (if d < 10 then 48 + d else 55 + d)"
    using assms by (simp add: hex_upper_def of_char_of)
  then have "(of_char (hex_upper d) :: nat) \<noteq> 34" "(of_char (hex_upper d) :: nat) \<noteq> 92"
    using assms by (auto split: if_splits)
  then show "hex_upper d \<noteq> CHR 0x22" "hex_upper d \<noteq> CHR 0x5C" by auto
qed

lemma escaped_cases:
  obtains (plain) "escaped nul c = [c]" "c \<noteq> CHR 0x22" "c \<noteq> CHR 0x5C"
  | (simple) e where "escaped nul c = [CHR 0x5C, e]" "e \<noteq> CHR ''u''" "simple_escape e = Some c"
  | (control) "escaped nul c = unicode_escape c" "(of_char c :: nat) < 32"
proof -
  consider "c = CHR 0x22" | "c = CHR 0x5C" | "c = CHR 0x08" | "c = CHR 0x0C" | "c = CHR 0x0A" | "c = CHR 0x0D" | "c = CHR 0x09"
    | "c \<notin> {CHR 0x22, CHR 0x5C, CHR 0x08, CHR 0x0C, CHR 0x0A, CHR 0x0D, CHR 0x09}" by blast
  then show ?thesis
  proof cases
    case 8
    show ?thesis
    proof (cases "isControlCharacter c \<or> nul \<and> c = CHR 0x00")
      case True
      then have "(of_char c :: nat) < 32" by (auto simp: isControlCharacter_def)
      moreover have "escaped nul c = unicode_escape c" using 8 True by (simp add: escaped_def)
      ultimately show ?thesis using control by blast
    next
      case False
      then have "escaped nul c = [c]" using 8 by (auto simp: escaped_def)
      then show ?thesis using plain 8 by blast
    qed
  qed (use simple in \<open>simp_all add: escaped_def simple_escape_def\<close>)
qed

lemma readString_plain: "c \<noteq> CHR 0x5C \<Longrightarrow> c \<noteq> CHR 0x22 \<Longrightarrow> readString (c # t) = readString t"
  unfolding readString.simps(2) by simp

lemma readString_backslash: "readString (CHR 0x5C # e # t) = readString t"
  unfolding readString.simps(2)[of "CHR 0x5C" "e # t"] by simp

lemma readString_escaped: "readString (escaped nul c @ t) = readString t"
proof (cases rule: escaped_cases[of nul c])
  case control
  then have d: "of_char c div 16 < (16 :: nat)" "of_char c mod 16 < (16 :: nat)" by linarith simp
  have "readString (CHR ''0'' # u) = readString u" for u by (rule readString_plain) simp_all
  with control(1) show ?thesis
    by (simp only: unicode_escape_def append.simps readString_backslash readString_plain hex_upper_digit(2,3) d not_False_eq_True)
qed (simp_all only: append.simps readString_plain readString_backslash not_False_eq_True)

lemma decode_chars_plain: "c \<noteq> CHR 0x5C \<Longrightarrow> c \<noteq> CHR 0x22 \<Longrightarrow> decode_chars (c # t) = map_option ((#) c) (decode_chars t)"
  unfolding decode_chars.simps(2) by simp

lemma decode_chars_simple:
  "e \<noteq> CHR ''u'' \<Longrightarrow> simple_escape e = Some x \<Longrightarrow> decode_chars (CHR 0x5C # e # t) = map_option ((#) x) (decode_chars t)"
  unfolding decode_chars.simps(2)[of "CHR 0x5C" "e # t"] by simp

lemma decode_chars_unicode:
  "decodeUnicodeCodePoint t = Some (cp, r) \<Longrightarrow>
     decode_chars (CHR 0x5C # CHR ''u'' # t) = map_option ((@) (codePointToUTF8 cp)) (decode_chars r)"
  unfolding decode_chars.simps(2)[of "CHR 0x5C" "CHR ''u'' # t"] by simp

lemma four_digits:
  "hex_number 0 [c1, c2, c3, c4] = Some v \<Longrightarrow> decodeUnicodeEscapeSequence ([c1, c2, c3, c4] @ t) = Some (v, t)"
  by (simp add: decodeUnicodeEscapeSequence_def del: hex_number.simps)

lemma decode_control:
  assumes "(of_char c :: nat) < 32"
  shows "decodeUnicodeCodePoint ([CHR ''0'', CHR ''0'', hex_upper (of_char c div 16), hex_upper (of_char c mod 16)] @ t) = Some (of_char c, t)"
proof -
  define n :: nat where "n = of_char c"
  have n: "n < 32" "n div 16 < 16" "n mod 16 < 16" "(n div 16) * 16 + n mod 16 = n" using assms by (simp_all add: n_def)
  have "hex_digit (CHR ''0'') = Some 0" by (simp add: hex_digit_def is_digit10_def)
  then have "hex_number 0 [CHR ''0'', CHR ''0'', hex_upper (n div 16), hex_upper (n mod 16)] = Some n"
    using n(4) by (simp add: hex_upper_digit(1)[OF n(2)] hex_upper_digit(1)[OF n(3)])
  then have "decodeUnicodeEscapeSequence ([CHR ''0'', CHR ''0'', hex_upper (n div 16), hex_upper (n mod 16)] @ t) = Some (n, t)"
    by (rule four_digits)
  then show ?thesis using n(1) unfolding n_def[symmetric] by (simp add: decodeUnicodeCodePoint_def)
qed

lemma decode_escaped: "decode_chars (escaped nul c @ t) = map_option ((#) c) (decode_chars t)"
proof (cases rule: escaped_cases[of nul c])
  case plain
  then show ?thesis by (simp only: append.simps decode_chars_plain not_False_eq_True)
next
  case (simple e)
  then show ?thesis using decode_chars_simple[of e c t] by simp
next
  case control
  have "(@) (codePointToUTF8 (of_char c)) = (#) c"
    using control(2) by (simp add: fun_eq_iff codePointToUTF8_def)
  then show ?thesis
    using decode_chars_unicode[OF decode_control[OF control(2), of t]] control(1)
    by (simp add: unicode_escape_def)
qed

lemma readString_quoted: "readString (concat (map (escaped nul) s) @ CHR 0x22 # r) = (True, r)"
proof (induction s)
  case (Cons c s)
  then show ?case using readString_escaped[of nul c "concat (map (escaped nul) s) @ CHR 0x22 # r"] by simp
qed simp

lemma decode_quoted: "decode_chars (concat (map (escaped nul) s)) = Some s"
  by (induction s) (simp_all add: decode_escaped)

lemma unescaped: "\<not> list_ex (needs_escape nul) s \<Longrightarrow> concat (map (escaped nul) s) = s"
  by (induction s) (auto simp: needs_escape_def escaped_def)

lemma quoted_text:
  "valueToQuotedStringN s = CHR 0x22 # concat (map (escaped True) s) @ [CHR 0x22]"
  "CHR 0x00 \<notin> set k \<Longrightarrow> valueToQuotedString k = CHR 0x22 # concat (map (escaped False) k) @ [CHR 0x22]"
  by (simp_all add: valueToQuotedStringN_def valueToQuotedString_def unescaped c_str_no_nul Let_def)

lemma read_quoted:
  fixes s r :: string and nul :: bool
  defines "q \<equiv> CHR 0x22 # concat (map (escaped nul) s) @ [CHR 0x22]"
  shows "readToken (q @ r) = (tokenString, q, r)" and "decodeString q = Some s"
proof -
  have "next_token (CHR 0x22) ((concat (map (escaped nul) s) @ [CHR 0x22]) @ r) = (tokenString, r)"
    by (simp add: next_token_def token_if_def readString_quoted)
  from readToken_char[OF _ this] show "readToken (q @ r) = (tokenString, q, r)" by (simp add: q_def json_space_def)
  show "decodeString q = Some s" by (simp add: q_def decodeString_def decode_quoted)
qed

lemma read_string:
  "readToken (valueToQuotedStringN s @ r) = (tokenString, valueToQuotedStringN s, r)"
  "decodeString (valueToQuotedStringN s) = Some s"
  using read_quoted[where nul = True and s = s] by (simp_all add: quoted_text(1))

lemma read_name:
  assumes "CHR 0x00 \<notin> set k"
  shows "readToken (valueToQuotedString k @ r) = (tokenString, valueToQuotedString k, r)"
    and "decodeString (valueToQuotedString k) = Some k"
  using read_quoted[where nul = False and s = k] by (simp_all add: quoted_text(2)[OF assms])

subsection \<open>Numbers and words\<close>

definition delimited :: "string \<Rightarrow> bool" where
  "delimited r \<longleftrightarrow> r = [] \<or> hd r \<in> {CHR '','', CHR '']'', CHR ''}'', CHR '' '', CHR 0x0A}"

definition horner :: "nat \<Rightarrow> string \<Rightarrow> nat" where
  "horner v ds = foldl (\<lambda>v c. v * 10 + nat (digit10 c)) v ds"

lemma horner_Cons: "horner v (c # ds) = horner (v * 10 + nat (digit10 c)) ds"
  by (simp add: horner_def)

lemma horner_ge: "v \<le> horner v ds" "ds \<noteq> [] \<Longrightarrow> v * 10 \<le> horner v ds"
proof -
  show le: "v \<le> horner v ds" for v ds
  proof (induction ds arbitrary: v)
    case (Cons c ds)
    have "v \<le> v * 10 + nat (digit10 c)" by simp
    also have "\<dots> \<le> horner v (c # ds)" unfolding horner_Cons by (rule Cons.IH)
    finally show ?case .
  qed (simp add: horner_def)
  show "v * 10 \<le> horner v ds" if "ds \<noteq> []"
  proof (cases ds)
    case (Cons c cs)
    then show ?thesis using le[of "v * 10 + nat (digit10 c)" cs] by (simp add: horner_Cons)
  qed (use that in simp)
qed

lemma decode_digits_fits:
  assumes "list_all is_digit10 ds" and "horner v ds \<le> mx" and "10 \<le> mx"
  shows "decode_digits rd tx mx v ds = Inl (horner v ds)"
  using assms(1,2)
proof (induction ds arbitrary: v)
  case (Cons c ds)
  define q where "q = mx div 10"
  define d where "d = nat (digit10 c)"
  define m where "m = mx mod 10"
  have mx: "mx = 10 * q + m" "m < 10" by (simp_all add: q_def m_def)
  have le: "horner (v * 10 + d) ds \<le> mx" using Cons.prems(2) by (simp add: horner_Cons d_def)
  have big: "v * 10 + d \<le> mx" using horner_ge(1)[of "v * 10 + d" ds] le by linarith
  have "\<not> (q \<le> v \<and> (q < v \<or> ds \<noteq> [] \<or> m < d))"
  proof
    assume over: "q \<le> v \<and> (q < v \<or> ds \<noteq> [] \<or> m < d)"
    have "ds = []"
    proof (rule ccontr)
      assume "ds \<noteq> []"
      then have "(v * 10 + d) * 10 \<le> mx" using horner_ge(2)[of ds "v * 10 + d"] le by linarith
      then have "100 * v + 10 * d \<le> mx" by simp
      moreover have "1 \<le> q" using assms(3) unfolding q_def by linarith
      ultimately show False using conjunct1[OF over] mx by linarith
    qed
    with over have "q < v \<or> m < d" by blast
    then show False using conjunct1[OF over] big mx by linarith
  qed
  then show ?case
    using Cons.IH[of "v * 10 + d"] Cons.prems(1) le by (simp add: horner_Cons d_def q_def m_def)
qed (simp add: horner_def)

lemma digits_of_nat_ok: "list_all is_digit10 (digits_of_nat n) \<and> horner 0 (digits_of_nat n) = n \<and> digits_of_nat n \<noteq> []"
proof (induction n rule: digits_of_nat.induct)
  case (1 n)
  have digit: "is_digit10 (char_of (48 + d)) \<and> nat (digit10 (char_of (48 + d))) = d" if "d < 10" for d :: nat
    using that by (simp add: is_digit10_def digit10_def of_char_of)
  show ?case
  proof (cases "n < 10")
    case True
    with digit[of n] show ?thesis by (simp add: digits_of_nat.simps[of n] horner_def)
  next
    case False
    have "n mod 10 < 10" by simp
    from 1 False digit[OF this] show ?thesis
      by (simp add: digits_of_nat.simps[of n] horner_def)
  qed
qed

lemma readNumber_digits:
  assumes "list_all is_digit10 ds" and "delimited r"
  shows "readNumber (ds @ r) = r"
proof -
  have stop: "drop_digits r = r"
    using assms(2) by (cases r) (auto simp: delimited_def drop_digits_def is_digit10_def)
  have "drop_digits (ds @ r) = r"
    using assms(1) stop by (induction ds) (simp_all add: drop_digits_def)
  moreover have "\<not> (r \<noteq> [] \<and> hd r = CHR ''.'')" "\<not> (r \<noteq> [] \<and> hd r \<in> {CHR ''e'', CHR ''E''})"
    using assms(2) by (auto simp: delimited_def)
  ultimately show ?thesis unfolding readNumber_def Let_def by (simp only: if_False)
qed

lemma digit_token:
  assumes "is_digit10 c"
  shows "\<not> json_space c" and "next_token c r = (tokenNumber, readNumber r)"
proof -
  have "48 \<le> (of_char c :: nat)" "(of_char c :: nat) < 58" using assms by (simp_all add: is_digit10_def)
  then have "c \<notin> {CHR '' '', CHR 0x09, CHR 0x0D, CHR 0x0A, CHR ''{'', CHR ''}'', CHR ''['', CHR '']'', CHR 0x22, CHR ''/''}"
    by auto
  then show "\<not> json_space c" "next_token c r = (tokenNumber, readNumber r)"
    using assms by (simp_all add: json_space_def next_token_def)
qed

lemma read_int:
  assumes "delimited r"
  shows "readToken (int_to_string i @ r) = (tokenNumber, int_to_string i, r)"
    and "- (2 ^ 63) \<le> i \<Longrightarrow> i < 2 ^ 64 \<Longrightarrow> decodeNumber rd (int_to_string i) = Some (JInt i)"
proof -
  show "readToken (int_to_string i @ r) = (tokenNumber, int_to_string i, r)"
  proof (cases "i < 0")
    case True
    have n: "readNumber (digits_of_nat (nat (- i)) @ r) = r"
      using readNumber_digits[OF _ assms] digits_of_nat_ok by blast
    have "next_token (CHR ''-'') (digits_of_nat (nat (- i)) @ r) = (tokenNumber, r)"
      by (simp add: next_token_def n)
    from readToken_char[OF _ this] True show ?thesis by (simp add: int_to_string_def json_space_def)
  next
    case False
    obtain c ds where ds: "digits_of_nat (nat i) = c # ds" using digits_of_nat_ok[of "nat i"] by (cases "digits_of_nat (nat i)") auto
    then have "is_digit10 c" "list_all is_digit10 ds" using digits_of_nat_ok[of "nat i"] by simp_all
    then have "next_token c (ds @ r) = (tokenNumber, r)" "\<not> json_space c"
      using digit_token[of c] readNumber_digits[OF _ assms] by simp_all
    from readToken_char[OF this(2,1)] False ds show ?thesis by (simp add: int_to_string_def)
  qed
  assume range: "- (2 ^ 63) \<le> i" "i < 2 ^ 64"
  show "decodeNumber rd (int_to_string i) = Some (JInt i)"
  proof (cases "i < 0")
    case True
    have "decode_digits rd tx (2 ^ 63) 0 (digits_of_nat (nat (- i))) = Inl (nat (- i))" for tx
      using decode_digits_fits[of "digits_of_nat (nat (- i))" 0 "2 ^ 63"] digits_of_nat_ok[of "nat (- i)"] range(1) by simp
    with True show ?thesis by (simp add: decodeNumber_def int_to_string_def)
  next
    case False
    have "decode_digits rd tx (2 ^ 64 - 1) 0 (digits_of_nat (nat i)) = Inl (nat i)" for tx
      using decode_digits_fits[of "digits_of_nat (nat i)" 0 "2 ^ 64 - 1"] digits_of_nat_ok[of "nat i"] range(2) False by simp
    moreover have "hd (digits_of_nat (nat i)) \<noteq> CHR ''-''"
      using digits_of_nat_ok[of "nat i"] by (cases "digits_of_nat (nat i)") (auto simp: is_digit10_def)
    ultimately show ?thesis using False by (simp add: decodeNumber_def int_to_string_def Let_def)
  qed
qed

lemma read_words [simp]:
  "readToken (''true'' @ r) = (tokenTrue, ''true'', r)" "readToken (''false'' @ r) = (tokenFalse, ''false'', r)"
  "readToken (''null'' @ r) = (tokenNull, ''null'', r)"
  using readToken_char[of "CHR ''t''" "''rue''" r tokenTrue] readToken_char[of "CHR ''f''" "''alse''" r tokenFalse]
    readToken_char[of "CHR ''n''" "''ull''" r tokenNull]
  by (simp_all add: json_space_def next_token_def is_digit10_def token_if_def json_match_def)

subsection \<open>Reading a text\<close>

lemma delimited_simps [simp]:
  "delimited []" "delimited (CHR '','' # r)" "delimited (CHR '']'' # r)" "delimited (CHR ''}'' # r)" "delimited (CHR 0x0A # r)"
  by (simp_all add: delimited_def)

lemma delimited_blanks: "blanks d \<Longrightarrow> delimited r \<Longrightarrow> delimited (d @ r)"
  by (cases d) (auto simp: delimited_def blanks_def)

lemma spells_starts:
  assumes "spells v t" shows "t \<noteq> [] \<and> \<not> json_space (hd t) \<and> hd t \<noteq> CHR '']''"
  using assms
proof (cases rule: spells.cases)
  case (int i)
  have "is_digit10 (hd (digits_of_nat n)) \<and> digits_of_nat n \<noteq> []" for n
    using digits_of_nat_ok[of n] by (cases "digits_of_nat n") auto
  moreover have "is_digit10 c \<Longrightarrow> \<not> json_space c \<and> c \<noteq> CHR '']''" for c
    using digit_token(1)[of c] by (auto simp: is_digit10_def)
  ultimately have "\<not> json_space (hd (digits_of_nat n))" "hd (digits_of_nat n) \<noteq> CHR '']''" "digits_of_nat n \<noteq> []" for n
    by blast+
  then show ?thesis by (simp add: int int_to_string_def json_space_def)
qed (auto simp: json_space_def quoted_text(1))

lemma token_after_blanks:
  "blanks a \<Longrightarrow> readToken s = (ty, tx, r) \<Longrightarrow> readToken (a @ s) = (ty, tx, r)"
  by (simp add: readToken_blanks)

lemma value_after_blanks:
  assumes "blanks a" shows "readValue rd levels old (a @ s) = readValue rd levels old s"
proof (cases levels)
  case (Suc n)
  have "skipCommentTokens (a @ s) = skipCommentTokens s"
    by (rule skipCommentTokens_readToken) (rule readToken_blanks[OF assms])
  then show ?thesis by (simp add: Suc)
qed simp

lemma value_skipSpaces: "readValue rd levels old (skipSpaces s) = readValue rd levels old s"
  using skipCommentTokens_readToken[OF readToken_skipSpaces[of s]] by (cases levels) simp_all

lemma array_loop_skipSpaces: "array_loop (readValue rd levels) acc (skipSpaces s) = array_loop (readValue rd levels) acc s"
  by (simp add: array_loop.simps[of _ acc "skipSpaces s"] array_loop.simps[of _ acc s] value_skipSpaces)

lemma readArray_elements:
  assumes "spells_elements xs t"
  shows "readArray (readValue rd levels) (t @ s) = array_loop (readValue rd levels) [] (t @ s)"
proof -
  obtain a x u where t: "t = a @ u @ x" "blanks a" "\<exists>v. spells v u"
    using assms by (cases rule: spells_elements.cases) blast+
  then have u: "u \<noteq> []" "\<not> json_space (hd u)" "hd u \<noteq> CHR '']''" using spells_starts by auto
  then have "skipSpaces (t @ s) = u @ x @ s"
    using t(2) by (cases u) (simp_all add: t(1) skipSpaces_blanks, simp add: skipSpaces_def)
  then show ?thesis using u array_loop_skipSpaces[of rd levels "[]" "t @ s"] by (simp add: readArray_def Let_def)
qed

abbreviation member_ok :: "nat \<Rightarrow> string \<times> json \<Rightarrow> bool" where
  "member_ok n m \<equiv> CHR 0x00 \<notin> set (fst m) \<and> readable n (snd m)"

lemma read_member_step:
  assumes k: "CHR 0x00 \<notin> set k" and bl: "blanks a" "blanks b" "blanks c" "blanks d"
    and v: "\<And>old. readValue rd levels old (c @ t @ d @ x # r) = Some (Inr (True, v, d @ x # r))"
    and x: "x = CHR '','' \<or> x = CHR ''}''"
  shows "object_loop (readValue rd levels) name ms (a @ valueToQuotedString k @ b @ CHR '':'' # c @ t @ d @ x # r)
    = (if x = CHR ''}'' then Some (Inr (True, JObject (set_member k v ms), r))
       else object_loop (readValue rd levels) k (set_member k v ms) r)"
proof -
  let ?s = "a @ valueToQuotedString k @ b @ CHR '':'' # c @ t @ d @ x # r"
  have name_: "skipCommentTokens ?s = (tokenString, valueToQuotedString k, b @ CHR '':'' # c @ t @ d @ x # r)"
    by (rule skipCommentTokens_token[OF token_after_blanks[OF bl(1) read_name(1)[OF k]]]) simp
  have colon: "readToken (b @ CHR '':'' # c @ t @ d @ x # r) = (tokenMemberSeparator, '':'', c @ t @ d @ x # r)"
    by (rule token_after_blanks[OF bl(2)]) simp
  have comma: "readToken (d @ x # r) = (if x = CHR ''}'' then tokenObjectEnd else tokenArraySeparator, [x], r)"
    by (rule token_after_blanks[OF bl(4)]) (use x in auto)
  have "read_member (readValue rd levels) name ms ?s =
    (if x = CHR ''}'' then Inl (Some (Inr (True, JObject (set_member k v ms), r))) else Inr (k, set_member k v ms, r))"
    by (simp add: read_member_def name_ read_name(2)[OF k] colon v comma)
  then show ?thesis by (simp add: object_loop.simps[of _ name ms ?s])
qed

lemma skip_to:
  "blanks a \<Longrightarrow> readToken s = (ty, tx, r) \<Longrightarrow> ty \<noteq> tokenComment \<Longrightarrow> skipCommentTokens (a @ s) = (ty, tx, r)"
  by (rule skipCommentTokens_token[OF token_after_blanks])

lemma set_member_last: "\<forall>m \<in> set ms. fst m < k \<Longrightarrow> set_member k v ms = ms @ [(k, v)]"
  by (induction ms) (auto dest: less_asym)

lemma foldl_set_member_sorted:
  "sorted_wrt (<) (map fst (acc @ ms)) \<Longrightarrow> foldl (\<lambda>ms m. set_member (fst m) (snd m) ms) acc ms = acc @ ms"
proof (induction ms arbitrary: acc)
  case (Cons m ms)
  then have "\<forall>m' \<in> set acc. fst m' < fst m" by (auto simp: sorted_wrt_append)
  with Cons.IH[of "acc @ [m]"] Cons.prems show ?case by (simp add: set_member_last)
qed simp

lemma foldl_set_member: "sorted_wrt (<) (map fst ms) \<Longrightarrow> foldl (\<lambda>ms m. set_member (fst m) (snd m) ms) [] ms = ms"
  using foldl_set_member_sorted[of "[]" ms] by simp

lemma spells_read:
  "spells v t \<Longrightarrow> (\<And>levels old a r. readable levels v \<Longrightarrow> blanks a \<Longrightarrow> delimited r \<Longrightarrow>
      readValue rd levels old (a @ t @ r) = Some (Inr (True, v, r)))"
  "spells_elements xs t \<Longrightarrow> (\<And>levels acc r. list_all (readable levels) xs \<Longrightarrow>
      array_loop (readValue rd levels) acc (t @ CHR '']'' # r) = Some (Inr (True, JArray (acc @ xs), r)))"
  "spells_members ms t \<Longrightarrow> (\<And>levels name acc r. list_all (member_ok levels) ms \<Longrightarrow>
      object_loop (readValue rd levels) name acc (t @ CHR ''}'' # r)
        = Some (Inr (True, JObject (foldl (\<lambda>ms m. set_member (fst m) (snd m) ms) acc ms), r)))"
proof (induction rule: spells_spells_elements_spells_members.inducts)
  case null
  then show ?case using skip_to[OF _ read_words(3)[of r], of a] by (cases levels) simp_all
next
  case (bool b)
  then show ?case
    using skip_to[OF _ read_words(1)[of r], of a] skip_to[OF _ read_words(2)[of r], of a] by (cases levels) simp_all
next
  case (int i)
  then show ?case
    using skip_to[OF _ read_int(1)[of r i], of a] read_int(2)[of r i rd] by (cases levels) simp_all
next
  case (string s)
  then show ?case using skip_to[OF _ read_string(1)[of s r], of a] by (cases levels) (simp_all add: read_string(2))
next
  case no_elements
  then show ?case
    using skip_to[OF _ punctuation(5)[of "'']'' @ r"], of a]
    by (cases levels) (simp_all add: readArray_def skipSpaces_def json_space_def)
next
  case (elements xs t)
  then obtain n where n: "levels = Suc n" "list_all (readable n) xs" by (cases levels) auto
  have "skipCommentTokens (a @ ''['' @ t @ '']'' @ r) = (tokenArrayBegin, ''['', t @ '']'' @ r)"
    using skip_to[OF elements.prems(2) punctuation(5)[of "t @ '']'' @ r"]] by simp
  moreover have "readArray (readValue rd n) (t @ '']'' @ r) = Some (Inr (True, JArray xs, r))"
    using elements.IH[OF n(2), of "[]" r] readArray_elements[OF elements.hyps] by simp
  ultimately show ?case by (simp add: n(1))
next
  case no_members
  have "skipCommentTokens (a @ ''{'' @ ''}'' @ r) = (tokenObjectBegin, ''{'', ''}'' @ r)"
    using skip_to[OF no_members(2) punctuation(6)[of "''}'' @ r"]] by simp
  moreover have "readObject (readValue rd n) (''}'' @ r) = Some (Inr (True, JObject [], r))" for n
    using skipCommentTokens_token[OF punctuation(2)[of r]]
    by (simp add: readObject_def object_loop.simps[of _ _ _ "CHR ''}'' # r"] read_member_def)
  ultimately show ?case using no_members(1) by (cases levels) simp_all
next
  case (members ms t)
  then obtain n where n: "levels = Suc n" "list_all (member_ok n) ms" "sorted_wrt (<) (map fst ms)"
    by (cases levels) auto
  have "skipCommentTokens (a @ ''{'' @ t @ ''}'' @ r) = (tokenObjectBegin, ''{'', t @ ''}'' @ r)"
    using skip_to[OF members.prems(2) punctuation(6)[of "t @ ''}'' @ r"]] by simp
  moreover have "readObject (readValue rd n) (t @ ''}'' @ r) = Some (Inr (True, JObject ms, r))"
    using members.IH[OF n(2), of "[]" "[]" r] by (simp add: readObject_def foldl_set_member[OF n(3)])
  ultimately show ?case by (simp add: n(1))
next
  case (last_element x t a b)
  have "readValue rd levels JNull (a @ t @ b @ CHR '']'' # r) = Some (Inr (True, x, b @ CHR '']'' # r))"
    using last_element by (simp add: delimited_blanks)
  moreover have "skipCommentTokens (b @ CHR '']'' # r) = (tokenArrayEnd, '']'', r)"
    by (rule skipCommentTokens_token[OF token_after_blanks[OF last_element.hyps(3)]]) simp_all
  ultimately show ?case by (simp add: array_loop.simps[of _ acc "a @ t @ b @ CHR '']'' # r"])
next
  case (element x t a b xs u)
  let ?r = "u @ CHR '']'' # r"
  have "readValue rd levels JNull (a @ t @ b @ CHR '','' # ?r) = Some (Inr (True, x, b @ CHR '','' # ?r))"
    using element by (simp add: delimited_blanks)
  moreover have "skipCommentTokens (b @ CHR '','' # ?r) = (tokenArraySeparator, '','', ?r)"
    by (rule skipCommentTokens_token[OF token_after_blanks[OF element.hyps(3)]]) simp_all
  moreover have "array_loop (readValue rd levels) (acc @ [x]) ?r = Some (Inr (True, JArray (acc @ x # xs), r))"
    using element by simp
  ultimately show ?case by (simp add: array_loop.simps[of _ acc "a @ t @ b @ CHR '','' # ?r"])
next
  case (last_member x t a b c d k)
  have "readValue rd levels old (c @ t @ d @ CHR ''}'' # r) = Some (Inr (True, x, d @ CHR ''}'' # r))" for old
    using last_member by (simp add: delimited_blanks)
  from read_member_step[OF _ last_member.hyps(2-5) this] last_member show ?case by simp
next
  case (member x t a b c d ms u k)
  let ?r = "u @ CHR ''}'' # r"
  have "readValue rd levels old (c @ t @ d @ CHR '','' # ?r) = Some (Inr (True, x, d @ CHR '','' # ?r))" for old
    using member by (simp add: delimited_blanks)
  from read_member_step[OF _ member.hyps(2-5) this] member show ?case by simp
qed

subsection \<open>Writing a text\<close>

definition plain :: "styled_writer \<Rightarrow> bool" where
  "plain w \<longleftrightarrow> \<not> addChildValues w \<and> blanks (indentString w)"

text \<open>\<open>w'\<close> is \<open>w\<close> with the text \<open>t\<close> added; the buffer of child values may have changed.\<close>

definition grown :: "styled_writer \<Rightarrow> string \<Rightarrow> styled_writer \<Rightarrow> bool" where
  "grown w t w' \<longleftrightarrow> document w' = document w @ t \<and> indentString w' = indentString w \<and> \<not> addChildValues w'"

lemma blanks_simps [simp]: "blanks []" "blanks (c # a) = (c \<in> {CHR '' '', CHR 0x0A} \<and> blanks a)"
  "blanks (a @ b) = (blanks a \<and> blanks b)"
  by (auto simp: blanks_def)

lemma grown_trans: "grown w t w' \<Longrightarrow> grown w' u w'' \<Longrightarrow> grown w (t @ u) w''"
  by (simp add: grown_def)

lemma grown_plain: "plain w \<Longrightarrow> grown w t w' \<Longrightarrow> plain w'"
  by (simp add: grown_def plain_def)

lemma grown_append: "plain w \<Longrightarrow> grown w t (append_text t w)"
  by (simp add: grown_def plain_def append_text_def)

lemma writeIndent_grows: "plain w \<Longrightarrow> \<exists>a. blanks a \<and> writeIndent w = append_text a w"
proof -
  assume p: "plain w"
  define a where "a = (if document w = [] then indentString w else if last (document w) = CHR '' '' then []
    else (if last (document w) \<noteq> CHR 0x0A then [CHR 0x0A] else []) @ indentString w)"
  have "writeIndent w = append_text a w" by (simp add: writeIndent_def a_def append_text_def)
  moreover have "blanks a" using p by (simp add: a_def plain_def)
  ultimately show ?thesis by blast
qed

lemma writeWithIndent_grows:
  assumes "plain w" shows "\<exists>a. blanks a \<and> grown w (a @ t) (writeWithIndent t w) \<and> childValues (writeWithIndent t w) = childValues w"
proof -
  from writeIndent_grows[OF assms] obtain a where "blanks a" "writeIndent w = append_text a w" by blast
  then show ?thesis using assms by (intro exI[of _ a]) (simp add: writeWithIndent_def append_text_def grown_def plain_def)
qed

definition leaf_text :: "(rat \<Rightarrow> string) \<Rightarrow> json \<Rightarrow> string" where
  "leaf_text g17 v = (case v of JNull \<Rightarrow> ''null'' | JBool b \<Rightarrow> (if b then ''true'' else ''false'') | JInt i \<Rightarrow> int_to_string i
     | JReal x \<Rightarrow> g17 x | JString s \<Rightarrow> valueToQuotedStringN s | JArray xs \<Rightarrow> ''[]'' | JObject ms \<Rightarrow> ''{}'')"

lemma writeValue_leaf:
  "\<not> nonempty_container v \<Longrightarrow> writeValue g17 v w = Inr (pushValue (leaf_text g17 v) w)"
  by (cases v) (simp_all add: nonempty_container_def leaf_text_def writeArrayValue_def writeObject_def)

lemma leaf_spells: "\<not> nonempty_container v \<Longrightarrow> readable n v \<Longrightarrow> spells v (leaf_text g17 v)"
  by (cases n; cases v)
    (auto simp: nonempty_container_def leaf_text_def intro: spells_spells_elements_spells_members.intros
      bool[of True, simplified] bool[of False, simplified])

lemma push_children_leaves:
  "list_all (\<lambda>x. \<not> nonempty_container x) xs \<Longrightarrow> addChildValues w \<Longrightarrow>
     push_children (writeValue g17) xs w = Inr (w\<lparr>childValues := childValues w @ map (leaf_text g17) xs\<rparr>)"
  by (induction xs arbitrary: w) (simp_all add: writeValue_leaf pushValue_def)

lemma spells_elements_blanks: "spells_elements xs u \<Longrightarrow> blanks a \<Longrightarrow> spells_elements xs (u @ a)"
proof (induction xs arbitrary: u)
  case (Cons x xs)
  from Cons.prems(1) show ?case
  proof (cases rule: spells_elements.cases)
    case (last_element t a' b)
    then show ?thesis using spells_spells_elements_spells_members.last_element[of x t a' "b @ a"] Cons.prems(2) by simp
  next
    case (element t a' b u')
    then show ?thesis
      using spells_spells_elements_spells_members.element[of x t a' b xs "u' @ a"] Cons.IH[of u'] Cons.prems(2) by simp
  qed
qed (auto elim: spells_elements.cases)

lemma spells_members_blanks: "spells_members ms u \<Longrightarrow> blanks a \<Longrightarrow> spells_members ms (u @ a)"
proof (induction ms arbitrary: u)
  case (Cons m ms)
  from Cons.prems(1) show ?case
  proof (cases rule: spells_members.cases)
    case (last_member x t a' b c d k)
    then show ?thesis
      using spells_spells_elements_spells_members.last_member[of x t a' b c "d @ a" k] Cons.prems(2) by simp
  next
    case (member x t a' b c d u' k)
    then show ?thesis
      using spells_spells_elements_spells_members.member[of x t a' b c d ms "u' @ a" k] Cons.IH[of u'] Cons.prems(2) by simp
  qed
qed (auto elim: spells_members.cases)

definition writes :: "(rat \<Rightarrow> string) \<Rightarrow> json \<Rightarrow> bool" where
  "writes g17 v \<longleftrightarrow> (\<forall>w. plain w \<longrightarrow>
     (\<exists>w' a t. writeValue g17 v w = Inr w' \<and> grown w (a @ t) w' \<and> blanks a \<and> spells v t))"

lemma element_loop_writes:
  assumes "xs \<noteq> []" and "plain w" and "\<not> has \<Longrightarrow> list_all (writes g17) xs"
    and "has \<Longrightarrow> list_all (\<lambda>x. spells x (leaf_text g17 x)) xs \<and> drop i (childValues w) = map (leaf_text g17) xs"
  shows "\<exists>w' u. element_loop (writeValue g17) has i xs w = Inr w' \<and> grown w u w' \<and> spells_elements xs u"
  using assms
proof (induction xs arbitrary: i w)
  case (Cons x xs)
  have "\<exists>w1 a t. (if has then if i < length (childValues w) then Inr (writeWithIndent (childValues w ! i) w) else Inl UndefinedBehaviour
          else writeValue g17 x (writeIndent w)) = Inr w1 \<and> grown w (a @ t) w1 \<and> blanks a \<and> spells x t
          \<and> (has \<longrightarrow> childValues w1 = childValues w)"
  proof (cases has)
    case True
    with Cons.prems(4) have d: "drop i (childValues w) = leaf_text g17 x # map (leaf_text g17) xs" "spells x (leaf_text g17 x)" by simp_all
    then have i: "i < length (childValues w)" by (metis drop_all list.distinct(1) not_le)
    with d(1) have "childValues w ! i = leaf_text g17 x" by (metis Cons_nth_drop_Suc list.inject)
    with i d(2) True writeWithIndent_grows[OF Cons.prems(2), of "leaf_text g17 x"] show ?thesis by auto
  next
    case False
    from writeIndent_grows[OF Cons.prems(2)] obtain a where a: "blanks a" "writeIndent w = append_text a w" by blast
    have p: "plain (append_text a w)" using grown_plain[OF Cons.prems(2) grown_append[OF Cons.prems(2)]] .
    from False Cons.prems(3) have "writes g17 x" by simp
    with p obtain w1 a' t where "writeValue g17 x (append_text a w) = Inr w1" "grown (append_text a w) (a' @ t) w1" "blanks a'" "spells x t"
      unfolding writes_def by blast
    then show ?thesis
      using False a grown_trans[OF grown_append[OF Cons.prems(2), of a]]
      by (intro exI[of _ w1] exI[of _ "a @ a'"] exI[of _ t]) simp
  qed
  then obtain w1 a t where w1: "(if has then if i < length (childValues w) then Inr (writeWithIndent (childValues w ! i) w) else Inl UndefinedBehaviour
          else writeValue g17 x (writeIndent w)) = Inr w1" "grown w (a @ t) w1" "blanks a" "spells x t"
      "has \<longrightarrow> childValues w1 = childValues w" by blast
  show ?case
  proof (cases "xs = []")
    case True
    then show ?thesis using w1 spells_spells_elements_spells_members.last_element[of x t a "[]"]
      by (intro exI[of _ w1] exI[of _ "a @ t"]) simp
  next
    case False
    have g: "grown w (a @ t @ '','') (append_text '','' w1)"
      using grown_trans[OF w1(2) grown_append[OF grown_plain[OF Cons.prems(2) w1(2)]]] by simp
    have "\<exists>w' u. element_loop (writeValue g17) has (i + 1) xs (append_text '','' w1) = Inr w'
        \<and> grown (append_text '','' w1) u w' \<and> spells_elements xs u"
    proof (rule Cons.IH[OF False grown_plain[OF Cons.prems(2) g]])
      show "list_all (writes g17) xs" if "\<not> has" using Cons.prems(3) that by simp
      show "list_all (\<lambda>x. spells x (leaf_text g17 x)) xs \<and> drop (i + 1) (childValues (append_text '','' w1)) = map (leaf_text g17) xs"
        if has using Cons.prems(4) w1(5) that by (simp add: append_text_def drop_Suc tl_drop) (metis list.sel(3) tl_drop)
    qed
    then obtain w' u where "element_loop (writeValue g17) has (i + 1) xs (append_text '','' w1) = Inr w'"
      "grown (append_text '','' w1) u w'" "spells_elements xs u" by blast
    then show ?thesis
      using w1 False grown_trans[OF g] spells_spells_elements_spells_members.element[of x t a "[]" xs u]
      by (intro exI[of _ w'] exI[of _ "a @ t @ '','' @ u"]) simp
  qed
qed simp

lemma spells_joined:
  "xs \<noteq> [] \<Longrightarrow> list_all (\<lambda>x. spells x (f x)) xs \<Longrightarrow> spells_elements xs ('' '' @ join_with '', '' (map f xs))"
proof (induction xs)
  case (Cons x xs)
  show ?case
  proof (cases xs)
    case Nil
    then show ?thesis using Cons.prems spells_spells_elements_spells_members.last_element[of x "f x" "'' ''" "[]"]
      by (simp add: join_with_def)
  next
    case (Cons y ys)
    then show ?thesis
      using Cons.IH Cons.prems spells_spells_elements_spells_members.element[of x "f x" "'' ''" "[]" xs "'' '' @ join_with '', '' (map f xs)"]
      by (simp add: join_with_def)
  qed
qed simp

lemma closes:
  assumes "plain w" and "grown (indent (writeWithIndent opening w)) u w2"
  shows "\<exists>w3. unindent w2 = Inr w3 \<and> (\<exists>a b. grown w (a @ opening @ u @ b @ closing) (writeWithIndent closing w3) \<and> blanks a \<and> blanks b)"
proof -
  from writeWithIndent_grows[OF assms(1)] obtain a where a: "blanks a" "grown w (a @ opening) (writeWithIndent opening w)" by blast
  define w3 where "w3 = w2\<lparr>indentString := indentString w\<rparr>"
  have ind: "indentString w2 = indentString w @ replicate indentSize (CHR '' '')"
    using assms(2) a(2) by (simp add: grown_def indent_def)
  then have "unindent w2 = Inr w3" by (simp add: unindent_def w3_def)
  moreover have g: "grown w (a @ opening @ u) w3"
    using assms(2) a(2) by (simp add: grown_def indent_def w3_def)
  moreover from writeWithIndent_grows[OF grown_plain[OF assms(1) g]] obtain b where
    "blanks b" "grown w3 (b @ closing) (writeWithIndent closing w3)" by blast
  ultimately show ?thesis using a(1) grown_trans[OF g] by fastforce
qed

lemma indent_plain: "plain w \<Longrightarrow> plain (indent (writeWithIndent t w)) \<and> childValues (indent (writeWithIndent t w)) = childValues w"
proof -
  assume p: "plain w"
  from writeWithIndent_grows[OF p] obtain a where "grown w (a @ t) (writeWithIndent t w)"
    "childValues (writeWithIndent t w) = childValues w" by blast
  then show ?thesis using p by (auto simp: plain_def grown_def indent_def blanks_def)
qed

lemma writeArrayValue_writes:
  assumes "xs \<noteq> []" and "list_all (writes g17) xs" and "list_all (readable n) xs" and p: "plain w"
  shows "\<exists>w' a t. writeArrayValue (writeValue g17) xs w = Inr w' \<and> grown w (a @ t) w' \<and> blanks a \<and> spells (JArray xs) t"
proof -
  have lines: "\<exists>w' a t. and_then (element_loop (writeValue g17) (childValues w1 \<noteq> []) 0 xs (indent (writeWithIndent ''['' w1)))
      (\<lambda>w2. and_then (unindent w2) (\<lambda>w3. Inr (writeWithIndent '']'' w3))) = Inr w' \<and> grown w1 (a @ t) w' \<and> blanks a \<and> spells (JArray xs) t"
    if p1: "plain w1" and cv: "childValues w1 \<noteq> [] \<Longrightarrow> list_all (\<lambda>x. spells x (leaf_text g17 x)) xs \<and> childValues w1 = map (leaf_text g17) xs" for w1
  proof -
    have "\<exists>w' u. element_loop (writeValue g17) (childValues w1 \<noteq> []) 0 xs (indent (writeWithIndent ''['' w1)) = Inr w'
        \<and> grown (indent (writeWithIndent ''['' w1)) u w' \<and> spells_elements xs u"
      by (rule element_loop_writes[OF assms(1)]) (use indent_plain[OF p1, of "''[''"] assms(2) cv in auto)
    then obtain w2 u where w2: "element_loop (writeValue g17) (childValues w1 \<noteq> []) 0 xs (indent (writeWithIndent ''['' w1)) = Inr w2"
      "grown (indent (writeWithIndent ''['' w1)) u w2" "spells_elements xs u" by blast
    from closes[OF p1 w2(2), of "'']''"] obtain w3 a b where w3: "unindent w2 = Inr w3"
      "grown w1 (a @ ''['' @ u @ b @ '']'') (writeWithIndent '']'' w3)" "blanks a" "blanks b" by blast
    have "spells (JArray xs) (''['' @ (u @ b) @ '']'')"
      by (rule spells_spells_elements_spells_members.elements) (rule spells_elements_blanks[OF w2(3) w3(4)])
    then show ?thesis using w2(1) w3(1-3)
      by (intro exI[of _ "writeWithIndent '']'' w3"] exI[of _ a] exI[of _ "''['' @ u @ b @ '']''"]) simp
  qed
  have p0: "plain (w\<lparr>childValues := cs\<rparr>)" and g0: "grown (w\<lparr>childValues := cs\<rparr>) t w' = grown w t w'" for cs t w'
    using p by (simp_all add: plain_def grown_def)
  show ?thesis
  proof (cases "rightMargin \<le> length xs * 3 \<or> list_ex nonempty_container xs")
    case True
    then have "isMultineArray (writeValue g17) xs w = Inr (True, w\<lparr>childValues := []\<rparr>)" by (auto simp: isMultineArray_def)
    then show ?thesis using lines[OF p0, of "[]"] assms(1) g0 by (simp add: writeArrayValue_def)
  next
    case False
    then have leaves: "list_all (\<lambda>x. \<not> nonempty_container x) xs" by (auto simp: list_ex_iff list_all_iff)
    define cs where "cs = map (leaf_text g17) xs"
    have sp: "list_all (\<lambda>x. spells x (leaf_text g17 x)) xs"
      using leaves assms(3) leaf_spells by (auto simp: list_all_iff)
    define w1 where "w1 = w\<lparr>childValues := cs\<rparr>"
    have "push_children (writeValue g17) xs (w\<lparr>childValues := [], addChildValues := True\<rparr>) = Inr (w1\<lparr>addChildValues := True\<rparr>)"
      using push_children_leaves[OF leaves, of "w\<lparr>childValues := [], addChildValues := True\<rparr>" g17] by (simp add: cs_def w1_def)
    moreover have "w1\<lparr>addChildValues := False\<rparr> = w1" using p by (simp add: w1_def plain_def)
    ultimately obtain multi where m: "isMultineArray (writeValue g17) xs w = Inr (multi, w1)"
      using False by (auto simp: isMultineArray_def Let_def cs_def w1_def)
    show ?thesis
    proof (cases multi)
      case True
      have "plain w1" unfolding w1_def by (rule p0)
      moreover have "list_all (\<lambda>x. spells x (leaf_text g17 x)) xs \<and> childValues w1 = map (leaf_text g17) xs"
        using sp by (simp add: w1_def cs_def)
      ultimately obtain w' a t where w': "and_then (element_loop (writeValue g17) (childValues w1 \<noteq> []) 0 xs (indent (writeWithIndent ''['' w1)))
          (\<lambda>w2. and_then (unindent w2) (\<lambda>w3. Inr (writeWithIndent '']'' w3))) = Inr w'" "grown w1 (a @ t) w'" "blanks a" "spells (JArray xs) t"
        using lines by blast
      have "writeArrayValue (writeValue g17) xs w = Inr w'"
        using w'(1) assms(1) unfolding writeArrayValue_def m and_then_simps prod.case by (simp only: True if_True if_False)
      moreover have "grown w (a @ t) w'" using w'(2) unfolding w1_def by (simp only: g0)
      ultimately show ?thesis using w'(3,4) by blast
    next
      case False
      have "spells (JArray xs) (''['' @ (('' '' @ join_with '', '' cs) @ '' '') @ '']'')"
        unfolding cs_def
        by (rule spells_spells_elements_spells_members.elements)
          (rule spells_elements_blanks[OF spells_joined[OF assms(1) sp]], simp)
      moreover have "grown w (''[ '' @ join_with '', '' cs @ '' ]'') (append_text (''[ '' @ join_with '', '' cs @ '' ]'') w1)"
        using p by (simp add: grown_def append_text_def w1_def plain_def)
      moreover have "writeArrayValue (writeValue g17) xs w = Inr (append_text (''[ '' @ join_with '', '' cs @ '' ]'') w1)"
      proof -
        have "childValues w1 = cs" "length cs = length xs" by (simp_all add: w1_def cs_def)
        then show ?thesis using m False assms(1) by (simp add: writeArrayValue_def)
      qed
      ultimately show ?thesis
        by (intro exI[of _ "append_text (''[ '' @ join_with '', '' cs @ '' ]'') w1"] exI[of _ "[]"]
            exI[of _ "''[ '' @ join_with '', '' cs @ '' ]''"]) simp
    qed
  qed
qed

lemma member_loop_writes:
  assumes "ms \<noteq> []" and "plain w" and "list_all (\<lambda>m. writes g17 (snd m)) ms"
  shows "\<exists>w' u. member_loop (writeValue g17) ms w = Inr w' \<and> grown w u w' \<and> spells_members ms u"
  using assms
proof (induction ms arbitrary: w)
  case (Cons m ms)
  obtain k x where m: "m = (k, x)" by (cases m)
  let ?q = "valueToQuotedString k"
  from writeWithIndent_grows[OF Cons.prems(2)] obtain a where a: "blanks a" "grown w (a @ ?q) (writeWithIndent ?q w)" by blast
  have g0: "grown w (a @ ?q @ '' : '') (append_text '' : '' (writeWithIndent ?q w))"
    using grown_trans[OF a(2) grown_append[OF grown_plain[OF Cons.prems(2) a(2)]]] by simp
  have "writes g17 x" using Cons.prems(3) by (simp add: m)
  with grown_plain[OF Cons.prems(2) g0] obtain w1 b t where
    w1: "writeValue g17 x (append_text '' : '' (writeWithIndent ?q w)) = Inr w1"
      "grown (append_text '' : '' (writeWithIndent ?q w)) (b @ t) w1" "blanks b" "spells x t"
    unfolding writes_def by blast
  have g1: "grown w ((a @ ?q @ '' : '') @ b @ t) w1" by (rule grown_trans[OF g0 w1(2)])
  show ?case
  proof (cases "ms = []")
    case True
    then show ?thesis
      using w1 g1 a(1) spells_spells_elements_spells_members.last_member[of x t a "'' ''" "'' '' @ b" "[]" k]
      by (intro exI[of _ w1] exI[of _ "a @ ?q @ '' '' @ '':'' @ ('' '' @ b) @ t"]) (simp add: m)
  next
    case False
    have g2: "grown w (((a @ ?q @ '' : '') @ b @ t) @ '','') (append_text '','' w1)"
      by (rule grown_trans[OF g1 grown_append[OF grown_plain[OF Cons.prems(2) g1]]])
    from Cons.IH[OF False grown_plain[OF Cons.prems(2) g2]] Cons.prems(3) obtain w' u where
      w': "member_loop (writeValue g17) ms (append_text '','' w1) = Inr w'" "grown (append_text '','' w1) u w'" "spells_members ms u"
      by auto
    show ?thesis
      using w1 w' False a(1) grown_trans[OF g2 w'(2)]
        spells_spells_elements_spells_members.member[of x t a "'' ''" "'' '' @ b" "[]" ms u k]
      by (intro exI[of _ w'] exI[of _ "a @ ?q @ '' '' @ '':'' @ ('' '' @ b) @ t @ '','' @ u"]) (simp add: m)
  qed
qed simp

lemma writeValue_writes: "readable n v \<Longrightarrow> writes g17 v"
proof (induction n arbitrary: v)
  case (Suc n)
  show ?case
    unfolding writes_def
  proof (intro allI impI)
    fix w assume p: "plain w"
    show "\<exists>w' a t. writeValue g17 v w = Inr w' \<and> grown w (a @ t) w' \<and> blanks a \<and> spells v t"
    proof (cases "nonempty_container v")
      case False
      then have "writeValue g17 v w = Inr (append_text (leaf_text g17 v) w)"
        using writeValue_leaf[of v g17 w] p by (simp add: pushValue_def plain_def)
      with grown_append[OF p] leaf_spells[OF False Suc.prems] show ?thesis
        by (intro exI[of _ "append_text (leaf_text g17 v) w"] exI[of _ "[]"] exI[of _ "leaf_text g17 v"]) simp
    next
      case True
      then consider (array) xs where "v = JArray xs" "xs \<noteq> []" | (object) ms where "v = JObject ms" "ms \<noteq> []"
        by (cases v) (auto simp: nonempty_container_def)
      then show ?thesis
      proof cases
        case array
        with Suc have "list_all (writes g17) xs" "list_all (readable n) xs" by (auto simp: list_all_iff)
        from writeArrayValue_writes[OF array(2) this p] array(1) show ?thesis by simp
      next
        case object
        with Suc have "list_all (\<lambda>m. writes g17 (snd m)) ms" by (auto simp: list_all_iff)
        from member_loop_writes[OF object(2) conjunct1[OF indent_plain[OF p]] this, of "''{''"] obtain w2 u where
          w2: "member_loop (writeValue g17) ms (indent (writeWithIndent ''{'' w)) = Inr w2"
            "grown (indent (writeWithIndent ''{'' w)) u w2" "spells_members ms u" by blast
        from closes[OF p w2(2), of "''}''"] obtain w3 a b where w3: "unindent w2 = Inr w3"
          "grown w (a @ ''{'' @ u @ b @ ''}'') (writeWithIndent ''}'' w3)" "blanks a" "blanks b" by blast
        have "spells v (''{'' @ (u @ b) @ ''}'')"
          unfolding object(1)
          by (rule spells_spells_elements_spells_members.members) (rule spells_members_blanks[OF w2(3) w3(4)])
        then show ?thesis
          using object w2(1) w3(1-3)
          by (intro exI[of _ "writeWithIndent ''}'' w3"] exI[of _ a] exI[of _ "''{'' @ u @ b @ ''}''"]) (simp add: writeObject_def)
      qed
    qed
  qed
qed simp

subsection \<open>The round trip\<close>

lemma write_json_spells:
  assumes "readable n v"
  shows "\<exists>a t. write_json g17 v = Inr (a @ t @ [CHR 0x0A]) \<and> blanks a \<and> spells v t"
proof -
  have "plain StyledWriter_new" by (simp add: plain_def StyledWriter_new_def)
  with writeValue_writes[OF assms, of g17] obtain w' a t where
    "writeValue g17 v StyledWriter_new = Inr w'" "grown StyledWriter_new (a @ t) w'" "blanks a" "spells v t"
    unfolding writes_def by blast
  then show ?thesis by (auto simp: write_json_def grown_def StyledWriter_new_def)
qed

lemma write_then_read:
  assumes "readable stackLimit_g v"
  shows "\<exists>doc. write_json g17 v = Inr doc \<and> parse_json rd old doc = Some (Inr (True, v))"
proof -
  from write_json_spells[OF assms, of g17] obtain a t where
    t: "write_json g17 v = Inr (a @ t @ [CHR 0x0A])" "blanks a" "spells v t" by blast
  have "readValue rd stackLimit_g old (a @ t @ [CHR 0x0A]) = Some (Inr (True, v, [CHR 0x0A]))"
    by (rule spells_read(1)[OF t(3) assms t(2)]) simp
  with t(1) show ?thesis by (simp add: parse_json_def)
qed

text \<open>
  Property C8. What the writer writes, the reader reads back: a value nested less deeply than the stack
  limit, with 64-bit integers, any strings and names without a zero character is written without a
  fault, and reading the text gives the same value, whatever the value it is read over.
\<close>

theorem written_json_reads_back:
  assumes "readable stackLimit_g v"
  shows "\<exists>doc. write_json g17 v = Inr doc \<and> parse_json rd old doc = Some (Inr (True, v))"
  by (rule write_then_read[OF assms])

theorem written_json_reads_back_witness:
  "\<exists>doc. write_json (\<lambda>x. []) (JObject [(''a'', JArray [JInt (-7), JString [CHR 0x22, CHR 0x0A]]), (''b'', JObject [])]) = Inr doc
     \<and> parse_json (\<lambda>x. None) JNull doc
       = Some (Inr (True, JObject [(''a'', JArray [JInt (-7), JString [CHR 0x22, CHR 0x0A]]), (''b'', JObject [])]))"
proof -
  have "readable (Suc (Suc (Suc 0))) (JObject [(''a'', JArray [JInt (-7), JString [CHR 0x22, CHR 0x0A]]), (''b'', JObject [])])"
    by (simp add: less_char_def)
  then have "readable stackLimit_g (JObject [(''a'', JArray [JInt (-7), JString [CHR 0x22, CHR 0x0A]]), (''b'', JObject [])])"
    by (rule readable_mono) (simp add: stackLimit_g_def)
  then show ?thesis
    using written_json_reads_back[of "JObject [(''a'', JArray [JInt (-7), JString [CHR 0x22, CHR 0x0A]]), (''b'', JObject [])]"
        "\<lambda>x. []" "\<lambda>x. None" JNull] by simp
qed

text \<open>The text that nests arrays without end.\<close>

definition nested :: "nat \<Rightarrow> string" where
  "nested n = replicate n (CHR ''['')"

lemma nested_value:
  "levels \<le> n \<Longrightarrow> readValue rd levels old (nested n) = Some (Inl (Thrown ''Exceeded stackLimit in readValue().''))"
proof (induction levels arbitrary: n old)
  case (Suc levels)
  then obtain m where m: "n = Suc m" "levels \<le> m" by (cases n) auto
  have t: "skipCommentTokens (CHR ''['' # nested m) = (tokenArrayBegin, ''['', nested m)"
    by (rule skipCommentTokens_token[OF punctuation(5)]) simp
  have "skipSpaces (nested m) = nested m \<and> (nested m \<noteq> [] \<longrightarrow> hd (nested m) \<noteq> CHR '']'')"
    by (cases m) (simp_all add: nested_def skipSpaces_def json_space_def)
  then have "readArray (readValue rd levels) (nested m) = Some (Inl (Thrown ''Exceeded stackLimit in readValue().''))"
    using Suc.IH[OF m(2), of JNull] by (auto simp: readArray_def Let_def array_loop.simps[of _ "[]" "nested m"])
  then show ?case using t by (simp add: m(1)) (simp add: nested_def)
qed simp

text \<open>
  Property C25. The reader returns on every text: it ends, and gives an answer or the exception of the stack
  limit, which a document of a thousand nested arrays raises.
\<close>

theorem reader_returns:
  "(\<exists>res. parse_json rd old doc = Some res)
   \<and> parse_json rd old (nested stackLimit_g) = Some (Inl (Thrown ''Exceeded stackLimit in readValue().''))"
  using parse_json_total[of rd old doc] nested_value[of stackLimit_g stackLimit_g rd old] by (simp add: parse_json_def)

end
