(* ===== verification/JsonSuffix.thy ===== *)
theory JsonSuffix
  imports JsonReader
begin

text \<open>
  What text behind a document does to \<open>Json::Reader\<close>: a value that was read, and was not cut off by the end
  of the text, is read in the same way when more text follows. Each operation of the reader is followed
  on \<open>s @ j\<close>: it makes the same steps and leaves its rest followed by \<open>j\<close>.
\<close>

subsection \<open>Tokens\<close>

lemma skipSpaces_append: "skipSpaces s \<noteq> [] \<Longrightarrow> skipSpaces (s @ j) = skipSpaces s @ j"
  by (induction s) (auto simp: skipSpaces_def)

lemma drop_digits_append: "drop_digits s \<noteq> [] \<Longrightarrow> drop_digits (s @ j) = drop_digits s @ j"
  by (induction s) (auto simp: drop_digits_def)

lemma drop_digits_Nil [simp]: "drop_digits [] = []"
  by (simp add: drop_digits_def)

lemma readNumber_append:
  assumes "readNumber s \<noteq> []"
  shows "readNumber (s @ j) = readNumber s @ j"
proof -
  define s1 where "s1 = drop_digits s"
  define s2 where "s2 = (if s1 \<noteq> [] \<and> hd s1 = CHR ''.'' then drop_digits (tl s1) else s1)"
  have r: "readNumber s = (if s2 \<noteq> [] \<and> hd s2 \<in> {CHR ''e'', CHR ''E''}
     then drop_digits (if tl s2 \<noteq> [] \<and> hd (tl s2) \<in> {CHR ''+'', CHR ''-''} then tl (tl s2) else tl s2) else s2)"
    unfolding readNumber_def Let_def s1_def[symmetric] s2_def[symmetric] by (rule refl)
  have n2: "s2 \<noteq> []" using assms unfolding r by auto
  then have n1: "s1 \<noteq> []" by (auto simp: s2_def)
  have 1: "drop_digits (s @ j) = s1 @ j" using n1 by (simp add: s1_def drop_digits_append)
  have 2: "(if s1 @ j \<noteq> [] \<and> hd (s1 @ j) = CHR ''.'' then drop_digits (tl (s1 @ j)) else s1 @ j) = s2 @ j"
    using n1 n2 by (auto simp: s2_def drop_digits_append)
  have r': "readNumber (s @ j) = (if s2 @ j \<noteq> [] \<and> hd (s2 @ j) \<in> {CHR ''e'', CHR ''E''}
     then drop_digits (if tl (s2 @ j) \<noteq> [] \<and> hd (tl (s2 @ j)) \<in> {CHR ''+'', CHR ''-''} then tl (tl (s2 @ j)) else tl (s2 @ j))
     else s2 @ j)"
    unfolding readNumber_def Let_def 1 2 by (rule refl)
  show ?thesis
  proof (cases "hd s2 \<in> {CHR ''e'', CHR ''E''}")
    case True
    define s3 where "s3 = tl s2"
    have e: "drop_digits (if s3 \<noteq> [] \<and> hd s3 \<in> {CHR ''+'', CHR ''-''} then tl s3 else s3) \<noteq> []"
      using assms True n2 unfolding r s3_def by simp
    then have n3: "s3 \<noteq> []" by auto
    then show ?thesis
      unfolding r r' using True n2 e by (auto simp: s3_def[symmetric] drop_digits_append)
  next
    case False
    then show ?thesis unfolding r r' using n2 by simp
  qed
qed

lemma readString_append: "readString s = (True, r) \<Longrightarrow> readString (s @ j) = (True, r @ j)"
proof (induction s rule: readString.induct)
  case (2 c cs)
  then show ?case by (cases cs) (auto split: if_splits)
qed simp

lemma readCStyleComment_append: "readCStyleComment s = (True, r) \<Longrightarrow> readCStyleComment (s @ j) = (True, r @ j)"
proof (induction s rule: readCStyleComment.induct)
  case (2 c cs)
  then show ?case by (cases cs) (auto split: if_splits)
qed simp

lemma readCStyleComment_failed: "readCStyleComment s = (False, r) \<Longrightarrow> r = []"
  by (induction s rule: readCStyleComment.induct) (auto split: if_splits)

lemma readCppStyleComment_append:
  "readCppStyleComment s \<noteq> [] \<Longrightarrow> readCppStyleComment (s @ j) = readCppStyleComment s @ j"
  by (induction s rule: readCppStyleComment.induct) auto

lemma readString_failed: "readString s = (False, r) \<Longrightarrow> r = []"
proof (induction s rule: readString.induct)
  case (2 c cs)
  then show ?case by (cases cs) (auto split: if_splits)
qed simp

text \<open>
  A token that the end of the text did not decide: it ends with a character of its own, or a character
  follows, and where no token was found what follows is more than the start of \<open>true\<close>, \<open>false\<close> or \<open>null\<close>.
\<close>

definition letters :: "char set" where
  "letters = set ''ruealsul''"

definition closed_token :: "token_type \<Rightarrow> bool" where
  "closed_token ty \<longleftrightarrow> ty \<notin> {tokenEndOfStream, tokenNumber, tokenComment, tokenError}"

definition firm :: "token_type \<Rightarrow> string \<Rightarrow> bool" where
  "firm ty r \<longleftrightarrow> closed_token ty \<or> r \<noteq> [] \<and> (ty = tokenError \<longrightarrow> \<not> set r \<subseteq> letters)"

lemma json_match_append:
  assumes "set p \<subseteq> letters" and "json_match p s = (ok, r)" and "ok \<or> \<not> set r \<subseteq> letters"
  shows "json_match p (s @ j) = (ok, r @ j)"
proof (cases ok)
  case True
  with assms(2) obtain t where "s = p @ t" by (auto simp: json_match_def starts_with_iff split: if_splits)
  with assms(2) True show ?thesis by (simp add: json_match_def)
next
  case False
  with assms(2) have n: "\<not> starts_with p s" "r = s" by (auto simp: json_match_def split: if_splits)
  have "\<not> starts_with p (s @ j)"
  proof
    assume "starts_with p (s @ j)"
    then obtain t where t: "s @ j = p @ t" by (auto simp: starts_with_iff)
    then obtain u where "s = p @ u \<or> p = s @ u" by (auto simp: append_eq_append_conv2)
    moreover have "s \<noteq> p @ u" using n(1) by auto
    ultimately have "p = s @ u" by blast
    then have "set s \<subseteq> set p" by simp
    with assms(1,3) n False show False by auto
  qed
  with n False show ?thesis by (simp add: json_match_def)
qed

lemma token_if_ok: "token_if t res = (ty, r) \<Longrightarrow> \<exists>ok. res = (ok, r) \<and> ty = (if ok then t else tokenError)"
  by (cases res) (simp add: token_if_def)

lemma next_token_append:
  assumes "next_token c r = (ty, r')" and "firm ty r'"
  shows "next_token c (r @ j) = (ty, r' @ j)"
proof -
  have word: "token_if t (json_match p (r @ j)) = (ty, r' @ j)"
    if t: "token_if t (json_match p r) = (ty, r')" "closed_token t" "set p \<subseteq> letters" for t p
  proof -
    from token_if_ok[OF t(1)] obtain ok where "json_match p r = (ok, r')" "ty = (if ok then t else tokenError)" by blast
    with json_match_append[OF t(3), of r ok r' j] assms(2) show ?thesis
      by (auto simp: token_if_def firm_def closed_token_def split: if_splits)
  qed
  consider "c = CHR 0x22" | "c = CHR ''/''" | "is_digit10 c \<or> c = CHR ''-''" | "c = CHR ''t''" | "c = CHR ''f''" | "c = CHR ''n''"
    | "c \<notin> {CHR 0x22, CHR ''/'', CHR ''-'', CHR ''t'', CHR ''f'', CHR ''n''}" "\<not> is_digit10 c" by blast
  then show ?thesis
  proof cases
    case 1
    with assms(1) have "token_if tokenString (readString r) = (ty, r')" by (simp add: next_token_def)
    from token_if_ok[OF this] obtain ok where "readString r = (ok, r')" "ty = (if ok then tokenString else tokenError)" by blast
    with 1 assms(2) readString_append[of r r' j] readString_failed[of r r'] show ?thesis
      by (cases ok) (auto simp: next_token_def token_if_def firm_def closed_token_def)
  next
    case 2
    with assms(1) have "token_if tokenComment (readComment r) = (ty, r')" by (simp add: next_token_def)
    from token_if_ok[OF this] obtain ok where k: "readComment r = (ok, r')" "ty = (if ok then tokenComment else tokenError)" by blast
    with assms(2) have n: "r' \<noteq> []" by (auto simp: firm_def closed_token_def split: if_splits)
    then have "r \<noteq> []" using k(1) by (auto simp: readComment_def getNextChar_def)
    then have "readComment (r @ j) = (ok, r' @ j)"
      using k(1) n readCStyleComment_append[of "tl r" r' j] readCStyleComment_failed[of "tl r" r']
        readCppStyleComment_append[of "tl r" j]
      by (cases ok) (auto simp: readComment_def getNextChar_def split: if_splits)
    with 2 k(2) show ?thesis by (simp add: next_token_def token_if_def)
  next
    case 3
    then have c: "next_token c x = (tokenNumber, readNumber x)" for x
      by (auto simp: next_token_def is_digit10_def)
    with assms have "readNumber r \<noteq> []" by (auto simp: firm_def closed_token_def)
    with c assms(1) readNumber_append[of r j] show ?thesis by simp
  next
    case 4
    with assms(1) word[of tokenTrue "''rue''"] show ?thesis
      by (simp add: next_token_def is_digit10_def closed_token_def letters_def)
  next
    case 5
    with assms(1) word[of tokenFalse "''alse''"] show ?thesis
      by (simp add: next_token_def is_digit10_def closed_token_def letters_def)
  next
    case 6
    with assms(1) word[of tokenNull "''ull''"] show ?thesis
      by (simp add: next_token_def is_digit10_def closed_token_def letters_def)
  next
    case 7
    with assms(1) show ?thesis by (auto simp: next_token_def split: if_splits)
  qed
qed

lemma readToken_form:
  assumes "readToken s = (ty, tx, r)" and "firm ty r"
  shows "skipSpaces s \<noteq> []" and "next_token (hd (skipSpaces s)) (tl (skipSpaces s)) = (ty, r)"
proof -
  obtain c q where g: "getNextChar (skipSpaces s) = (c, q)" by fastforce
  with assms(1) have n: "next_token c q = (ty, r)" by (auto simp: readToken_def Let_def split: prod.splits)
  show ne: "skipSpaces s \<noteq> []"
  proof
    assume "skipSpaces s = []"
    with g n have "ty = tokenEndOfStream" "r = []" by (auto simp: getNextChar_def next_token_def is_digit10_def)
    with assms(2) show False by (simp add: firm_def closed_token_def)
  qed
  with g n show "next_token (hd (skipSpaces s)) (tl (skipSpaces s)) = (ty, r)" by (simp add: getNextChar_def)
qed

lemma readToken_append:
  assumes "readToken s = (ty, tx, r)" and "firm ty r"
  shows "readToken (s @ j) = (ty, tx, r @ j)"
proof -
  note f = readToken_form[OF assms]
  let ?t = "skipSpaces s"
  have "next_token (hd (?t @ j)) (tl (?t @ j)) = (ty, r @ j)"
    using next_token_append[OF f(2) assms(2), of j] f(1) by simp
  moreover have "tx = take (length ?t - length r) ?t"
    using assms(1) f by (auto simp: readToken_def Let_def getNextChar_def)
  ultimately show ?thesis
    using f(1) by (simp add: readToken_def Let_def getNextChar_def skipSpaces_append)
qed

lemma skipCommentTokens_Nil: "skipCommentTokens [] = (tokenEndOfStream, [], [])"
proof -
  have "readToken [] = (tokenEndOfStream, [], [])"
    by (simp add: readToken_def skipSpaces_def getNextChar_def next_token_def is_digit10_def)
  then show ?thesis by (simp add: skipCommentTokens.simps[of "[]"])
qed

lemma skipCommentTokens_append:
  "skipCommentTokens s = (ty, tx, r) \<Longrightarrow> firm ty r \<Longrightarrow> skipCommentTokens (s @ j) = (ty, tx, r @ j)"
proof (induction s rule: skipCommentTokens.induct)
  case (1 s)
  obtain ty1 tx1 r1 where t: "readToken s = (ty1, tx1, r1)" by (metis prod.exhaust)
  show ?case
  proof (cases "ty1 = tokenComment")
    case True
    with "1.prems"(1) t have run: "skipCommentTokens r1 = (ty, tx, r)" by (simp add: skipCommentTokens.simps[of s])
    then have "r1 \<noteq> []" using "1.prems"(2) by (auto simp: skipCommentTokens_Nil firm_def closed_token_def)
    then have "firm ty1 r1" using True by (simp add: firm_def closed_token_def)
    from readToken_append[OF t this, of j] "1.IH"[OF t[symmetric] refl True run "1.prems"(2)] True
    show ?thesis by (simp add: skipCommentTokens.simps[of "s @ j"])
  next
    case False
    with "1.prems"(1) t have e: "ty1 = ty" "tx1 = tx" "r1 = r" by (simp_all add: skipCommentTokens.simps[of s])
    with readToken_append[OF t, of j] "1.prems"(2) False show ?thesis by (simp add: skipCommentTokens.simps[of "s @ j"])
  qed
qed

text \<open>A token other than a word starts with a character that no word has.\<close>

lemma token_not_letters:
  assumes "readToken s = (ty, tx, r)" and "ty \<in> {tokenObjectEnd, tokenString}"
  shows "\<not> set s \<subseteq> letters"
proof -
  have "firm ty r" using assms(2) by (auto simp: firm_def closed_token_def)
  note f = readToken_form[OF assms(1) this]
  have "hd (skipSpaces s) \<in> {CHR ''}'', CHR 0x22}"
    using f(2) assms(2) by (auto simp: next_token_def token_if_def split: if_splits prod.splits)
  moreover have "hd (skipSpaces s) \<in> set s"
    using f(1) set_dropWhileD unfolding skipSpaces_def by (metis list.set_sel(1))
  ultimately show ?thesis by (auto simp: letters_def)
qed

lemma comment_not_letters:
  assumes "readToken s = (tokenComment, tx, r)" and "r \<noteq> []"
  shows "\<not> set s \<subseteq> letters"
proof -
  have "firm tokenComment r" using assms(2) by (simp add: firm_def)
  note f = readToken_form[OF assms(1) this]
  have "hd (skipSpaces s) = CHR ''/''"
    using f(2) by (auto simp: next_token_def token_if_def split: if_splits prod.splits)
  moreover have "hd (skipSpaces s) \<in> set s"
    using f(1) set_dropWhileD unfolding skipSpaces_def by (metis list.set_sel(1))
  ultimately show ?thesis by (auto simp: letters_def)
qed

lemma skip_not_letters:
  assumes "skipCommentTokens s = (ty, tx, r)" and "ty \<in> {tokenObjectEnd, tokenString}"
  shows "\<not> set s \<subseteq> letters"
proof -
  obtain ty1 tx1 r1 where t: "readToken s = (ty1, tx1, r1)" by (metis prod.exhaust)
  show ?thesis
  proof (cases "ty1 = tokenComment")
    case True
    with assms t have "skipCommentTokens r1 = (ty, tx, r)" by (simp add: skipCommentTokens.simps[of s])
    then have "r1 \<noteq> []" using assms(2) by (auto simp: skipCommentTokens_Nil)
    with comment_not_letters t True show ?thesis by blast
  next
    case False
    with assms(1) t have "ty1 = ty" by (simp add: skipCommentTokens.simps[of s])
    with token_not_letters[OF t] assms(2) show ?thesis by blast
  qed
qed

subsection \<open>Values\<close>

definition is_compound :: "json \<Rightarrow> bool" where
  "is_compound v \<longleftrightarrow> (\<exists>xs. v = JArray xs) \<or> (\<exists>ms. v = JObject ms)"

text \<open>A value that ends with a bracket, or is followed by a character, is read as it was.\<close>

definition extends :: "(json \<Rightarrow> string \<Rightarrow> reading_result) \<Rightarrow> bool" where
  "extends rv \<longleftrightarrow> (\<forall>old s v r. rv old s = Some (Inr (True, v, r)) \<longrightarrow>
     s \<noteq> [] \<and> (is_compound v \<or> r \<noteq> [] \<longrightarrow> (\<forall>j. rv old (s @ j) = Some (Inr (True, v, r @ j)))))"

lemma extendsD:
  assumes "extends rv" and "rv old s = Some (Inr (True, v, r))"
  shows "s \<noteq> []" and "r \<noteq> [] \<Longrightarrow> rv old (s @ j) = Some (Inr (True, v, r @ j))"
  using assms unfolding extends_def by blast+

lemma failed_not_ok [simp]: "failed skip v s \<noteq> Some (Inr (True, v', r))"
  by (simp add: failed_def)

lemma array_loop_append:
  assumes ext: "extends rv" and run: "array_loop rv xs s = Some (Inr (True, v, r))"
  shows "is_compound v \<and> array_loop rv xs (s @ j) = Some (Inr (True, v, r @ j))"
proof -
  have "extends rv \<longrightarrow> res = Inr (True, v, r) \<longrightarrow> is_compound v \<and> array_loop rv xs (s @ j) = Some (Inr (True, v, r @ j))"
    if loop: "array_loop rv xs s = Some res" for res
  proof (rule array_loop.raw_induct[where P = "\<lambda>rv xs s res. extends rv \<longrightarrow> res = Inr (True, v, r) \<longrightarrow>
      is_compound v \<and> array_loop rv xs (s @ j) = Some (Inr (True, v, r @ j))", OF _ loop])
    fix f rv xs s res
    assume IH: "\<And>rv xs s y. f rv xs s = Some y \<Longrightarrow> extends rv \<longrightarrow> y = Inr (True, v, r) \<longrightarrow>
        is_compound v \<and> array_loop rv xs (s @ j) = Some (Inr (True, v, r @ j))"
      and step: "(case rv JNull s of None \<Rightarrow> None | Some (Inl e) \<Rightarrow> Some (Inl e)
        | Some (Inr (ok, v, r)) \<Rightarrow> if \<not> ok then failed tokenArrayEnd (JArray (xs @ [v])) r
          else (case skipCommentTokens r of (ty, tx, r2) \<Rightarrow>
            if ty \<notin> {tokenArraySeparator, tokenArrayEnd} then failed tokenArrayEnd (JArray (xs @ [v])) r2
            else if ty = tokenArrayEnd then Some (Inr (True, JArray (xs @ [v]), r2))
            else f rv (xs @ [v]) r2)) = Some res"
    show "extends rv \<longrightarrow> res = Inr (True, v, r) \<longrightarrow>
      is_compound v \<and> array_loop rv xs (s @ j) = Some (Inr (True, v, r @ j))"
    proof (intro impI)
      assume e: "extends rv" and ok: "res = Inr (True, v, r)"
      from step ok obtain w q where w: "rv JNull s = Some (Inr (True, w, q))"
        by (auto simp: failed_def split: option.splits sum.splits if_splits)
      obtain ty tx r2 where t: "skipCommentTokens q = (ty, tx, r2)" by (metis prod.exhaust)
      from step ok w t have ty: "ty \<in> {tokenArraySeparator, tokenArrayEnd}" by (auto simp: failed_def split: if_splits)
      then have "firm ty r2" by (auto simp: firm_def closed_token_def)
      note t' = skipCommentTokens_append[OF t this, of j]
      from t ty have "q \<noteq> []" by (auto simp: skipCommentTokens_Nil)
      note w' = extendsD(2)[OF e w this, of j]
      show "is_compound v \<and> array_loop rv xs (s @ j) = Some (Inr (True, v, r @ j))"
      proof (cases "ty = tokenArrayEnd")
        case True
        with step ok w t ty have "v = JArray (xs @ [w])" "r = r2" by auto
        with True show ?thesis by (simp add: array_loop.simps[of rv xs "s @ j"] w' t' is_compound_def)
      next
        case False
        with step ok w t ty have "f rv (xs @ [w]) r2 = Some (Inr (True, v, r))" by auto
        from IH[OF this] e ty False show ?thesis by (simp add: array_loop.simps[of rv xs "s @ j"] w' t')
      qed
    qed
  qed
  with run ext show ?thesis by blast
qed

lemma readArray_append:
  assumes ext: "extends rv" and run: "readArray rv s = Some (Inr (True, v, r))"
  shows "is_compound v \<and> readArray rv (s @ j) = Some (Inr (True, v, r @ j))"
proof -
  let ?t = "skipSpaces s"
  have ne: "?t \<noteq> []"
  proof
    assume "?t = []"
    with run have "array_loop rv [] [] = Some (Inr (True, v, r))" by (simp add: readArray_def)
    then obtain w q where "rv JNull [] = Some (Inr (True, w, q))"
      by (auto simp: array_loop.simps[of rv "[]" "[]"] failed_def split: option.splits sum.splits if_splits)
    with extendsD(1)[OF ext] show False by blast
  qed
  show ?thesis
  proof (cases "hd ?t = CHR '']''")
    case True
    obtain ty tx q where t: "readToken ?t = (ty, tx, q)" by (metis prod.exhaust)
    have s: "skipSpaces ?t = ?t" by (simp add: skipSpaces_def)
    then have "ty = tokenArrayEnd" using t True ne by (auto simp: readToken_def getNextChar_def next_token_def Let_def)
    then have "firm ty q" by (simp add: firm_def closed_token_def)
    from readToken_append[OF t this, of j] run t True ne show ?thesis
      by (auto simp: readArray_def skipSpaces_append is_compound_def)
  next
    case False
    with run ne have "array_loop rv [] ?t = Some (Inr (True, v, r))" by (simp add: readArray_def Let_def)
    from array_loop_append[OF ext this, of j] False ne show ?thesis
      by (simp add: readArray_def skipSpaces_append Let_def)
  qed
qed

text \<open>A member that goes on with the next one, or ends the object.\<close>

lemma read_member_append:
  assumes ext: "extends rv"
    and run: "read_member rv name ms s = Inr (nm, ms', r) \<and> \<not> set r \<subseteq> letters \<and> res' = Inr (nm, ms', r @ j)
      \<or> read_member rv name ms s = Inl (Some (Inr (True, v, r))) \<and> res' = Inl (Some (Inr (True, v, r @ j)))"
  shows "read_member rv name ms (s @ j) = res'" and "\<not> set s \<subseteq> letters"
proof -
  obtain ty tx q where t: "skipCommentTokens s = (ty, tx, q)" by (metis prod.exhaust)
  have ty: "ty = tokenObjectEnd \<and> name = [] \<or> ty = tokenString"
    using run by (auto simp: read_member_def t split: if_splits)
  then have f: "firm ty q" by (auto simp: firm_def closed_token_def)
  note t' = skipCommentTokens_append[OF t f, of j]
  show "\<not> set s \<subseteq> letters" using skip_not_letters[OF t] ty by auto
  show "read_member rv name ms (s @ j) = res'"
  proof (cases "ty = tokenString")
    case False
    with ty run show ?thesis by (auto simp: read_member_def t t')
  next
    case str: True
    with run obtain m where m: "decodeString tx = Some m" by (cases "decodeString tx") (auto simp: read_member_def t)
    obtain ty2 tx2 r2 where t2: "readToken q = (ty2, tx2, r2)" by (metis prod.exhaust)
    have ty2: "ty2 = tokenMemberSeparator" using run by (auto simp: read_member_def t str m t2 split: if_splits)
    then have "firm ty2 r2" by (simp add: firm_def closed_token_def)
    note t2' = readToken_append[OF t2 this, of j]
    define old where "old = (case map_of ms m of None \<Rightarrow> JNull | Some v \<Rightarrow> v)"
    obtain w r3 where w: "rv old r2 = Some (Inr (True, w, r3))"
      using run by (auto simp: read_member_def t str m t2 ty2 old_def[symmetric] split: option.splits sum.splits if_splits)
    obtain ty4 tx4 r4 where t4: "readToken r3 = (ty4, tx4, r4)" by (metis prod.exhaust)
    obtain ty5 tx5 r5 where t5: "(if ty4 = tokenComment then skipCommentTokens r4 else (ty4, tx4, r4)) = (ty5, tx5, r5)"
      by (metis prod.exhaust)
    have form: "read_member rv name ms s =
       (if ty4 \<notin> {tokenObjectEnd, tokenArraySeparator, tokenComment}
        then Inl (failed tokenObjectEnd (JObject (set_member m w ms)) r4)
        else if ty5 = tokenObjectEnd then Inl (Some (Inr (True, JObject (set_member m w ms), r5)))
        else Inr (m, set_member m w ms, r5))"
      by (simp only: read_member_def t str m t2 ty2 old_def[symmetric] w t4 t5 prod.case option.case sum.case
          token_type.distinct simp_thms if_True if_False)
    have ty4: "ty4 \<in> {tokenObjectEnd, tokenArraySeparator, tokenComment}"
      using run unfolding form by (auto split: if_splits)
    then have end_: "ty5 = tokenObjectEnd \<or> \<not> set r5 \<subseteq> letters"
      using run unfolding form by (auto split: if_splits)
    have r4: "r4 \<noteq> [] \<and> firm ty5 r5" if "ty4 = tokenComment"
      using end_ t5 that by (auto simp: skipCommentTokens_Nil firm_def closed_token_def)
    then have f4: "firm ty4 r4" using ty4 by (auto simp: firm_def closed_token_def)
    note t4' = readToken_append[OF t4 this, of j]
    have "r3 \<noteq> []" using readToken_form(1)[OF t4 f4] by (auto simp: skipSpaces_def)
    note w' = extendsD(2)[OF ext w this, of j]
    have t5': "(if ty4 = tokenComment then skipCommentTokens (r4 @ j) else (ty4, tx4, r4 @ j)) = (ty5, tx5, r5 @ j)"
      using t5 r4 skipCommentTokens_append[of r4 ty5 tx5 r5 j] by (auto split: if_splits)
    have "read_member rv name ms (s @ j) =
       (if ty5 = tokenObjectEnd then Inl (Some (Inr (True, JObject (set_member m w ms), r5 @ j)))
        else Inr (m, set_member m w ms, r5 @ j))"
      using ty4
      by (simp only: read_member_def t' str m t2' ty2 old_def[symmetric] w' t4' t5' prod.case option.case sum.case
          token_type.distinct simp_thms if_True if_False)
    then show ?thesis using run ty4 unfolding form by (auto split: if_splits)
  qed
qed

lemma read_member_object:
  assumes "read_member rv name ms s = Inl (Some (Inr (True, v, r)))"
  shows "is_compound v"
  using assms
  by (auto simp: read_member_def is_compound_def split: prod.splits option.splits sum.splits if_splits)

lemma object_loop_append:
  assumes ext: "extends rv" and run: "object_loop rv name ms s = Some (Inr (True, v, r))"
  shows "is_compound v \<and> object_loop rv name ms (s @ j) = Some (Inr (True, v, r @ j))"
proof -
  have "extends rv \<longrightarrow> res = Inr (True, v, r) \<longrightarrow>
      is_compound v \<and> object_loop rv name ms (s @ j) = Some (Inr (True, v, r @ j)) \<and> \<not> set s \<subseteq> letters"
    if loop: "object_loop rv name ms s = Some res" for res
  proof (rule object_loop.raw_induct[where P = "\<lambda>rv name ms s res. extends rv \<longrightarrow> res = Inr (True, v, r) \<longrightarrow>
      is_compound v \<and> object_loop rv name ms (s @ j) = Some (Inr (True, v, r @ j)) \<and> \<not> set s \<subseteq> letters",
      OF _ loop])
    fix f rv name ms s res
    assume IH: "\<And>rv name ms s y. f rv name ms s = Some y \<Longrightarrow> extends rv \<longrightarrow> y = Inr (True, v, r) \<longrightarrow>
        is_compound v \<and> object_loop rv name ms (s @ j) = Some (Inr (True, v, r @ j)) \<and> \<not> set s \<subseteq> letters"
      and step: "(case read_member rv name ms s of Inl res \<Rightarrow> res | Inr (nm, ms', r) \<Rightarrow> f rv nm ms' r) = Some res"
    show "extends rv \<longrightarrow> res = Inr (True, v, r) \<longrightarrow>
      is_compound v \<and> object_loop rv name ms (s @ j) = Some (Inr (True, v, r @ j)) \<and> \<not> set s \<subseteq> letters"
    proof (intro impI)
      assume e: "extends rv" and ok: "res = Inr (True, v, r)"
      show "is_compound v \<and> object_loop rv name ms (s @ j) = Some (Inr (True, v, r @ j)) \<and> \<not> set s \<subseteq> letters"
      proof (cases "read_member rv name ms s")
        case (Inl res1)
        with step ok have l: "read_member rv name ms s = Inl (Some (Inr (True, v, r)))" by simp
        then show ?thesis
          using read_member_append[OF e, where res' = "Inl (Some (Inr (True, v, r @ j)))" and v = v and r = r and j = j]
            read_member_object by (auto simp: object_loop.simps[of rv name ms "s @ j"])
      next
        case (Inr p)
        obtain nm ms' q where p: "p = (nm, ms', q)" by (cases p)
        from step ok Inr p have "f rv nm ms' q = Some (Inr (True, v, r))" by simp
        from IH[OF this] e have next_: "is_compound v" "object_loop rv nm ms' (q @ j) = Some (Inr (True, v, r @ j))"
          "\<not> set q \<subseteq> letters" by auto
        with read_member_append[OF e, where res' = "Inr (nm, ms', q @ j)" and nm = nm and ms' = ms' and r = q and j = j] Inr p
        show ?thesis by (auto simp: object_loop.simps[of rv name ms "s @ j"])
      qed
    qed
  qed
  with run ext show ?thesis by blast
qed

lemma readValue_append: "extends (readValue rd levels)"
proof (induction levels)
  case 0
  then show ?case by (simp add: extends_def)
next
  case (Suc levels)
  show ?case
    unfolding extends_def
  proof (intro allI impI)
    fix old s v r
    assume run: "readValue rd (Suc levels) old s = Some (Inr (True, v, r))"
    obtain ty tx q where t: "skipCommentTokens s = (ty, tx, q)" by (metis prod.exhaust)
    have "s \<noteq> []" using run by (auto simp: skipCommentTokens_Nil)
    moreover have "readValue rd (Suc levels) old (s @ j) = Some (Inr (True, v, r @ j))" if c: "is_compound v \<or> r \<noteq> []" for j
    proof -
      have "firm ty q"
      proof (cases "closed_token ty")
        case False
        with run have n: "ty = tokenNumber" by (auto simp: t closed_token_def)
        with run have "\<not> is_compound v \<and> r = q"
          by (auto simp: t decodeNumber_def is_compound_def Let_def split: option.splits sum.splits)
        with c n show ?thesis by (simp add: firm_def)
      qed (simp add: firm_def)
      note t' = skipCommentTokens_append[OF t this, of j]
      show ?thesis
        using run object_loop_append[OF Suc, of "[]" "[]" q v r j] readArray_append[OF Suc, of q v r j]
        by (auto simp: t t' readObject_def split: if_splits option.splits)
    qed
    ultimately show "s \<noteq> [] \<and> (is_compound v \<or> r \<noteq> [] \<longrightarrow>
        (\<forall>j. readValue rd (Suc levels) old (s @ j) = Some (Inr (True, v, r @ j))))" by blast
  qed
qed

text \<open>A document whose value is an array or an object, or is followed by a character, may be followed by any text.\<close>

lemma readValue_more:
  assumes "readValue rd levels old doc = Some (Inr (True, v, r))"
    and "(\<exists>xs. v = JArray xs) \<or> (\<exists>ms. v = JObject ms) \<or> r \<noteq> []"
  shows "readValue rd levels old (doc @ j) = Some (Inr (True, v, r @ j))"
  using assms readValue_append[of rd levels] unfolding extends_def is_compound_def by blast

end
