(* ===== verification/JsonDocuments.thy ===== *)
theory JsonDocuments
  imports JsonRoundTrip JsonSuffix Configuration
begin

text \<open>
  The documents of the SDK (\<open>Utils/JSONUtils.cpp\<close>): reports made of texts, which are maps of names to
  bytes, and configurations read from the bytes the server sent.
\<close>

definition jsonDataFromValue :: "(rat \<Rightarrow> string) \<Rightarrow> json \<Rightarrow> fault + string" where
  "jsonDataFromValue g17 v = write_json g17 v"

text \<open>The maps are given by their entries, in the order of the keys.\<close>

definition put_member :: "string \<times> string \<Rightarrow> json \<Rightarrow> json" where
  "put_member e v = JObject (set_member (fst e) (JString (snd e)) (case v of JObject ms \<Rightarrow> ms | _ \<Rightarrow> []))"

definition jsonDataFromDataMap ::
  "(rat \<Rightarrow> string) \<Rightarrow> (string \<times> string) list \<Rightarrow> (string \<times> string) list \<Rightarrow> fault + string" where
  "jsonDataFromDataMap g17 aDataMap aStringMap =
     jsonDataFromValue g17 (fold put_member aStringMap (fold put_member aDataMap JNull))"

definition jsonDataFromDataVector :: "(rat \<Rightarrow> string) \<Rightarrow> string list \<Rightarrow> fault + string" where
  "jsonDataFromDataVector g17 aDataVector = jsonDataFromValue g17 (JArray (map JString aDataVector))"

definition processConfigurationText ::
  "(rat \<Rightarrow> string) \<Rightarrow> (string \<Rightarrow> rat option) \<Rightarrow> configuration \<Rightarrow> string \<Rightarrow> (fault + configuration) option" where
  "processConfigurationText g17 rd mem dataString =
     map_option (\<lambda>res. and_then res (\<lambda>(ok, value). processConfigurationData g17 mem (if ok then Some value else None)))
       (parse_json rd JNull dataString)"

subsection \<open>Reports\<close>

lemma set_member_map_of: "map_of (set_member k v ms) = (map_of ms)(k \<mapsto> v)"
  by (induction ms) (auto simp: fun_eq_iff)

lemma set_member_names: "fst ` set (set_member k v ms) = insert k (fst ` set ms)"
proof (induction ms)
  case (Cons m ms)
  then show ?case by (cases m) (auto simp: image_iff)
qed simp

lemma set_member_sorted: "sorted_wrt (<) (map fst ms) \<Longrightarrow> sorted_wrt (<) (map fst (set_member k v ms))"
proof (induction ms)
  case (Cons m ms)
  obtain k' v' where m: "m = (k', v')" by (cases m)
  have names: "\<forall>x \<in> set (map fst ms). k' < x" using Cons.prems by (simp add: m)
  consider "k = k'" | "k < k'" | "k' < k" by (rule linorder_cases[of k k'])
  then show ?case
  proof cases
    case 3
    have "\<forall>x \<in> set (map fst (set_member k v ms)). k' < x"
      using names 3 set_member_names[of k v ms] by auto
    with 3 Cons show ?thesis by (auto simp: m dest: less_asym)
  qed (use Cons.prems names in \<open>auto simp: m dest: less_trans\<close>)
qed simp

definition entries :: "json \<Rightarrow> (string \<times> json) list" where
  "entries v = (case v of JObject ms \<Rightarrow> ms | _ \<Rightarrow> [])"

text \<open>A report object: names in order, without zero characters, and texts.\<close>

definition texts :: "json \<Rightarrow> bool" where
  "texts v \<longleftrightarrow> sorted_wrt (<) (map fst (entries v))
     \<and> (\<forall>(k, x) \<in> set (entries v). CHR 0x00 \<notin> set k \<and> (\<exists>t. x = JString t)) \<and> (v = JNull \<or> v = JObject (entries v))"

lemma set_member_set: "e \<in> set (set_member k v ms) \<Longrightarrow> e = (k, v) \<or> e \<in> set ms"
proof (induction ms)
  case (Cons m ms)
  then show ?case by (cases m) (auto split: if_splits)
qed simp

lemma put_member_texts:
  assumes "texts v" and "CHR 0x00 \<notin> set (fst e)"
  shows "texts (put_member e v)" and "map_of (entries (put_member e v)) = (map_of (entries v))(fst e \<mapsto> JString (snd e))"
    and "put_member e v \<noteq> JNull"
  using assms
  by (auto simp: texts_def put_member_def entries_def[symmetric] entries_def[of "JObject _"] set_member_sorted set_member_map_of
      dest!: set_member_set)

lemma fold_put_member:
  assumes "texts v" and "\<forall>e \<in> set es. CHR 0x00 \<notin> set (fst e)"
  shows "texts (fold put_member es v)
    \<and> map_of (entries (fold put_member es v)) = map_of (entries v) ++ map_of (rev (map (\<lambda>e. (fst e, JString (snd e))) es))
    \<and> (fold put_member es v = JNull \<longleftrightarrow> es = [] \<and> v = JNull)"
  using assms
proof (induction es arbitrary: v)
  case (Cons e es)
  have "CHR 0x00 \<notin> set (fst e)" using Cons.prems(2) by simp
  note p = put_member_texts[OF Cons.prems(1) this]
  let ?f = "\<lambda>e. (fst e, JString (snd e))"
  have r: "map_of (rev (map ?f (e # es))) = [fst e \<mapsto> JString (snd e)] ++ map_of (rev (map ?f es))" by simp
  have f: "fold put_member (e # es) v = fold put_member es (put_member e v)" by simp
  have "\<forall>e \<in> set es. CHR 0x00 \<notin> set (fst e)" using Cons.prems(2) by simp
  note IH = Cons.IH[OF p(1) this]
  have "map_of (entries (fold put_member (e # es) v))
      = (map_of (entries v))(fst e \<mapsto> JString (snd e)) ++ map_of (rev (map ?f es))"
    unfolding f using IH p(2) by metis
  also have "\<dots> = map_of (entries v) ++ map_of (rev (map ?f (e # es)))"
    unfolding r map_add_assoc by (simp only: map_add_upd map_add_empty)
  finally show ?case using IH p(3) unfolding f by blast
qed simp

lemma texts_readable: "texts v \<Longrightarrow> readable (Suc (Suc 0)) v"
proof -
  assume t: "texts v"
  then consider "v = JNull" | ms where "v = JObject ms" by (auto simp: texts_def)
  then show ?thesis
  proof cases
    case 2
    then have "entries v = ms" by (simp add: entries_def)
    with t 2 show ?thesis by (fastforce simp: texts_def list_all_iff)
  qed simp
qed

text \<open>
  Property C30. A report that is sent can be read by any JSON reader of this library: the report of a list of
  records is the array of their bytes as texts, whatever the bytes are; the document of two maps is
  the object of their entries, with the second map winning where both have a name, or null when both
  are empty.
\<close>

theorem reports_read_back:
  assumes "\<forall>e \<in> set dm \<union> set sm. CHR 0x00 \<notin> set (fst e)"
  shows "\<exists>doc1 doc2 v. jsonDataFromDataVector g17 ds = Inr doc1
     \<and> parse_json rd JNull doc1 = Some (Inr (True, JArray (map JString ds)))
     \<and> jsonDataFromDataMap g17 dm sm = Inr doc2 \<and> parse_json rd JNull doc2 = Some (Inr (True, v))
     \<and> (if dm @ sm = [] then v = JNull
        else v = JObject (entries v)
          \<and> map_of (entries v) = map_of (rev (map (\<lambda>e. (fst e, JString (snd e))) (dm @ sm))))"
proof -
  have lim: "readable (Suc (Suc 0)) x \<Longrightarrow> readable stackLimit_g x" for x
    by (erule readable_mono) (simp add: stackLimit_g_def)
  have "readable stackLimit_g (JArray (map JString ds))" by (rule lim) (simp add: list_all_iff)
  from write_then_read[OF this, of g17 rd JNull] obtain doc1 where
    1: "jsonDataFromDataVector g17 ds = Inr doc1" "parse_json rd JNull doc1 = Some (Inr (True, JArray (map JString ds)))"
    by (auto simp: jsonDataFromDataVector_def jsonDataFromValue_def)
  define v where "v = fold put_member (dm @ sm) JNull"
  have t: "texts JNull" "entries JNull = []" by (simp_all add: texts_def entries_def)
  note f = fold_put_member[OF t(1), of "dm @ sm", folded v_def]
  have names: "\<forall>e \<in> set (dm @ sm). CHR 0x00 \<notin> set (fst e)" using assms by auto
  have "readable stackLimit_g v" using f[OF names] by (intro lim texts_readable) blast
  from write_then_read[OF this, of g17 rd JNull] obtain doc2 where
    2: "jsonDataFromDataMap g17 dm sm = Inr doc2" "parse_json rd JNull doc2 = Some (Inr (True, v))"
    by (auto simp: jsonDataFromDataMap_def jsonDataFromValue_def v_def)
  have "if dm @ sm = [] then v = JNull else v = JObject (entries v)
      \<and> map_of (entries v) = map_of (rev (map (\<lambda>e. (fst e, JString (snd e))) (dm @ sm)))"
    using f[OF names] t(2) by (auto simp: texts_def)
  with 1 2 show ?thesis by blast
qed

theorem reports_read_back_witness:
  "\<exists>doc1 doc2. jsonDataFromDataVector (\<lambda>x. []) [''{}'', [CHR 0x22]] = Inr doc1
     \<and> parse_json (\<lambda>x. None) JNull doc1 = Some (Inr (True, JArray [JString ''{}'', JString [CHR 0x22]]))
     \<and> jsonDataFromDataMap (\<lambda>x. []) [] [] = Inr doc2 \<and> parse_json (\<lambda>x. None) JNull doc2 = Some (Inr (True, JNull))"
  using reports_read_back[of "[]" "[]" "\<lambda>x. []" "[''{}'', [CHR 0x22]]" "\<lambda>x. None"] by auto

subsection \<open>What the reader accepts besides\<close>

lemma minus_value: "readValue rd (Suc n) old (CHR ''-'' # CHR '']'' # r) = Some (Inr (True, JInt 0, CHR '']'' # r))"
proof -
  have "readNumber (CHR '']'' # r) = CHR '']'' # r"
    using readNumber_digits[of "[]" "CHR '']'' # r"] by simp
  then have "next_token (CHR ''-'') ([] @ CHR '']'' # r) = (tokenNumber, CHR '']'' # r)" by (simp add: next_token_def)
  from readToken_char[OF _ this] have "readToken (CHR ''-'' # CHR '']'' # r) = (tokenNumber, ''-'', CHR '']'' # r)"
    by (simp add: json_space_def)
  from skipCommentTokens_token[OF this] show ?thesis by (simp add: decodeNumber_def)
qed

lemma minus_array: "readValue rd stackLimit_g old ''[-]'' = Some (Inr (True, JArray [JInt 0], []))"
proof -
  have lim: "stackLimit_g = Suc (Suc 998)" by (simp add: stackLimit_g_def)
  have "skipSpaces ''-]'' = ''-]''" by (simp add: skipSpaces_def json_space_def)
  then have "readArray (readValue rd (Suc 998)) ''-]'' = Some (Inr (True, JArray [JInt 0], []))"
    using minus_value[of rd 998 JNull "[]"] skipCommentTokens_token[OF punctuation(1)[of "[]"]]
    by (simp add: readArray_def array_loop.simps[of _ "[]" "''-]''"])
  moreover have "skipCommentTokens ''[-]'' = (tokenArrayBegin, ''['', ''-]'')"
    by (rule skipCommentTokens_token[OF punctuation(5)]) simp
  ultimately show ?thesis
    unfolding lim by (simp only: readValue.simps prod.case token_type.distinct if_False simp_thms) simp
qed

text \<open>
  Property C39. The reader looks at nothing behind the first value: a document whose value is an array or an object,
  whoever wrote it, is read in the same way when any text follows it, and so is a configuration; the same
  holds for any other value that is followed by a character. The reader also reads a lone minus sign as the number 0.
\<close>

theorem trailing_text_ignored:
  assumes "readValue rd stackLimit_g JNull doc = Some (Inr (True, v, rest))"
    and "(\<exists>xs. v = JArray xs) \<or> (\<exists>ms. v = JObject ms) \<or> rest \<noteq> []"
  shows "parse_json rd JNull doc = Some (Inr (True, v)) \<and> parse_json rd JNull (doc @ junk) = Some (Inr (True, v))
     \<and> processConfigurationText g17 rd mem (doc @ junk) = Some (processConfigurationData g17 mem (Some v))
     \<and> processConfigurationText g17 rd mem (doc @ junk) = processConfigurationText g17 rd mem doc
     \<and> parse_json rd old ''[-]'' = Some (Inr (True, JArray [JInt 0]))"
proof -
  have "parse_json rd JNull doc = Some (Inr (True, v))" "parse_json rd JNull (doc @ junk) = Some (Inr (True, v))"
    using assms(1) readValue_more[OF assms, of junk] by (simp_all add: parse_json_def)
  moreover have "parse_json rd old ''[-]'' = Some (Inr (True, JArray [JInt 0]))"
    by (simp add: parse_json_def minus_array)
  ultimately show ?thesis by (simp add: processConfigurationText_def)
qed

theorem trailing_text_ignored_witness:
  "\<forall>mem. parse_json (\<lambda>x. None) JNull (''[-]'' @ ''}] not JSON'') = Some (Inr (True, JArray [JInt 0]))
   \<and> processConfigurationText (\<lambda>x. []) (\<lambda>x. None) mem (''[-]'' @ ''}] not JSON'')
     = processConfigurationText (\<lambda>x. []) (\<lambda>x. None) mem ''[-]''"
proof
  fix mem
  have "(\<exists>xs. JArray [JInt 0] = JArray xs) \<or> (\<exists>ms. JArray [JInt 0] = JObject ms) \<or> [] \<noteq> ([] :: string)" by blast
  from trailing_text_ignored[OF minus_array this, where junk = "''}] not JSON''" and rd = "\<lambda>x. None" and ?g17.0 = "\<lambda>x. []"
      and mem = mem]
  show "parse_json (\<lambda>x. None) JNull (''[-]'' @ ''}] not JSON'') = Some (Inr (True, JArray [JInt 0]))
   \<and> processConfigurationText (\<lambda>x. []) (\<lambda>x. None) mem (''[-]'' @ ''}] not JSON'')
     = processConfigurationText (\<lambda>x. []) (\<lambda>x. None) mem ''[-]''" by blast
qed

end
