(* ===== verification/LogTargets.thy ===== *)
theory LogTargets
  imports IeeeRound
begin

text \<open>
  Logging (\<open>Debug/RSLog.{h,cpp}\<close>): the log with its registered targets, the in-memory target and
  its filters, and the traffic counters. A target is known by its address, a natural number; a
  printed message is the text \<open>vsprintf\<close> has produced. The locks are not modelled, every
  operation is one step.
\<close>

datatype level = Error | Warning | Info

fun levelToString :: "level \<Rightarrow> string" where
  "levelToString Error = ''ERR''"
| "levelToString Warning = ''WRN''"
| "levelToString Info = ''INF''"

definition kLogTagQUICMIN :: int where "kLogTagQUICMIN = 20"
definition kLogTagQUICMAX :: int where "kLogTagQUICMAX = 29"
definition kLogTagQUICRequest :: int where "kLogTagQUICRequest = kLogTagQUICMIN + 0"
definition kLogTagQUICLibrary :: int where "kLogTagQUICLibrary = kLogTagQUICMIN + 1"
definition kLogTagQUICNetwork :: int where "kLogTagQUICNetwork = kLogTagQUICMIN + 2"

lemmas log_tags =
  kLogTagQUICMIN_def kLogTagQUICMAX_def kLogTagQUICRequest_def kLogTagQUICLibrary_def kLogTagQUICNetwork_def

subsection \<open>The log and its targets\<close>

record log =
  mBufferSize :: nat
  mCustomTargets :: "nat list"

record printed =
  to_target :: "nat option" \<comment> \<open>\<open>None\<close> is the default target\<close>
  p_level :: level
  p_tag :: int
  p_message :: string

definition Log_new :: log where
  "Log_new = \<lparr>mBufferSize = 65536, mCustomTargets = []\<rparr>"

text \<open>A null reference is \<open>None\<close>.\<close>

definition addTarget :: "nat option \<Rightarrow> log \<Rightarrow> log" where
  "addTarget t l =
     (case t of None \<Rightarrow> l
      | Some a \<Rightarrow> if a \<in> set (mCustomTargets l) then l
                  else l\<lparr>mCustomTargets := mCustomTargets l @ [a]\<rparr>)"

definition remTarget :: "nat option \<Rightarrow> log \<Rightarrow> log" where
  "remTarget t l =
     (case t of None \<Rightarrow> l
      | Some a \<Rightarrow> l\<lparr>mCustomTargets := remove1 a (mCustomTargets l)\<rparr>)"

definition p_printBufferToTargets :: "level \<Rightarrow> int \<Rightarrow> string \<Rightarrow> log \<Rightarrow> printed list" where
  "p_printBufferToTargets lvl tag text l =
     \<lparr>to_target = None, p_level = lvl, p_tag = tag, p_message = c_str text\<rparr> #
     map (\<lambda>t. \<lparr>to_target = Some t, p_level = lvl, p_tag = tag, p_message = c_str text\<rparr>) (mCustomTargets l)"

text \<open>
  \<open>vsprintf\<close> writes the text and a zero into the buffer, whatever its size; the assertion on the
  length comes after the targets have been given the buffer.
\<close>

definition p_vsprintf :: "level \<Rightarrow> int \<Rightarrow> string \<Rightarrow> log \<Rightarrow> fault + (int \<times> printed list)" where
  "p_vsprintf lvl tag text l =
     (if mBufferSize l < length text + 1 then Inl UndefinedBehaviour
      else let out = p_printBufferToTargets lvl tag text l in
        if length text < mBufferSize l then Inr (int (length text), out) else Inl AssertFailed)"

definition log_print :: "level \<Rightarrow> int \<Rightarrow> string option \<Rightarrow> log \<Rightarrow> fault + (int \<times> printed list)" where
  "log_print lvl tag text l =
     (case text of None \<Rightarrow> Inr (- 1, []) | Some t \<Rightarrow> p_vsprintf lvl tag t l)"

lemma addTarget_distinct: "distinct (mCustomTargets l) \<Longrightarrow> distinct (mCustomTargets (addTarget t l))"
  by (auto simp: addTarget_def split: option.split)

lemma remTarget_distinct: "distinct (mCustomTargets l) \<Longrightarrow> distinct (mCustomTargets (remTarget t l))"
  by (auto simp: remTarget_def split: option.split)

text \<open>A target added to a log without it and removed again leaves the log as it was.\<close>

lemma add_rem_target:
  "a \<notin> set (mCustomTargets l) \<Longrightarrow> remTarget (Some a) (addTarget (Some a) l) = l"
  by (simp add: addTarget_def remTarget_def remove1_append)

lemma removed_target_silent:
  assumes "distinct (mCustomTargets l)" and "log_print lvl tag text (remTarget (Some a) l) = Inr (n, out)"
  shows "Some a \<notin> to_target ` set out"
  using assms by (auto simp: log_print_def p_vsprintf_def p_printBufferToTargets_def remTarget_def Let_def
      split: option.splits if_splits)

subsection \<open>Entries and filters\<close>

record entry =
  mLevel :: level
  mTag :: int
  mMessage :: string

record simple_filter =
  mKeyword :: string
  mLevels :: "level \<Rightarrow> bool"
  mTags :: "int set"

definition SimpleFilter_new :: simple_filter where
  "SimpleFilter_new = \<lparr>mKeyword = [], mLevels = (\<lambda>_. True), mTags = {}\<rparr>"

definition setLevels :: "bool \<Rightarrow> bool \<Rightarrow> bool \<Rightarrow> simple_filter \<Rightarrow> simple_filter" where
  "setLevels aErrors aWarnings aInfos f =
     f\<lparr>mLevels := (\<lambda>l. case l of Error \<Rightarrow> aErrors | Warning \<Rightarrow> aWarnings | Info \<Rightarrow> aInfos)\<rparr>"

fun contains :: "string \<Rightarrow> string \<Rightarrow> bool" where
  "contains kw [] = (kw = [])"
| "contains kw (c # cs) = (starts_with kw (c # cs) \<or> contains kw cs)"

definition corresponds :: "simple_filter \<Rightarrow> entry \<Rightarrow> bool" where
  "corresponds f e =
     (if \<not> mLevels f (mLevel e) then False
      else if mTags f \<noteq> {} \<and> mTag e \<notin> mTags f then False
      else if mKeyword f \<noteq> [] \<and> \<not> contains (mKeyword f) (mMessage e) then False
      else True)"

lemma contains_iff: "contains kw s \<longleftrightarrow> (\<exists>a b. s = a @ kw @ b)"
proof (induction s)
  case (Cons c cs)
  show ?case
  proof
    assume "contains kw (c # cs)"
    then consider "starts_with kw (c # cs)" | "contains kw cs" by auto
    then show "\<exists>a b. c # cs = a @ kw @ b"
    proof cases
      case 1
      then show ?thesis by (metis append_Nil starts_with_iff)
    next
      case 2
      then show ?thesis using Cons by (metis append_Cons)
    qed
  next
    assume "\<exists>a b. c # cs = a @ kw @ b"
    then obtain a b where ab: "c # cs = a @ kw @ b" by blast
    show "contains kw (c # cs)"
    proof (cases a)
      case Nil
      with ab show ?thesis by (metis append_Nil contains.simps(2) starts_with_append)
    next
      case (Cons x xs)
      with ab have "cs = xs @ kw @ b" by simp
      with Cons.IH show ?thesis using \<open>contains kw cs = _\<close> by auto
    qed
  qed
qed auto

record memory_target =
  mEntries :: "entry list"
  mOn :: bool

definition LogTargetMemory_new :: memory_target where
  "LogTargetMemory_new = \<lparr>mEntries = [], mOn = True\<rparr>"

definition setOn :: "bool \<Rightarrow> memory_target \<Rightarrow> memory_target" where
  "setOn on t = t\<lparr>mOn := on\<rparr>"

definition logTargetPrint_memory :: "level \<Rightarrow> int \<Rightarrow> string option \<Rightarrow> memory_target \<Rightarrow> memory_target" where
  "logTargetPrint_memory lvl tag msg t =
     (if \<not> mOn t then t
      else case msg of None \<Rightarrow> t
        | Some m \<Rightarrow> t\<lparr>mEntries := mEntries t @ [\<lparr>mLevel = lvl, mTag = tag, mMessage = c_str m\<rparr>]\<rparr>)"

text \<open>The list passed by reference keeps its content when there is no filter.\<close>

fun filter_entries :: "simple_filter option \<Rightarrow> memory_target \<Rightarrow> entry list \<Rightarrow> entry list" where
  "filter_entries None t aList = aList"
| "filter_entries (Some f) t aList = filter (corresponds f) (mEntries t)"

subsection \<open>Traffic counters\<close>

record accumulator =
  acc_count :: int
  acc_timestamp :: int

record traffic_report =
  tr_bytes :: int
  tr_time :: int
  tr_speed :: rat

definition kTrafficReportInterval :: int where "kTrafficReportInterval = 100"

definition acc_at :: "(int \<rightharpoonup> accumulator) \<Rightarrow> int \<Rightarrow> accumulator" where
  "acc_at m tag = (case m tag of Some a \<Rightarrow> a | None \<Rightarrow> \<lparr>acc_count = 0, acc_timestamp = 0\<rparr>)"

text \<open>Counting in and out differ in the text they log only; sums are taken to stay in an \<open>int\<close>.\<close>

definition traffic_log ::
  "int \<Rightarrow> int \<Rightarrow> int \<Rightarrow> (int \<rightharpoonup> accumulator) \<Rightarrow> (int \<rightharpoonup> accumulator) \<times> traffic_report option" where
  "traffic_log now aTag aSize m =
     (let accum = acc_at m aTag;
          age = now - acc_timestamp accum;
          cnt = acc_count accum + aSize
      in if kTrafficReportInterval < age
         then (m(aTag \<mapsto> \<lparr>acc_count = 0, acc_timestamp = now\<rparr>),
               if 0 < cnt
               then Some \<lparr>tr_bytes = cnt,
                          tr_time = (if kTrafficReportInterval * 1000 < age then 0 else age),
                          tr_speed = fl32 (fl32 (of_int cnt) / fl32 (of_int age))\<rparr>
               else None)
         else (m(aTag \<mapsto> accum\<lparr>acc_count := cnt\<rparr>), None))"

fun traffic_run ::
  "(int \<times> int \<times> int) list \<Rightarrow> (int \<rightharpoonup> accumulator) \<Rightarrow> (int \<rightharpoonup> accumulator) \<times> (int \<times> traffic_report) list" where
  "traffic_run [] m = (m, [])"
| "traffic_run ((t, tag, sz) # es) m =
     (let (m1, r) = traffic_log t tag sz m; (m2, rs) = traffic_run es m1
      in (m2, (case r of None \<Rightarrow> [] | Some x \<Rightarrow> [(tag, x)]) @ rs))"

definition reported :: "int \<Rightarrow> (int \<times> traffic_report) list \<Rightarrow> int" where
  "reported tag rs = sum_list (map (\<lambda>(t, r). if t = tag then tr_bytes r else 0) rs)"

definition logged :: "int \<Rightarrow> (int \<times> int \<times> int) list \<Rightarrow> int" where
  "logged tag es = sum_list (map (\<lambda>(_, t, sz). if t = tag then sz else 0) es)"

lemma traffic_log_step:
  assumes "0 \<le> acc_count (acc_at m tag)" and "0 \<le> sz" and "traffic_log t g sz m = (m1, r)"
  shows "acc_count (acc_at m1 tag) + (case r of None \<Rightarrow> 0 | Some x \<Rightarrow> if g = tag then tr_bytes x else 0)
     = acc_count (acc_at m tag) + (if g = tag then sz else 0) \<and> 0 \<le> acc_count (acc_at m1 tag)"
  using assms by (auto simp: traffic_log_def acc_at_def Let_def split: if_splits option.splits)

lemma traffic_run_conserves:
  assumes "0 \<le> acc_count (acc_at m tag)" and "\<forall>(t, g, sz) \<in> set es. 0 \<le> sz" and "traffic_run es m = (m', rs)"
  shows "reported tag rs + acc_count (acc_at m' tag) = acc_count (acc_at m tag) + logged tag es
     \<and> 0 \<le> acc_count (acc_at m' tag)"
  using assms
proof (induction es arbitrary: m rs)
  case (Cons e es)
  obtain t g sz where e: "e = (t, g, sz)" by (cases e)
  obtain m1 r where s: "traffic_log t g sz m = (m1, r)" by (cases "traffic_log t g sz m")
  obtain rs1 where run: "traffic_run es m1 = (m', rs1)"
    and rs: "rs = (case r of None \<Rightarrow> [] | Some x \<Rightarrow> [(g, x)]) @ rs1"
    using Cons.prems(3) by (auto simp: e s Let_def split: prod.splits)
  have st: "acc_count (acc_at m1 tag) + (case r of None \<Rightarrow> 0 | Some x \<Rightarrow> if g = tag then tr_bytes x else 0)
     = acc_count (acc_at m tag) + (if g = tag then sz else 0) \<and> 0 \<le> acc_count (acc_at m1 tag)"
    by (rule traffic_log_step[OF Cons.prems(1) _ s]) (use Cons.prems(2) e in auto)
  have "reported tag rs1 + acc_count (acc_at m' tag) = acc_count (acc_at m1 tag) + logged tag es
     \<and> 0 \<le> acc_count (acc_at m' tag)"
    by (rule Cons.IH[OF _ _ run]) (use st Cons.prems(2) in auto)
  moreover have "reported tag rs = (case r of None \<Rightarrow> 0 | Some x \<Rightarrow> if g = tag then tr_bytes x else 0) + reported tag rs1"
    by (simp add: rs reported_def split: option.split)
  ultimately show ?case using st by (simp add: e logged_def)
qed (simp add: reported_def logged_def)

text \<open>
  Whatever the times between them, the bytes counted for a tag are all accounted
  for: the reports of the tag and what its counter still holds add up to the sizes logged under
  it, and other tags do not disturb it.
\<close>

theorem traffic_accounted:
  assumes "\<forall>(t, g, sz) \<in> set es. 0 \<le> sz" and "traffic_run es Map.empty = (m', rs)"
  shows "reported tag rs + acc_count (acc_at m' tag) = logged tag es"
  using traffic_run_conserves[OF _ assms(1,2)] by (simp add: acc_at_def)

theorem traffic_accounted_witness:
  "reported 60 (snd (traffic_run [(1000, 60, 700), (1050, 60, 20), (1060, 20, 5), (1200, 60, 30)] Map.empty))
     + acc_count (acc_at (fst (traffic_run [(1000, 60, 700), (1050, 60, 20), (1060, 20, 5), (1200, 60, 30)] Map.empty)) 60)
   = 750"
  using traffic_accounted[of "[(1000, 60, 700), (1050, 60, 20), (1060, 20, 5), (1200, 60, 30)]" _ _ 60]
  by (cases "traffic_run [(1000, 60, 700), (1050, 60, 20), (1060, 20, 5), (1200, 60, 30)] Map.empty")
    (simp add: logged_def)

end
