(* ===== verification/AvailabilityTester.thy ===== *)
theory AvailabilityTester
  imports FailureMonitor
begin

text \<open>
  The last-mile tester (\<open>Protocol/ProtocolAvailabilityTester.{hpp,mm}\<close>): it sends one test
  request per protocol, one after the other, collects whether each answered with status 200 and
  hands the results to the completion callback. The work is done in blocks on the main queue;
  \<open>mRunning\<close> admits one run at a time. The network is the environment: an effect
  \<open>PerformRequest\<close> starts a request, and its delegate (\<open>MockDelegate\<close>) later reports a
  response or a failure, without saying of which request.
\<close>

datatype protocol = QUICProtocol | StandardProtocol

fun protocolName :: "protocol \<Rightarrow> string" where
  "protocolName QUICProtocol = quicProtocolName"
| "protocolName StandardProtocol = standardProtocolName"

record availability_result =
  ProtocolID :: string
  Available :: bool

datatype 'cb block =
    RunAll string 'cb
  | RunIgnoring string string 'cb
  | TestResult bool

datatype 'cb tester_effect =
    PerformRequest protocol string
  | Complete 'cb "availability_result list"
  | PostNotification string string
  | AddEvent string

record 'cb tester =
  mRunning :: bool
  mCurrentResults :: "availability_result list"
  mProtocolsToTest :: "protocol list" \<comment> \<open>a stack, its top first\<close>
  mCompletitionCallback :: "'cb option"
  mCachedURL :: string
  mainQueue :: "'cb block list"

definition tester_new :: "'cb tester" where
  "tester_new = \<lparr>mRunning = False, mCurrentResults = [], mProtocolsToTest = [],
     mCompletitionCallback = None, mCachedURL = [], mainQueue = []\<rparr>"

definition dispatch_async :: "'cb block \<Rightarrow> 'cb tester \<Rightarrow> 'cb tester" where
  "dispatch_async b t = t\<lparr>mainQueue := mainQueue t @ [b]\<rparr>"

definition runTests :: "string \<Rightarrow> 'cb \<Rightarrow> 'cb tester \<Rightarrow> 'cb tester" where
  "runTests url cb t =
     (if mRunning t then t else dispatch_async (RunAll url cb) (t\<lparr>mRunning := True\<rparr>))"

definition runTests_ignoring :: "string \<Rightarrow> string \<Rightarrow> 'cb \<Rightarrow> 'cb tester \<Rightarrow> 'cb tester" where
  "runTests_ignoring url ign cb t =
     (if mRunning t then t else dispatch_async (RunIgnoring url ign cb) (t\<lparr>mRunning := True\<rparr>))"

definition onTestResult :: "bool \<Rightarrow> 'cb tester \<Rightarrow> 'cb tester" where
  "onTestResult success t = dispatch_async (TestResult success) t"

definition connectionDidReceiveResponse_mock :: "nat \<Rightarrow> 'cb tester \<Rightarrow> 'cb tester" where
  "connectionDidReceiveResponse_mock statusCode t = onTestResult (statusCode = 200) t"

definition connectionDidFailWithError_mock :: "'cb tester \<Rightarrow> 'cb tester" where
  "connectionDidFailWithError_mock t = onTestResult False t"

definition initTester :: "'cb tester \<Rightarrow> 'cb tester" where
  "initTester t = t\<lparr>mCurrentResults := [],
     mProtocolsToTest := StandardProtocol # QUICProtocol # []\<rparr>"

text \<open>\<open>top()\<close> of an empty \<open>std::stack\<close> is undefined behaviour.\<close>

definition perform_top :: "string \<Rightarrow> 'cb tester \<Rightarrow> fault + ('cb tester \<times> 'cb tester_effect list)" where
  "perform_top url t =
     (case mProtocolsToTest t of [] \<Rightarrow> Inl UndefinedBehaviour
      | p # _ \<Rightarrow> Inr (t, [PerformRequest p url]))"

fun exec_block :: "'cb block \<Rightarrow> 'cb tester \<Rightarrow> fault + ('cb tester \<times> 'cb tester_effect list)" where
  "exec_block (RunAll url cb) t =
     (let t1 = (initTester t)\<lparr>mCompletitionCallback := Some cb, mCachedURL := url\<rparr>
      in and_then (perform_top url t1) (\<lambda>(t2, es).
           Inr (t2, AddEvent ''Protocol availability tests started'' # es)))"
| "exec_block (RunIgnoring url ign cb) t =
     (let s0 = [];
          s1 = (if quicProtocolName \<noteq> ign then QUICProtocol # s0 else s0);
          s2 = (if standardProtocolName \<noteq> ign then StandardProtocol # s1 else s1);
          t1 = t\<lparr>mCurrentResults := [], mProtocolsToTest := s2,
                 mCompletitionCallback := Some cb, mCachedURL := url\<rparr>
      in perform_top url t1)"
| "exec_block (TestResult success) t =
     (case mProtocolsToTest t of [] \<Rightarrow> Inl UndefinedBehaviour
      | p # ps \<Rightarrow>
        let r = \<lparr>ProtocolID = protocolName p, Available = success\<rparr>;
            t1 = t\<lparr>mCurrentResults := mCurrentResults t @ [r], mProtocolsToTest := ps\<rparr>
        in if ps = []
           then case mCompletitionCallback t1 of None \<Rightarrow> Inl (Thrown ''bad_function_call'')
                | Some cb \<Rightarrow>
                  Inr (t1\<lparr>mCurrentResults := [], mRunning := False\<rparr>,
                    [Complete cb (mCurrentResults t1),
                     PostNotification ''kProtocolTestingOverNotification'' (ProtocolID r)])
           else perform_top (mCachedURL t1) t1)"

text \<open>The main queue runs its first block.\<close>

definition run_main :: "'cb tester \<Rightarrow> fault + ('cb tester \<times> 'cb tester_effect list)" where
  "run_main t =
     (case mainQueue t of [] \<Rightarrow> Inr (t, [])
      | b # bs \<Rightarrow> exec_block b (t\<lparr>mainQueue := bs\<rparr>))"

datatype 'cb tester_event =
    CallRunTests string 'cb
  | CallRunIgnoring string string 'cb
  | Response nat
  | Failure
  | MainQueue

fun tester_step :: "'cb tester_event \<Rightarrow> 'cb tester \<Rightarrow> fault + ('cb tester \<times> 'cb tester_effect list)" where
  "tester_step (CallRunTests url cb) t = Inr (runTests url cb t, [])"
| "tester_step (CallRunIgnoring url ign cb) t = Inr (runTests_ignoring url ign cb t, [])"
| "tester_step (Response code) t = Inr (connectionDidReceiveResponse_mock code t, [])"
| "tester_step Failure t = Inr (connectionDidFailWithError_mock t, [])"
| "tester_step MainQueue t = run_main t"

fun tester_run :: "'cb tester_event list \<Rightarrow> 'cb tester \<Rightarrow> fault + ('cb tester \<times> 'cb tester_effect list)" where
  "tester_run [] t = Inr (t, [])"
| "tester_run (e # es) t =
     and_then (tester_step e t) (\<lambda>(t1, fx).
       and_then (tester_run es t1) (\<lambda>(t2, fx'). Inr (t2, fx @ fx')))"

subsection \<open>One answer per request\<close>

text \<open>
  Runs in which the environment answers every test request exactly once: the second component
  counts the requests that are on their way.
\<close>

fun is_request :: "'cb tester_effect \<Rightarrow> bool" where
  "is_request (PerformRequest p url) = True"
| "is_request _ = False"

inductive tester_reach :: "'cb tester \<Rightarrow> nat \<Rightarrow> bool" where
  new: "tester_reach tester_new 0"
| call: "tester_reach t n \<Longrightarrow> tester_reach (runTests url cb t) n"
| call_ignoring: "tester_reach t n \<Longrightarrow> tester_reach (runTests_ignoring url ign cb t) n"
| response: "tester_reach t (Suc n) \<Longrightarrow> tester_reach (connectionDidReceiveResponse_mock code t) n"
| failure: "tester_reach t (Suc n) \<Longrightarrow> tester_reach (connectionDidFailWithError_mock t) n"
| main: "tester_reach t n \<Longrightarrow> run_main t = Inr (t', es) \<Longrightarrow>
     tester_reach t' (n + length (filter is_request es))"

fun starts_run :: "'cb block \<Rightarrow> bool" where
  "starts_run (TestResult b) = False"
| "starts_run _ = True"

definition tester_idle :: "'cb tester \<Rightarrow> nat \<Rightarrow> bool" where
  "tester_idle t n \<longleftrightarrow> \<not> mRunning t \<and> mainQueue t = [] \<and> n = 0"

definition tester_started :: "'cb tester \<Rightarrow> nat \<Rightarrow> bool" where
  "tester_started t n \<longleftrightarrow> mRunning t \<and> n = 0 \<and> (\<exists>b. mainQueue t = [b] \<and> starts_run b)"

definition tester_waiting :: "'cb tester \<Rightarrow> nat \<Rightarrow> bool" where
  "tester_waiting t n \<longleftrightarrow> mRunning t \<and> n = 1 \<and> mainQueue t = [] \<and>
     mProtocolsToTest t \<noteq> [] \<and> mCompletitionCallback t \<noteq> None"

definition tester_answered :: "'cb tester \<Rightarrow> nat \<Rightarrow> bool" where
  "tester_answered t n \<longleftrightarrow> mRunning t \<and> n = 0 \<and> (\<exists>b. mainQueue t = [TestResult b]) \<and>
     mProtocolsToTest t \<noteq> [] \<and> mCompletitionCallback t \<noteq> None"

definition tester_inv :: "'cb tester \<Rightarrow> nat \<Rightarrow> bool" where
  "tester_inv t n \<longleftrightarrow>
     tester_idle t n \<or> tester_started t n \<or> tester_waiting t n \<or> tester_answered t n"

lemmas tester_phases =
  tester_inv_def tester_idle_def tester_started_def tester_waiting_def tester_answered_def

lemmas tester_ops [step_defs] =
  runTests_def runTests_ignoring_def onTestResult_def connectionDidReceiveResponse_mock_def
  connectionDidFailWithError_mock_def dispatch_async_def initTester_def perform_top_def

lemma run_main_idle: "mainQueue t = [] \<Longrightarrow> run_main t = Inr (t, [])"
  by (simp add: run_main_def)

lemma run_main_start:
  assumes "mainQueue t = [b]" and "starts_run b" and "mRunning t"
  shows "\<exists>t' es. run_main t = Inr (t', es) \<and> tester_waiting t' (length (filter is_request es))"
  using assms
  by (cases b) (auto simp: run_main_def tester_ops tester_waiting_def Let_def
      quicProtocolName_def standardProtocolName_def split: if_split)

lemma run_main_result:
  assumes "tester_answered t n"
  shows "\<exists>t' es. run_main t = Inr (t', es) \<and>
    (tester_idle t' (length (filter is_request es)) \<or> tester_waiting t' (length (filter is_request es)))"
  using assms
  by (auto simp: run_main_def perform_top_def tester_answered_def tester_waiting_def
      tester_idle_def Let_def neq_Nil_conv split: list.split)

lemma tester_inv_main:
  assumes "tester_inv t n"
  obtains t' es where "run_main t = Inr (t', es)" "tester_inv t' (n + length (filter is_request es))"
proof -
  consider "mainQueue t = []" | "tester_started t n" | "tester_answered t n"
    using assms by (auto simp: tester_phases)
  then show thesis
  proof cases
    case 1
    with assms that[of t "[]"] show ?thesis by (simp add: run_main_idle)
  next
    case 2
    then obtain b where "mainQueue t = [b]" "starts_run b" "mRunning t" "n = 0"
      by (auto simp: tester_started_def)
    then show ?thesis using run_main_start that by (metis add_0 tester_inv_def)
  next
    case 3
    then have "n = 0" by (simp add: tester_answered_def)
    with 3 show ?thesis using run_main_result that by (metis add_0 tester_inv_def)
  qed
qed

lemma tester_reach_inv: "tester_reach t n \<Longrightarrow> tester_inv t n"
proof (induction rule: tester_reach.induct)
  case new
  show ?case by (simp add: tester_phases tester_new_def)
next
  case (main t n t' es)
  then show ?case by (metis Inr_inject Pair_inject tester_inv_main)
qed (auto simp: tester_phases tester_ops)

subsection \<open>Properties\<close>

text \<open>
  While every test request is answered once, the blocks of the main queue never
  touch an empty stack or an unset callback, at most one request is on its way, and at most
  one block is queued.
\<close>

theorem tester_never_faults:
  assumes "tester_reach t n"
  shows "returns (run_main t) \<and> n \<le> 1 \<and> length (mainQueue t) \<le> 1"
proof -
  from assms have inv: "tester_inv t n" by (rule tester_reach_inv)
  then obtain t' es where "run_main t = Inr (t', es)" by (rule tester_inv_main)
  with inv show ?thesis by (auto simp: tester_phases)
qed

theorem tester_never_faults_witness:
  "returns (run_main (runTests ''https://m'' () tester_new))"
  by (rule tester_never_faults[OF tester_reach.call[OF tester_reach.new], THEN conjunct1])

text \<open>An answer of the environment: a response with its status, or a failure.\<close>

fun answer :: "nat option \<Rightarrow> 'cb tester_event" where
  "answer (Some code) = Response code"
| "answer None = Failure"

definition answered_ok :: "nat option \<Rightarrow> bool" where
  "answered_ok a \<longleftrightarrow> a = Some 200"

lemma tester_step_answer:
  "tester_step (answer a) t = Inr (dispatch_async (TestResult (answered_ok a)) t, [])"
  by (cases a) (auto simp: tester_ops answered_ok_def)

text \<open>
  Property C27. A full test run started on an idle tester asks for the standard protocol first
  and for QUIC second, and calls the completion callback once with the two outcomes in that
  order, a protocol being available exactly when its request was answered with status 200;
  afterwards the tester is idle again.
\<close>

theorem full_run_reports_both:
  assumes "\<not> mRunning t" and "mainQueue t = []"
  shows "\<exists>t'. tester_run [CallRunTests url cb, MainQueue, answer a1, MainQueue, answer a2, MainQueue] t =
     Inr (t', [AddEvent ''Protocol availability tests started'',
       PerformRequest StandardProtocol url, PerformRequest QUICProtocol url,
       Complete cb
         [\<lparr>ProtocolID = standardProtocolName, Available = answered_ok a1\<rparr>,
          \<lparr>ProtocolID = quicProtocolName, Available = answered_ok a2\<rparr>],
       PostNotification ''kProtocolTestingOverNotification'' quicProtocolName])
     \<and> \<not> mRunning t' \<and> mainQueue t' = []"
  using assms by (simp add: tester_step_answer tester_ops run_main_def Let_def)

theorem full_run_reports_both_witness:
  "\<exists>t'. tester_run [CallRunTests ''https://m'' (), MainQueue, answer (Some 200), MainQueue,
       answer None, MainQueue] tester_new =
     Inr (t', [AddEvent ''Protocol availability tests started'',
       PerformRequest StandardProtocol ''https://m'', PerformRequest QUICProtocol ''https://m'',
       Complete () [\<lparr>ProtocolID = ''standard'', Available = True\<rparr>, \<lparr>ProtocolID = ''quic'', Available = False\<rparr>],
       PostNotification ''kProtocolTestingOverNotification'' ''quic''])"
  using full_run_reports_both[of tester_new "''https://m''" "()" "Some 200" None]
  by (auto simp: tester_new_def answered_ok_def standardProtocolName_def quicProtocolName_def)

text \<open>
  A run that ignores the failed protocol never ends up with nothing to test: it
  asks for the other protocol alone and reports that one outcome.
\<close>

theorem ignoring_run_tests_other:
  assumes "\<not> mRunning t" and "mainQueue t = []"
  shows "\<exists>t'. tester_run [CallRunIgnoring url (protocolName p) cb, MainQueue, answer a, MainQueue] t =
     (let other = (case p of QUICProtocol \<Rightarrow> StandardProtocol | StandardProtocol \<Rightarrow> QUICProtocol) in
     Inr (t', [PerformRequest other url,
       Complete cb [\<lparr>ProtocolID = protocolName other, Available = answered_ok a\<rparr>],
       PostNotification ''kProtocolTestingOverNotification'' (protocolName other)]))
     \<and> \<not> mRunning t' \<and> mainQueue t' = []"
  using assms by (cases p) (simp_all add: tester_step_answer tester_ops run_main_def Let_def
      quicProtocolName_def standardProtocolName_def)

theorem ignoring_run_tests_other_witness:
  "\<exists>t'. tester_run [CallRunIgnoring ''u'' (protocolName QUICProtocol) (), MainQueue, answer None, MainQueue] tester_new =
     Inr (t', [PerformRequest StandardProtocol ''u'',
       Complete () [\<lparr>ProtocolID = ''standard'', Available = False\<rparr>],
       PostNotification ''kProtocolTestingOverNotification'' ''standard''])"
  using ignoring_run_tests_other[of tester_new "''u''" QUICProtocol "()" None]
  by (auto simp: tester_new_def answered_ok_def standardProtocolName_def)

text \<open>
  A connection that delivers a response and then a failure for the same test
  request (a transfer that breaks after its headers) reports twice, and the tester cannot tell:
  the failure of the standard request is recorded as the outcome of QUIC, the run completes
  without QUIC having answered, and QUIC's own answer then reads the top of an empty stack.
\<close>

theorem second_report_is_misattributed:
  "(\<exists>t'. tester_run [CallRunTests url cb, MainQueue, Response 200, Failure, MainQueue, MainQueue] tester_new =
      Inr (t', [AddEvent ''Protocol availability tests started'',
        PerformRequest StandardProtocol url, PerformRequest QUICProtocol url,
        Complete cb [\<lparr>ProtocolID = standardProtocolName, Available = True\<rparr>,
                     \<lparr>ProtocolID = quicProtocolName, Available = False\<rparr>],
        PostNotification ''kProtocolTestingOverNotification'' quicProtocolName]))
   \<and> tester_run [CallRunTests url cb, MainQueue, Response 200, Failure, MainQueue, MainQueue,
        Response 200, MainQueue] tester_new = Inl UndefinedBehaviour"
  by (simp add: tester_new_def tester_ops run_main_def Let_def)

end
