(* ===== verification/ProtocolSelector.thy ===== *)
theory ProtocolSelector
  imports AvailabilityTester ConfigValidation
begin

text \<open>
  The protocol selector (\<open>Protocol/ProtocolSelector.{hpp,cpp}\<close>): it keeps the transport in use
  (\<open>mBestProtocol\<close>), the protocols that passed the last test, and the monitoring URL; it starts
  the tester on network changes, on the first configuration and when the failure monitor
  reports a protocol, and re-selects a transport when results or a configuration arrive.

  The selector holds its tester, so that a test run can be followed from the network change
  to the new choice. What it does to the rest of the SDK is a list of effects; the configured
  protocols and the reachability of the internet are arguments where the code asks for them.
\<close>

subsection \<open>\<open>std::remove_if\<close> on a vector of strings\<close>

text \<open>
  The selector calls \<open>std::remove_if\<close> and drops its result, so what matters is the whole vector
  afterwards: the kept elements are moved to the front in order and the vector keeps its
  length. This is the loop of the standard library over positions; \<open>moved\<close> is what a string
  holds after its content has been moved out.
\<close>

function rm_loop :: "('a \<Rightarrow> bool) \<Rightarrow> ('a \<Rightarrow> 'a) \<Rightarrow> 'a list \<Rightarrow> nat \<Rightarrow> nat \<Rightarrow> 'a list" where
  "rm_loop p moved v first i =
     (if length v \<le> i then v
      else if p (v ! i) then rm_loop p moved v first (Suc i)
      else rm_loop p moved (v[first := v ! i, i := moved (v ! i)]) (Suc first) (Suc i))"
  by pat_completeness auto
termination by (relation "measure (\<lambda>(p, moved, v, first, i). length v - i)") auto

declare rm_loop.simps [simp del]

definition remove_if :: "('a \<Rightarrow> bool) \<Rightarrow> ('a \<Rightarrow> 'a) \<Rightarrow> 'a list \<Rightarrow> 'a list" where
  "remove_if p moved v =
     (let first = length (takeWhile (\<lambda>x. \<not> p x) v) in
      if first = length v then v else rm_loop p moved v first (Suc first))"

lemma rm_loop_prefix:
  assumes "first < i" and "i \<le> length v" and "take first v = filter (\<lambda>x. \<not> p x) (take i w)"
    and "drop i v = drop i w" and "length v = length w"
  shows "length (rm_loop p moved v first i) = length w \<and>
     take (length (filter (\<lambda>x. \<not> p x) w)) (rm_loop p moved v first i) = filter (\<lambda>x. \<not> p x) w"
  using assms
proof (induction p moved v first i rule: rm_loop.induct)
  case (1 p moved v first i)
  have lf: "length (filter (\<lambda>x. \<not> p x) (take i w)) = first"
    using "1.prems"(1,2) arg_cong[OF "1.prems"(3), of length] by simp
  show ?case
  proof (cases "length v \<le> i")
    case True
    then have "take i w = w" using "1.prems"(2,5) by simp
    then show ?thesis using True "1.prems" lf by (simp add: rm_loop.simps)
  next
    case False
    then have i: "i < length v" "i < length w" using "1.prems"(5) by auto
    have vi: "v ! i = w ! i"
      using "1.prems"(4) i by (metis hd_drop_conv_nth)
    have tk: "take (Suc i) w = take i w @ [v ! i]"
      using i vi by (simp add: take_Suc_conv_app_nth)
    have dr: "drop (Suc i) v = drop (Suc i) w"
      using "1.prems"(4) by (metis drop_Suc tl_drop)
    show ?thesis
    proof (cases "p (v ! i)")
      case True
      have "take first v = filter (\<lambda>x. \<not> p x) (take (Suc i) w)"
        using True tk "1.prems"(3) by simp
      then show ?thesis
        using "1.IH"(1)[OF False True] "1.prems" i dr False True
        by (simp add: rm_loop.simps[of p moved v first i])
    next
      case pf: False
      let ?v = "v[first := v ! i, i := moved (v ! i)]"
      have fl: "first < length ?v" using i "1.prems"(1) by simp
      have "take first ?v = take first v" and "?v ! first = v ! i"
        using i "1.prems"(1) by simp_all
      then have "take (Suc first) ?v = take first v @ [v ! i]"
        using take_Suc_conv_app_nth[OF fl] by simp
      then have "take (Suc first) ?v = filter (\<lambda>x. \<not> p x) (take (Suc i) w)"
        using pf tk "1.prems"(3) by simp
      moreover have "drop (Suc i) ?v = drop (Suc i) w"
        using dr "1.prems"(1) by simp
      ultimately show ?thesis
        using "1.IH"(2)[OF False pf] "1.prems" i False pf
        by (simp add: rm_loop.simps[of p moved v first i])
    qed
  qed
qed

lemma rm_loop_none:
  "(\<And>j. i \<le> j \<Longrightarrow> j < length v \<Longrightarrow> p (v ! j)) \<Longrightarrow> rm_loop p moved v first i = v"
proof (induction p moved v first i rule: rm_loop.induct)
  case (1 p moved v first i)
  then show ?case by (cases "length v \<le> i") (simp_all add: rm_loop.simps[of p moved v first i])
qed

lemma remove_if_prefix:
  "length (remove_if p moved v) = length v \<and>
   take (length (filter (\<lambda>x. \<not> p x) v)) (remove_if p moved v) = filter (\<lambda>x. \<not> p x) v"
proof -
  define first where "first = length (takeWhile (\<lambda>x. \<not> p x) v)"
  show ?thesis
  proof (cases "first = length v")
    case True
    then have "takeWhile (\<lambda>x. \<not> p x) v = v"
      by (metis append_eq_conv_conj first_def order_refl take_all takeWhile_dropWhile_id)
    then have "filter (\<lambda>x. \<not> p x) v = v" by (simp add: takeWhile_eq_all_conv)
    with True show ?thesis by (simp add: remove_if_def first_def[symmetric])
  next
    case False
    then have lt: "first < length v"
      using length_takeWhile_le[of "\<lambda>x. \<not> p x" v] by (simp add: first_def)
    have tw: "take first v = takeWhile (\<lambda>x. \<not> p x) v"
      by (simp add: first_def takeWhile_eq_take[symmetric])
    have pv: "p (v ! first)"
      using nth_length_takeWhile[of "\<lambda>x. \<not> p x" v] lt by (simp add: first_def)
    have "filter (\<lambda>x. \<not> p x) (take (Suc first) v) = take first v"
      using lt pv by (simp add: take_Suc_conv_app_nth tw)
        (metis filter_True set_takeWhileD)
    then show ?thesis
      using rm_loop_prefix[of first "Suc first" v p v moved] lt False
      by (simp add: remove_if_def Let_def first_def[symmetric])
  qed
qed

lemma remove_if_length [simp]: "length (remove_if p moved v) = length v"
  using remove_if_prefix by blast

lemma hd_remove_if:
  "hd (remove_if p moved (x # xs)) =
     (case filter (\<lambda>x. \<not> p x) (x # xs) of [] \<Rightarrow> x | y # _ \<Rightarrow> y)"
proof (cases "filter (\<lambda>x. \<not> p x) (x # xs)")
  case Nil
  then have all: "\<And>j. j < length (x # xs) \<Longrightarrow> p ((x # xs) ! j)"
    by (metis filter_empty_conv nth_mem)
  then have "p x" by (metis length_pos_if_in_set list.set_intros(1) nth_Cons_0)
  moreover have "rm_loop p moved (x # xs) 0 (Suc 0) = x # xs"
    by (rule rm_loop_none) (rule all)
  ultimately have "remove_if p moved (x # xs) = x # xs"
    by (simp add: remove_if_def)
  with Nil show ?thesis by simp
next
  case (Cons y ys)
  have "take (length (y # ys)) (remove_if p moved (x # xs)) = y # ys"
    using remove_if_prefix[of p moved "x # xs"] Cons by simp
  then show ?thesis using Cons by (cases "remove_if p moved (x # xs)") auto
qed

subsection \<open>The selector\<close>

datatype selector_effect =
    SavedAvailable "string list"
  | PostedBest string
  | TrackedTests "availability_result list"
  | LoggedNoEdge

record selector =
  mMonitoringURL :: string
  mBestProtocol :: "protocol option"
  mAvailableProtocols :: "string list"
  mTester :: "unit tester"
  firstInit :: bool

definition ProtocolSelector_new :: "string list \<Rightarrow> selector" where
  "ProtocolSelector_new restored =
     \<lparr>mMonitoringURL = [], mBestProtocol = None, mAvailableProtocols = restored,
      mTester = tester_new, firstInit = True\<rparr>"

definition refreshTestInfo :: "selector \<Rightarrow> selector" where
  "refreshTestInfo s =
     (if mMonitoringURL s \<noteq> [] then s\<lparr>mTester := runTests (mMonitoringURL s) () (mTester s)\<rparr> else s)"

text \<open>The callback the constructor subscribes with the failure monitor.\<close>

definition onProtocolFailed :: "string \<Rightarrow> selector \<Rightarrow> selector" where
  "onProtocolFailed failed s =
     (if mMonitoringURL s \<noteq> []
      then s\<lparr>mTester := runTests_ignoring (mMonitoringURL s) failed () (mTester s)\<rparr> else s)"

definition protocol_of_id :: "string \<Rightarrow> protocol option" where
  "protocol_of_id aID =
     (if quicProtocolName = aID then Some QUICProtocol
      else if standardProtocolName = aID then Some StandardProtocol
      else None)"

definition convertIDToPropocol :: "string \<Rightarrow> selector \<Rightarrow> selector \<times> selector_effect list" where
  "convertIDToPropocol aID s = (s\<lparr>mBestProtocol := protocol_of_id aID\<rparr>, [PostedBest aID])"

definition saveAvailable :: "selector \<Rightarrow> selector_effect list" where
  "saveAvailable s = [SavedAvailable (mAvailableProtocols s)]"

definition sortProtocols :: "(string \<Rightarrow> string) \<Rightarrow> string list \<Rightarrow> selector \<Rightarrow> selector \<times> selector_effect list" where
  "sortProtocols moved names s =
     (if mAvailableProtocols s \<noteq> [] \<and> names \<noteq> []
      then let v = remove_if (\<lambda>item. item \<notin> set (mAvailableProtocols s)) moved names in
        if length v \<noteq> 0
        then let (s', es) = convertIDToPropocol (hd v) s in (s', es @ saveAvailable s')
        else (s\<lparr>mBestProtocol := None\<rparr>, [])
      else if names = [] then (s\<lparr>mBestProtocol := None\<rparr>, [])
      else (s, []))"

definition handleTestResults ::
  "(string \<Rightarrow> string) \<Rightarrow> string list \<Rightarrow> bool \<Rightarrow> availability_result list \<Rightarrow> selector
    \<Rightarrow> selector \<times> selector_effect list" where
  "handleTestResults moved confProtos online aResults s =
     (let allowed = map ProtocolID (filter Available aResults);
          warn = (if length allowed = 0 \<and> online then [LoggedNoEdge] else []);
          (s', es) = sortProtocols moved confProtos (s\<lparr>mAvailableProtocols := allowed\<rparr>)
      in (s', TrackedTests aResults # warn @ es))"

definition onNetworkTechnologyChanged :: "'cb monitor \<times> selector \<Rightarrow> 'cb monitor \<times> selector" where
  "onNetworkTechnologyChanged ms = (clear_monitor (fst ms), refreshTestInfo (snd ms))"

definition onCelluarStandardChanged :: "'cb monitor \<times> selector \<Rightarrow> 'cb monitor \<times> selector" where
  "onCelluarStandardChanged ms = (clear_monitor (fst ms), refreshTestInfo (snd ms))"

definition onSSIDChanged :: "'cb monitor \<times> selector \<Rightarrow> 'cb monitor \<times> selector" where
  "onSSIDChanged ms = (clear_monitor (fst ms), refreshTestInfo (snd ms))"

definition onFirstInit :: "selector \<Rightarrow> selector" where
  "onFirstInit s = refreshTestInfo s"

definition haveAvailadleProtocols :: "selector \<Rightarrow> bool" where
  "haveAvailadleProtocols s \<longleftrightarrow> mBestProtocol s \<noteq> None"

definition bestProtocol :: "selector \<Rightarrow> protocol" where
  "bestProtocol s = (case mBestProtocol s of Some p \<Rightarrow> p | None \<Rightarrow> StandardProtocol)"

definition onConfigurationApplied ::
  "(string \<Rightarrow> string) \<Rightarrow> configuration \<Rightarrow> selector \<Rightarrow> selector \<times> selector_effect list" where
  "onConfigurationApplied moved aConf s =
     (let s1 = s\<lparr>mMonitoringURL := transportMonitoringURL aConf\<rparr> in
      if firstInit s1
      then let (s2, es) = convertIDToPropocol (initialTransportProtocol aConf) (s1\<lparr>firstInit := False\<rparr>);
               s3 = s2\<lparr>mAvailableProtocols := mAvailableProtocols s2 @ [initialTransportProtocol aConf]\<rparr>
           in (refreshTestInfo s3, es @ saveAvailable s3)
      else sortProtocols moved (allowedProtocols aConf) s1)"

text \<open>The main queue runs a block of the tester; a completed run calls \<open>handleTestResults\<close>.\<close>

fun deliver ::
  "(string \<Rightarrow> string) \<Rightarrow> string list \<Rightarrow> bool \<Rightarrow> unit tester_effect list \<Rightarrow> selector
    \<Rightarrow> selector \<times> selector_effect list" where
  "deliver moved conf online [] s = (s, [])"
| "deliver moved conf online (Complete cb rs # es) s =
     (let (s1, fx) = handleTestResults moved conf online rs s;
          (s2, fx') = deliver moved conf online es s1
      in (s2, fx @ fx'))"
| "deliver moved conf online (e # es) s = deliver moved conf online es s"

definition tester_events ::
  "(string \<Rightarrow> string) \<Rightarrow> string list \<Rightarrow> bool \<Rightarrow> unit tester_event list \<Rightarrow> selector
    \<Rightarrow> fault + selector \<times> selector_effect list" where
  "tester_events moved conf online evs s =
     and_then (tester_run evs (mTester s)) (\<lambda>(t, es).
       Inr (deliver moved conf online es (s\<lparr>mTester := t\<rparr>)))"

lemmas selector_ops [step_defs] =
  refreshTestInfo_def onProtocolFailed_def convertIDToPropocol_def saveAvailable_def
  sortProtocols_def handleTestResults_def onNetworkTechnologyChanged_def
  onCelluarStandardChanged_def onSSIDChanged_def onFirstInit_def haveAvailadleProtocols_def
  bestProtocol_def onConfigurationApplied_def

subsection \<open>What is selected\<close>

text \<open>The specification of the choice: the first configured protocol that is available.\<close>

definition choice :: "string list \<Rightarrow> string list \<Rightarrow> string" where
  "choice avail conf =
     (case filter (\<lambda>p. p \<in> set avail) conf of [] \<Rightarrow> hd conf | p # _ \<Rightarrow> p)"

lemma choice_in: "conf \<noteq> [] \<Longrightarrow> choice avail conf \<in> set conf"
proof (cases "filter (\<lambda>p. p \<in> set avail) conf")
  case (Cons p ps)
  have "set (p # ps) \<subseteq> set conf" unfolding Cons[symmetric] by (rule filter_is_subset)
  with Cons show ?thesis by (simp add: choice_def)
qed (simp add: choice_def)

lemma choice_one:
  "conf \<noteq> [] \<Longrightarrow> choice [p] conf = (if p \<in> set conf then p else hd conf)"
  by (auto simp: choice_def filter_empty_conv split: list.splits dest: filter_eq_ConsD)

lemma sortProtocols_best:
  "mBestProtocol (fst (sortProtocols moved conf s)) =
     (if conf = [] then None
      else if mAvailableProtocols s = [] then mBestProtocol s
      else protocol_of_id (choice (mAvailableProtocols s) conf))"
proof (cases conf)
  case (Cons x xs)
  define v where "v = remove_if (\<lambda>item. item \<notin> set (mAvailableProtocols s)) moved (x # xs)"
  have "length v = Suc (length xs)" by (simp add: v_def)
  then have "v \<noteq> []" by auto
  moreover have "hd v = choice (mAvailableProtocols s) (x # xs)"
    unfolding v_def hd_remove_if choice_def by (simp del: filter.simps split: list.split)
  ultimately show ?thesis
    by (simp add: Cons sortProtocols_def convertIDToPropocol_def Let_def v_def[symmetric])
qed (simp add: sortProtocols_def)

lemma sortProtocols_frame [frames]:
  "mAvailableProtocols (fst (sortProtocols moved conf s)) = mAvailableProtocols s"
  "mTester (fst (sortProtocols moved conf s)) = mTester s"
  "mMonitoringURL (fst (sortProtocols moved conf s)) = mMonitoringURL s"
  "firstInit (fst (sortProtocols moved conf s)) = firstInit s"
  by (auto simp: sortProtocols_def convertIDToPropocol_def Let_def)

lemma sortProtocols_tester: "mTester (fst (sortProtocols moved conf s)) = mTester s"
  by (simp add: sortProtocols_def convertIDToPropocol_def Let_def)

lemma handleTestResults_fst:
  "fst (handleTestResults moved conf online rs s) =
     fst (sortProtocols moved conf (s\<lparr>mAvailableProtocols := map ProtocolID (filter Available rs)\<rparr>))"
  by (simp add: handleTestResults_def Let_def split: prod.split)

text \<open>
  After test results the selected protocol is the first configured one that
  answered; when none of the configured protocols answered but another did, the first
  configured protocol is selected although it is unavailable; when nothing answered the old
  choice stays; and without configured protocols there is none.
\<close>

theorem test_results_selection:
  "mBestProtocol (fst (handleTestResults moved conf online rs s)) =
     (let avail = map ProtocolID (filter Available rs) in
      if conf = [] then None
      else if avail = [] then mBestProtocol s
      else case filter (\<lambda>p. p \<in> set avail) conf of
             [] \<Rightarrow> protocol_of_id (hd conf)
           | p # _ \<Rightarrow> protocol_of_id p)"
  by (simp add: handleTestResults_fst sortProtocols_best choice_def Let_def split: list.split)

lemma tester_events_run:
  assumes "tester_run evs (mTester s) = Inr (t, es)"
  shows "tester_events moved conf online evs s = Inr (deliver moved conf online es (s\<lparr>mTester := t\<rparr>))"
  using assms by (simp add: tester_events_def)

lemma protocol_of_id_names [simp]:
  "protocol_of_id quicProtocolName = Some QUICProtocol"
  "protocol_of_id standardProtocolName = Some StandardProtocol"
  "protocol_of_id (protocolName p) = Some p"
  by (cases p; simp add: protocol_of_id_def quicProtocolName_def standardProtocolName_def)+

text \<open>
  Whether or not a choice was ever made, the transport handed to a connection is
  one of the two protocols, and the name it is looked up by is one of the two known names; the
  standard protocol is used exactly when it was chosen or nothing was.
\<close>

theorem bestProtocol_total:
  "protocolName (bestProtocol s) \<in> {standardProtocolName, quicProtocolName} \<and>
   (bestProtocol s = StandardProtocol \<longleftrightarrow>
      \<not> haveAvailadleProtocols s \<or> mBestProtocol s = Some StandardProtocol)"
  by (cases "mBestProtocol s"; cases "the (mBestProtocol s)")
    (auto simp: bestProtocol_def haveAvailadleProtocols_def)

text \<open>The answers of a full test run as the list of available protocols.\<close>

definition answering :: "nat option \<Rightarrow> nat option \<Rightarrow> string list" where
  "answering a1 a2 =
     (if answered_ok a1 then [standardProtocolName] else []) @
     (if answered_ok a2 then [quicProtocolName] else [])"

lemma full_run_selects:
  assumes "\<not> mRunning (mTester s)" and "mainQueue (mTester s) = []" and "mMonitoringURL s \<noteq> []"
    and "conf \<noteq> []"
  shows "\<exists>s' fx. tester_events moved conf online [MainQueue, answer a1, MainQueue, answer a2, MainQueue]
       (refreshTestInfo s) = Inr (s', fx)
     \<and> \<not> mRunning (mTester s') \<and> mainQueue (mTester s') = []
     \<and> mAvailableProtocols s' = answering a1 a2
     \<and> mBestProtocol s' = (if answering a1 a2 = [] then mBestProtocol s
                            else protocol_of_id (choice (answering a1 a2) conf))"
proof -
  let ?t = "runTests (mMonitoringURL s) () (mTester s)"
  let ?rs = "[\<lparr>ProtocolID = standardProtocolName, Available = answered_ok a1\<rparr>,
     \<lparr>ProtocolID = quicProtocolName, Available = answered_ok a2\<rparr>]"
  have "\<exists>t es. tester_run [MainQueue, answer a1, MainQueue, answer a2, MainQueue] ?t = Inr (t, es)
      \<and> \<not> mRunning t \<and> mainQueue t = []
      \<and> es = [AddEvent ''Protocol availability tests started'',
         PerformRequest StandardProtocol (mMonitoringURL s), PerformRequest QUICProtocol (mMonitoringURL s),
         Complete () ?rs, PostNotification ''kProtocolTestingOverNotification'' quicProtocolName]"
    using assms by (simp add: tester_step_answer tester_ops run_main_def Let_def)
  then obtain t es where run: "tester_run [MainQueue, answer a1, MainQueue, answer a2, MainQueue] ?t = Inr (t, es)"
    and idle: "\<not> mRunning t" "mainQueue t = []"
    and es: "es = [AddEvent ''Protocol availability tests started'',
         PerformRequest StandardProtocol (mMonitoringURL s), PerformRequest QUICProtocol (mMonitoringURL s),
         Complete () ?rs, PostNotification ''kProtocolTestingOverNotification'' quicProtocolName]"
    by blast
  have av: "map ProtocolID (filter Available ?rs) = answering a1 a2"
    by (simp add: answering_def)
  let ?s1 = "(refreshTestInfo s)\<lparr>mTester := t\<rparr>"
  have "deliver moved conf online es ?s1 =
      (let (s2, fx) = handleTestResults moved conf online ?rs ?s1 in (s2, fx))"
    by (simp add: es Let_def split: prod.split)
  moreover have "mTester (refreshTestInfo s) = ?t" using assms by (simp add: refreshTestInfo_def)
  then have "tester_events moved conf online [MainQueue, answer a1, MainQueue, answer a2, MainQueue]
      (refreshTestInfo s) = Inr (deliver moved conf online es ?s1)"
    using run by (simp add: tester_events_def)
  ultimately have ev: "tester_events moved conf online [MainQueue, answer a1, MainQueue, answer a2, MainQueue]
      (refreshTestInfo s) = Inr (handleTestResults moved conf online ?rs ?s1)"
    by simp
  define r where "r = handleTestResults moved conf online ?rs ?s1"
  have "mBestProtocol (fst r) = (if answering a1 a2 = [] then mBestProtocol s
      else protocol_of_id (choice (answering a1 a2) conf))"
    using assms(3,4) unfolding r_def handleTestResults_fst av sortProtocols_best
    by (simp add: refreshTestInfo_def)
  moreover have "mTester (fst r) = t" "mAvailableProtocols (fst r) = answering a1 a2"
    unfolding r_def handleTestResults_fst av frames by simp_all
  ultimately show ?thesis
    unfolding ev r_def[symmetric] using idle by (metis prod.collapse)
qed

text \<open>
  Property C10. A network change on an idle selector with a monitoring URL empties the failure
  reports, tests both protocols, and ends with the first configured protocol that answered; the
  choice does not change when neither did.
\<close>

theorem network_change_end_to_end:
  assumes "\<not> mRunning (mTester s)" and "mainQueue (mTester s) = []" and "mMonitoringURL s \<noteq> []"
    and "set conf = {standardProtocolName, quicProtocolName}"
  shows "\<exists>m' s1 s' fx. onNetworkTechnologyChanged (m, s) = (m', s1)
     \<and> at_key (mReportMap m') standardProtocolName = [] \<and> at_key (mReportMap m') quicProtocolName = []
     \<and> tester_events moved conf online [MainQueue, answer a1, MainQueue, answer a2, MainQueue] s1 = Inr (s', fx)
     \<and> mBestProtocol s' =
         (case (answered_ok a1, answered_ok a2) of
            (True, True) \<Rightarrow> protocol_of_id (hd conf)
          | (True, False) \<Rightarrow> Some StandardProtocol
          | (False, True) \<Rightarrow> Some QUICProtocol
          | (False, False) \<Rightarrow> mBestProtocol s)"
proof -
  have conf: "conf \<noteq> []" using assms(4) by auto
  have ne: "standardProtocolName \<noteq> quicProtocolName"
    by (simp add: standardProtocolName_def quicProtocolName_def)
  have both: "choice [standardProtocolName, quicProtocolName] conf = hd conf"
    using assms(4) conf by (cases conf) (auto simp: choice_def)
  have one: "choice [p] conf = p" if "p \<in> set conf" for p
    using choice_in[OF conf, of "[p]"] that
    by (auto simp: choice_def filter_empty_conv split: list.splits dest: filter_eq_ConsD)
  from full_run_selects[OF assms(1,2,3) conf, of moved online a1 a2]
  obtain s' fx where "tester_events moved conf online [MainQueue, answer a1, MainQueue, answer a2, MainQueue]
       (refreshTestInfo s) = Inr (s', fx)"
    and "mBestProtocol s' = (if answering a1 a2 = [] then mBestProtocol s
                            else protocol_of_id (choice (answering a1 a2) conf))"
    by blast
  moreover have "(if answering a1 a2 = [] then mBestProtocol s
                  else protocol_of_id (choice (answering a1 a2) conf)) =
         (case (answered_ok a1, answered_ok a2) of
            (True, True) \<Rightarrow> protocol_of_id (hd conf)
          | (True, False) \<Rightarrow> Some StandardProtocol
          | (False, True) \<Rightarrow> Some QUICProtocol
          | (False, False) \<Rightarrow> mBestProtocol s)"
    using one assms(4) both by (simp add: answering_def split: bool.split)
  ultimately show ?thesis
    using ne by (intro exI[of _ "clear_monitor m"] exI[of _ "refreshTestInfo s"] exI)
      (auto simp: onNetworkTechnologyChanged_def clear_monitor_def)
qed

definition idle_selector :: selector where
  "idle_selector = (ProtocolSelector_new [])\<lparr>mMonitoringURL := ''https://m''\<rparr>"

theorem network_change_end_to_end_witness:
  "\<exists>m' s1 s' fx. onNetworkTechnologyChanged (initialize_monitor :: unit monitor, idle_selector) = (m', s1)
     \<and> tester_events id [''quic'', ''standard''] True
          [MainQueue, answer (Some 200), MainQueue, answer (Some 503), MainQueue] s1 = Inr (s', fx)
     \<and> mBestProtocol s' = Some StandardProtocol"
  using network_change_end_to_end[of idle_selector "[''quic'', ''standard'']" "initialize_monitor :: unit monitor"
      id True "Some 200" "Some 503"]
  by (fastforce simp: idle_selector_def ProtocolSelector_new_def tester_new_def standardProtocolName_def
      quicProtocolName_def answered_ok_def)

text \<open>
  Property C28. When the failure monitor reports the protocol in use, an idle selector sends one
  request, over the other protocol only, and tells its outcome. If the request is answered and
  the configuration allows the other protocol, that protocol is selected from then on; if it is
  answered and the configuration does not allow it, the first configured protocol is; if it is
  not answered, the failed protocol stays. Without configured protocols none is selected.
\<close>

theorem failover_switches_iff_other_answers:
  assumes "\<not> mRunning (mTester s)" and "mainQueue (mTester s) = []" and "mMonitoringURL s \<noteq> []"
    and "mBestProtocol s = Some p"
    and "other = (case p of QUICProtocol \<Rightarrow> StandardProtocol | StandardProtocol \<Rightarrow> QUICProtocol)"
  shows "\<exists>t s' fx. tester_run [MainQueue, answer a, MainQueue]
           (mTester (onProtocolFailed (protocolName p) s)) =
         Inr (t, [PerformRequest other (mMonitoringURL s),
           Complete () [\<lparr>ProtocolID = protocolName other, Available = answered_ok a\<rparr>],
           PostNotification ''kProtocolTestingOverNotification'' (protocolName other)])
     \<and> tester_events moved conf online [MainQueue, answer a, MainQueue]
         (onProtocolFailed (protocolName p) s) = Inr (s', fx)
     \<and> mTester s' = t
     \<and> mBestProtocol s' =
         (if conf = [] then None
          else if \<not> answered_ok a then Some p
          else if protocolName other \<in> set conf then Some other
          else protocol_of_id (hd conf))"
proof -
  let ?t = "runTests_ignoring (mMonitoringURL s) (protocolName p) () (mTester s)"
  let ?rs = "[\<lparr>ProtocolID = protocolName other, Available = answered_ok a\<rparr>]"
  obtain t where run: "tester_run [MainQueue, answer a, MainQueue] ?t =
      Inr (t, [PerformRequest other (mMonitoringURL s), Complete () ?rs,
        PostNotification ''kProtocolTestingOverNotification'' (protocolName other)])"
    using assms by (cases p) (auto simp: tester_step_answer tester_ops run_main_def Let_def
      quicProtocolName_def standardProtocolName_def)
  have start: "mTester (onProtocolFailed (protocolName p) s) = ?t"
    using assms(3) by (simp add: onProtocolFailed_def)
  define r where "r = handleTestResults moved conf online ?rs ((onProtocolFailed (protocolName p) s)\<lparr>mTester := t\<rparr>)"
  have "mBestProtocol (fst r) = (if conf = [] then None
          else if \<not> answered_ok a then Some p
          else if protocolName other \<in> set conf then Some other
          else protocol_of_id (hd conf))"
    using assms(4) unfolding r_def handleTestResults_fst sortProtocols_best
    by (simp add: onProtocolFailed_def choice_one)
  moreover have "mTester (fst r) = t"
    unfolding r_def handleTestResults_fst by (simp add: sortProtocols_tester)
  moreover have "tester_events moved conf online [MainQueue, answer a, MainQueue]
      (onProtocolFailed (protocolName p) s) = Inr r"
    using run assms(3) unfolding r_def
    by (simp add: tester_events_def onProtocolFailed_def Let_def split: prod.split)
  ultimately show ?thesis
    using run unfolding start by (intro exI[of _ t] exI[of _ "fst r"] exI[of _ "snd r"]) simp
qed

theorem failover_switches_iff_other_answers_witness:
  "(\<exists>t s' fx. tester_run [MainQueue, answer (Some 200), MainQueue]
           (mTester (onProtocolFailed ''standard'' (idle_selector\<lparr>mBestProtocol := Some StandardProtocol\<rparr>))) =
         Inr (t, [PerformRequest QUICProtocol ''https://m'',
           Complete () [\<lparr>ProtocolID = ''quic'', Available = True\<rparr>],
           PostNotification ''kProtocolTestingOverNotification'' ''quic''])
     \<and> tester_events id [''standard'', ''quic''] True [MainQueue, answer (Some 200), MainQueue]
         (onProtocolFailed ''standard'' (idle_selector\<lparr>mBestProtocol := Some StandardProtocol\<rparr>)) = Inr (s', fx)
     \<and> mTester s' = t \<and> mBestProtocol s' = Some QUICProtocol)
   \<and> (\<exists>s' fx. tester_events id [''standard''] True [MainQueue, answer (Some 200), MainQueue]
         (onProtocolFailed ''standard'' (idle_selector\<lparr>mBestProtocol := Some StandardProtocol\<rparr>)) = Inr (s', fx)
     \<and> mBestProtocol s' = Some StandardProtocol)"
  using failover_switches_iff_other_answers[of "idle_selector\<lparr>mBestProtocol := Some StandardProtocol\<rparr>"
      StandardProtocol QUICProtocol "Some 200" id "[''standard'', ''quic'']" True]
    failover_switches_iff_other_answers[of "idle_selector\<lparr>mBestProtocol := Some StandardProtocol\<rparr>"
      StandardProtocol QUICProtocol "Some 200" id "[''standard'']" True]
  by (fastforce simp: idle_selector_def ProtocolSelector_new_def tester_new_def standardProtocolName_def
      quicProtocolName_def answered_ok_def protocol_of_id_def)

text \<open>
  When the server allows one protocol and only the other one answers, the selector
  picks the allowed protocol although its test failed; the branch of \<open>sortProtocols\<close> that
  would report that no allowed protocol is available is never taken.
\<close>

theorem unavailable_protocol_is_picked:
  "mBestProtocol (fst (handleTestResults moved [quicProtocolName] online
      [\<lparr>ProtocolID = standardProtocolName, Available = True\<rparr>,
       \<lparr>ProtocolID = quicProtocolName, Available = False\<rparr>] s)) = Some QUICProtocol"
  by (simp add: handleTestResults_fst sortProtocols_best choice_def)
    (simp add: standardProtocolName_def quicProtocolName_def)

end
