(* ===== verification/RequestStats.thy ===== *)
theory RequestStats
  imports DataStorage
begin

text \<open>
  The statistics pipeline: \<open>RequestStatsHandler\<close> (\<open>Stats/RequestStatsHandler.cpp\<close>) with its
  transactions (\<open>Stats/ReportTransaction.h\<close>), and the loop of \<open>Model::reportStats\<close> that packs the
  pending records into batches. A record is the bytes of one finished request. A batch is sent by
  the network, which later calls the success or the failure callback of its handle, here the
  operations on the transaction's identifier.

  The text of a report (\<open>jsonDataFromDataVector\<close>, in \<open>JsonDocuments\<close>) plays no part here:
  \<open>Buffer\<close> is the list of records packed into it.
\<close>

subsection \<open>What the pipeline needs of the record file\<close>

locale request_storage =
  fixes load_all :: "'st \<Rightarrow> fault + string list"
    and append_one :: "string \<Rightarrow> 'st \<Rightarrow> fault + 'st"
    and append_all :: "string list \<Rightarrow> 'st \<Rightarrow> fault + 'st"
    and wipe :: "'st \<Rightarrow> 'st"
  assumes load_append_one: "load_all st = Inr ds \<Longrightarrow> b \<noteq> [] \<Longrightarrow>
      \<exists>st'. append_one b st = Inr st' \<and> load_all st' = Inr (ds @ [b])"
    and load_append_all: "load_all st = Inr ds \<Longrightarrow> [] \<notin> set bs \<Longrightarrow>
      \<exists>st'. append_all bs st = Inr st' \<and> load_all st' = Inr (ds @ bs)"
    and load_wipe: "load_all (wipe st) = Inr []"
begin

lemma append_oneD:
  assumes "append_one b st = Inr st'" and "load_all st = Inr ds" and "b \<noteq> []"
  shows "load_all st' = Inr (ds @ [b])"
  using load_append_one[OF assms(2,3)] assms(1) by auto

lemma rewrite_file:
  assumes "[] \<notin> set bs"
  shows "\<exists>st'. append_all bs (wipe st) = Inr st' \<and> load_all st' = Inr bs"
  using load_append_all[OF load_wipe assms] by simp

end

lemma load_after_save:
  assumes "loadRequestsData d = Inr ds" and "[] \<notin> set bs"
  shows "\<exists>d'. saveRequestDataVec io_ok bs d = Inr d' \<and> loadRequestsData d' = Inr (ds @ bs)"
  using assms unfolding saveRequestDataVec_def savedArray_loaded[OF assms(1)]
  by (simp add: addObjects_nonempty loadRequestsData_def contentsOfFileWithName_def flip: map_append)

interpretation rq: request_storage loadRequestsData "saveRequestData io_ok"
  "saveRequestDataVec io_ok" "deleteRequestsFile io_ok"
proof
  fix d :: disk and ds :: "string list" and b :: string
  assume ld: "loadRequestsData d = Inr ds" and b: "b \<noteq> []"
  have "saveRequestData io_ok b d = saveRequestDataVec io_ok [b] d"
    using b by (simp add: saveRequestData_def saveRequestDataVec_def NSDataFromData_def)
  then show "\<exists>st'. saveRequestData io_ok b d = Inr st' \<and> loadRequestsData st' = Inr (ds @ [b])"
    using load_after_save[OF ld, of "[b]"] b by simp
next
  show "loadRequestsData (deleteRequestsFile io_ok d) = Inr []" for d
    by (simp add: deleteRequestsFile_def loadRequestsData_def contentsOfFileWithName_def)
qed (rule load_after_save)

subsection \<open>Transactions and the handler\<close>

record transaction =
  ID :: int
  PendingData :: "string list"

record request_stats =
  mRequestsDataVector :: "string list"
  mSentData :: "transaction list"
  gID :: int \<comment> \<open>\<open>Transaction::gID\<close>, static\<close>
  store :: disk

record report_handle =
  Buffer :: "string list"
  callbacks :: "int option" \<comment> \<open>the transaction the two callbacks refer to\<close>

definition RequestStatsHandler_new :: "int \<Rightarrow> disk \<Rightarrow> fault + request_stats" where
  "RequestStatsHandler_new gid d =
     and_then (loadRequestsData d) (\<lambda>ds.
       Inr \<lparr>mRequestsDataVector = ds, mSentData = [], gID = gid, store = d\<rparr>)"

definition addNewRequestData :: "io_outcome \<Rightarrow> string \<Rightarrow> request_stats \<Rightarrow> fault + request_stats" where
  "addNewRequestData io data s =
     and_then (saveRequestData io data (store s)) (\<lambda>d.
       Inr (s\<lparr>mRequestsDataVector := mRequestsDataVector s @ [data], store := d\<rparr>))"

text \<open>
  The comparison of the 32-bit \<open>offset\<close> with \<open>size()\<close> is made in 64-bit unsigned arithmetic; a
  negative count is a huge one there.
\<close>

definition batch_offset :: "int \<Rightarrow> nat \<Rightarrow> int" where
  "batch_offset n cnt =
     (if int cnt < uint (word_of_int n :: 64 word) then int cnt else n)"

definition createTransaction :: "int \<Rightarrow> request_stats \<Rightarrow> fault + (transaction \<times> request_stats)" where
  "createTransaction n s =
     (let vec = mRequestsDataVector s;
          offset = nat (batch_offset n (length vec));
          t = \<lparr>ID = gID s + 1, PendingData = take offset vec\<rparr>
      in if vec = [] then Inl AssertFailed
         else if PendingData t = [] then Inl AssertFailed
         else Inr (t, s\<lparr>gID := gID s + 1, mRequestsDataVector := drop offset vec\<rparr>))"

definition requestsData :: "int \<Rightarrow> request_stats \<Rightarrow> fault + (report_handle \<times> request_stats)" where
  "requestsData n s =
     (if mRequestsDataVector s = [] then Inr (\<lparr>Buffer = [], callbacks = None\<rparr>, s)
      else and_then (createTransaction n s) (\<lambda>(t, s1).
        Inr (\<lparr>Buffer = PendingData t, callbacks = Some (ID t)\<rparr>,
             s1\<lparr>mSentData := mSentData s1 @ [t]\<rparr>)))"

text \<open>\<open>vector::erase\<close> moves the later elements down and destroys the last one, whose destructor
  asserts that it holds data.\<close>

fun remove_tx :: "int \<Rightarrow> transaction list \<Rightarrow> transaction list" where
  "remove_tx key [] = []"
| "remove_tx key (t # ts) = (if ID t = key then ts else t # remove_tx key ts)"

fun find_tx :: "int \<Rightarrow> transaction list \<Rightarrow> transaction option" where
  "find_tx key [] = None"
| "find_tx key (t # ts) = (if ID t = key then Some t else find_tx key ts)"

definition erase_tx :: "int \<Rightarrow> request_stats \<Rightarrow> fault + request_stats" where
  "erase_tx key s =
     (if PendingData (last (mSentData s)) = [] then Inl AssertFailed
      else Inr (s\<lparr>mSentData := remove_tx key (mSentData s)\<rparr>))"

definition restoreTransaction :: "int \<Rightarrow> request_stats \<Rightarrow> fault + request_stats" where
  "restoreTransaction key s =
     (case find_tx key (mSentData s) of None \<Rightarrow> Inr s
      | Some t \<Rightarrow>
        erase_tx key (s\<lparr>mRequestsDataVector := mRequestsDataVector s @ PendingData t\<rparr>))"

definition deleteRequestsData :: "io_outcome \<Rightarrow> request_stats \<Rightarrow> fault + request_stats" where
  "deleteRequestsData io s =
     (let d = deleteRequestsFile io (store s) in
      if mRequestsDataVector s \<noteq> []
      then and_then (saveRequestDataVec io (mRequestsDataVector s) d) (\<lambda>d'. Inr (s\<lparr>store := d'\<rparr>))
      else Inr (s\<lparr>store := d\<rparr>))"

definition deleteTransaction :: "io_outcome \<Rightarrow> int \<Rightarrow> request_stats \<Rightarrow> fault + request_stats" where
  "deleteTransaction io key s =
     and_then (case find_tx key (mSentData s) of None \<Rightarrow> Inr s | Some t \<Rightarrow> erase_tx key s)
       (deleteRequestsData io)"

definition deleteAllData :: "io_outcome \<Rightarrow> request_stats \<Rightarrow> fault + request_stats" where
  "deleteAllData io s = deleteRequestsData io (s\<lparr>mRequestsDataVector := []\<rparr>)"

definition requestsCount :: "request_stats \<Rightarrow> nat" where
  "requestsCount s = length (mRequestsDataVector s)"

definition hasData :: "request_stats \<Rightarrow> bool" where
  "hasData s \<longleftrightarrow> mRequestsDataVector s \<noteq> []"

subsection \<open>The reporting loop of the model\<close>

definition kRequestsCountMax :: int where "kRequestsCountMax = 500"

definition report_size :: "int \<Rightarrow> int" where
  "report_size maxRequests = (if maxRequests \<le> 0 then kRequestsCountMax else maxRequests)"

lemma and_then_cong [fundef_cong]:
  "r = r' \<Longrightarrow> (\<And>a. r' = Inr a \<Longrightarrow> f a = g a) \<Longrightarrow> and_then r f = and_then r' g"
  by (cases r') auto

lemma requestsData_shrinks:
  assumes "requestsData n s = Inr (h, s')" and "hasData s'"
  shows "length (mRequestsDataVector s') < length (mRequestsDataVector s)"
  using assms by (auto simp: requestsData_def createTransaction_def hasData_def Let_def
      and_then_eq_Inr split: if_splits)

function reportStats :: "int \<Rightarrow> request_stats \<Rightarrow> fault + (report_handle list \<times> request_stats)" where
  "reportStats maxRequests s =
     and_then (requestsData (report_size maxRequests) s) (\<lambda>(h, s1).
       if hasData s1
       then and_then (reportStats maxRequests s1) (\<lambda>(hs, s2). Inr (h # hs, s2))
       else Inr ([h], s1))"
  by pat_completeness auto
termination
  by (relation "measure (\<lambda>(n, s). length (mRequestsDataVector s))")
    (auto dest: requestsData_shrinks)

declare reportStats.simps [simp del]

subsection \<open>Batches\<close>

lemma batch_offset_positive:
  assumes "0 < n" and "n \<le> maxInt"
  shows "nat (batch_offset n cnt) = min (nat n) cnt"
proof -
  have "uint (word_of_int n :: 64 word) = n"
    using assms by (simp add: uint_word_of_int maxInt_def)
  with assms show ?thesis by (auto simp: batch_offset_def)
qed

lemma report_size_range: "in_int n \<Longrightarrow> 0 < report_size n \<and> report_size n \<le> maxInt"
  by (simp add: report_size_def kRequestsCountMax_def in_int_def maxInt_def)

lemma requestsData_batch:
  assumes "0 < n" and "n \<le> maxInt"
  shows "requestsData n s =
    (if mRequestsDataVector s = [] then Inr (\<lparr>Buffer = [], callbacks = None\<rparr>, s)
     else let b = take (nat n) (mRequestsDataVector s) in
       Inr (\<lparr>Buffer = b, callbacks = Some (gID s + 1)\<rparr>,
         s\<lparr>gID := gID s + 1, mRequestsDataVector := drop (nat n) (mRequestsDataVector s),
           mSentData := mSentData s @ [\<lparr>ID = gID s + 1, PendingData = b\<rparr>]\<rparr>))"
proof -
  have "take (min k (length xs)) xs = take k xs" "drop (min k (length xs)) xs = drop k xs"
    for k and xs :: "string list" by (simp_all add: min_def)
  moreover have "take (nat n) xs \<noteq> []" if "xs \<noteq> []" for xs :: "string list"
    using that assms(1) by simp
  ultimately show ?thesis
    by (simp add: requestsData_def createTransaction_def batch_offset_positive[OF assms] Let_def)
qed

text \<open>The specification: consecutive chunks, and one empty report when nothing is pending.\<close>

function chunks :: "nat \<Rightarrow> 'a list \<Rightarrow> 'a list list" where
  "chunks k xs = (if k = 0 \<or> xs = [] then [] else take k xs # chunks k (drop k xs))"
  by pat_completeness auto
termination by (relation "measure (\<lambda>(k, xs). length xs)") auto

declare chunks.simps [simp del]

lemma concat_chunks: "0 < k \<Longrightarrow> concat (chunks k xs) = xs"
proof (induction k xs rule: chunks.induct)
  case (1 k xs)
  then show ?case using chunks.simps[of k xs] by (cases "xs = []") simp_all
qed

lemma chunk_sizes: "b \<in> set (chunks k xs) \<Longrightarrow> b \<noteq> [] \<and> length b \<le> k"
proof (induction k xs rule: chunks.induct)
  case (1 k xs)
  then show ?case by (auto simp: chunks.simps[of k xs] split: if_splits)
qed

lemma length_chunks: "0 < k \<Longrightarrow> length (chunks k xs) = (length xs + k - 1) div k"
proof (induction k xs rule: chunks.induct)
  case (1 k xs)
  show ?case
  proof (cases "xs = []")
    case False
    have step: "length (chunks k xs) = Suc ((length (drop k xs) + k - 1) div k)"
      using 1 False by (simp add: chunks.simps[of k xs])
    show ?thesis
    proof (cases "k \<le> length xs")
      case True
      then have "length xs + k - 1 = (length (drop k xs) + k - 1) + k" using "1.prems" by simp
      then show ?thesis unfolding step using "1.prems" by (metis div_add_self2 Suc_eq_plus1 less_numeral_extra(3))
    next
      case le: False
      obtain m where m: "length xs = Suc m" using False by (cases xs) auto
      have "length xs + k - 1 = m + k" using m by simp
      moreover have "m < k" using m le by simp
      ultimately show ?thesis unfolding step using "1.prems" le by simp
    qed
  qed (use "1.prems" in \<open>simp add: chunks.simps\<close>)
qed

fun transactions_of :: "int \<Rightarrow> string list list \<Rightarrow> transaction list" where
  "transactions_of i [] = []"
| "transactions_of i (b # bs) = \<lparr>ID = i + 1, PendingData = b\<rparr> # transactions_of (i + 1) bs"

definition handle_of :: "transaction \<Rightarrow> report_handle" where
  "handle_of t = \<lparr>Buffer = PendingData t, callbacks = Some (ID t)\<rparr>"

lemma reportStats_chunks:
  assumes "in_int n" and "mRequestsDataVector s \<noteq> []"
  defines "ts \<equiv> (\<lambda>i v. transactions_of i (chunks (nat (report_size n)) v))"
  shows "reportStats n s = Inr (map handle_of (ts (gID s) (mRequestsDataVector s)),
     s\<lparr>mRequestsDataVector := [], mSentData := mSentData s @ ts (gID s) (mRequestsDataVector s),
       gID := gID s + int (length (ts (gID s) (mRequestsDataVector s)))\<rparr>)"
  using assms(1,2) unfolding ts_def
proof (induction n s rule: reportStats.induct)
  case (1 n s)
  define k where "k = nat (report_size n)"
  define v where "v = mRequestsDataVector s"
  have k: "0 < k" using report_size_range[OF "1.prems"(1)] by (simp add: k_def)
  let ?t = "\<lparr>ID = gID s + 1, PendingData = take k v\<rparr>"
  let ?s1 = "s\<lparr>gID := gID s + 1, mRequestsDataVector := drop k v, mSentData := mSentData s @ [?t]\<rparr>"
  have rd: "requestsData (report_size n) s = Inr (handle_of ?t, ?s1)"
    using requestsData_batch[of "report_size n" s] report_size_range[OF "1.prems"(1)] "1.prems"(2)
    by (simp add: k_def v_def handle_of_def Let_def)
  have ch: "chunks k v = take k v # chunks k (drop k v)"
    using k "1.prems"(2) chunks.simps[of k v] by (simp add: v_def)
  show ?case
  proof (cases "drop k v = []")
    case True
    then have "chunks k (drop k v) = []" by (simp add: chunks.simps)
    then show ?thesis
      using True ch rd by (simp add: reportStats.simps[of n s] hasData_def flip: k_def v_def)
  next
    case False
    then have "reportStats n ?s1 = Inr (map handle_of (transactions_of (gID s + 1) (chunks k (drop k v))),
        ?s1\<lparr>mRequestsDataVector := [], mSentData := mSentData ?s1 @ transactions_of (gID s + 1) (chunks k (drop k v)),
            gID := gID s + 1 + int (length (transactions_of (gID s + 1) (chunks k (drop k v))))\<rparr>)"
      using "1.IH"[OF rd refl] "1.prems"(1) by (simp add: hasData_def flip: k_def)
    then show ?thesis
      using False ch rd by (simp add: reportStats.simps[of n s] hasData_def flip: k_def v_def)
  qed
qed

subsection \<open>Conservation\<close>

definition in_flight :: "request_stats \<Rightarrow> string multiset" where
  "in_flight s = mset (concat (map PendingData (mSentData s)))"

definition acknowledged :: "int \<Rightarrow> request_stats \<Rightarrow> string multiset" where
  "acknowledged key s = (case find_tx key (mSentData s) of None \<Rightarrow> {#} | Some t \<Rightarrow> mset (PendingData t))"

text \<open>
  The runs of the pipeline: records are added, reports are made with any maximum, and a batch is
  acknowledged or fails. The second component collects all records ever added (the ones loaded
  at the start included), the third the acknowledged ones.
\<close>

inductive stats_reach :: "io_outcome \<Rightarrow> request_stats \<Rightarrow> string multiset \<Rightarrow> string multiset \<Rightarrow> bool"
  for io :: io_outcome where
  start: "loadRequestsData d = Inr ds \<Longrightarrow> [] \<notin> set ds \<Longrightarrow> RequestStatsHandler_new gid d = Inr s \<Longrightarrow>
     stats_reach io s (mset ds) {#}"
| add: "stats_reach io s added acked \<Longrightarrow> addNewRequestData io b s = Inr s' \<Longrightarrow>
     stats_reach io s' (added + {#b#}) acked"
| report: "stats_reach io s added acked \<Longrightarrow> in_int n \<Longrightarrow> reportStats n s = Inr (hs, s') \<Longrightarrow>
     stats_reach io s' added acked"
| success: "stats_reach io s added acked \<Longrightarrow> deleteTransaction io key s = Inr s' \<Longrightarrow>
     stats_reach io s' added (acked + acknowledged key s)"
| failure: "stats_reach io s added acked \<Longrightarrow> restoreTransaction key s = Inr s' \<Longrightarrow>
     stats_reach io s' added acked"

definition stats_inv :: "request_stats \<Rightarrow> bool" where
  "stats_inv s \<longleftrightarrow> [] \<notin> set (mRequestsDataVector s) \<and>
     (\<forall>t \<in> set (mSentData s). PendingData t \<noteq> [] \<and> [] \<notin> set (PendingData t))"

lemma find_tx_in: "find_tx key ts = Some t \<Longrightarrow> t \<in> set ts"
  by (induction ts) (auto split: if_splits)

lemma remove_tx_subset: "set (remove_tx key ts) \<subseteq> set ts"
  by (induction ts) auto

lemma remove_tx_none: "find_tx key ts = None \<Longrightarrow> remove_tx key ts = ts"
  by (induction ts) (auto split: if_splits)

lemma remove_tx_mset:
  "find_tx key ts = Some t \<Longrightarrow>
   mset (concat (map PendingData ts)) = mset (concat (map PendingData (remove_tx key ts))) + mset (PendingData t)"
  by (induction ts) (auto split: if_splits)

lemma transactions_of_pending: "map PendingData (transactions_of i bs) = bs"
  by (induction bs arbitrary: i) auto

lemma erase_tx_ok:
  assumes "stats_inv s" and "find_tx key (mSentData s) = Some t"
  shows "erase_tx key s = Inr (s\<lparr>mSentData := remove_tx key (mSentData s)\<rparr>)"
proof -
  from assms(2) have "mSentData s \<noteq> []" by auto
  then have "last (mSentData s) \<in> set (mSentData s)" by simp
  with assms(1) show ?thesis by (auto simp: erase_tx_def stats_inv_def)
qed

lemma erase_tx_Inr:
  "erase_tx key s = Inr s' \<Longrightarrow> s' = s\<lparr>mSentData := remove_tx key (mSentData s)\<rparr>"
  by (auto simp: erase_tx_def split: if_splits)

text \<open>The in-memory effect of each operation.\<close>

lemma addNewRequestData_vec:
  assumes "addNewRequestData io b s = Inr s'"
  shows "mRequestsDataVector s' = mRequestsDataVector s @ [b] \<and> mSentData s' = mSentData s \<and> b \<noteq> []"
  using assms by (auto simp: addNewRequestData_def saveRequestData_def and_then_eq_Inr NSDataFromData_def
      ns_exception_def split: if_splits option.splits)

lemma deleteRequestsData_vec:
  assumes "deleteRequestsData io s = Inr s'"
  shows "mRequestsDataVector s' = mRequestsDataVector s \<and> mSentData s' = mSentData s \<and> gID s' = gID s"
  using assms by (auto simp: deleteRequestsData_def and_then_eq_Inr Let_def split: if_splits)

lemma deleteTransaction_vec:
  assumes "deleteTransaction io key s = Inr s'"
  shows "mRequestsDataVector s' = mRequestsDataVector s \<and> mSentData s' = remove_tx key (mSentData s)"
  using assms by (auto simp: deleteTransaction_def and_then_eq_Inr remove_tx_none
      dest!: deleteRequestsData_vec erase_tx_Inr split: option.splits)

lemma restoreTransaction_vec:
  assumes "restoreTransaction key s = Inr s'"
  shows "mRequestsDataVector s' = mRequestsDataVector s @
       (case find_tx key (mSentData s) of None \<Rightarrow> [] | Some t \<Rightarrow> PendingData t)
     \<and> mSentData s' = remove_tx key (mSentData s) \<and> store s' = store s"
  using assms by (auto simp: restoreTransaction_def remove_tx_none dest!: erase_tx_Inr split: option.splits)

lemma reportStats_idle:
  assumes "in_int n" and "mRequestsDataVector s = []"
  shows "reportStats n s = Inr ([\<lparr>Buffer = [], callbacks = None\<rparr>], s)"
  using assms by (simp add: reportStats.simps[of n s] requestsData_def hasData_def)

lemma chunks_elements:
  "0 < k \<Longrightarrow> b \<in> set (chunks k xs) \<Longrightarrow> x \<in> set b \<Longrightarrow> x \<in> set xs"
  using concat_chunks[of k xs] by (metis UN_I set_concat)

lemma reportStats_vec:
  assumes "in_int n" and "reportStats n s = Inr (hs, s')"
  shows "mRequestsDataVector s' = [] \<and> store s' = store s \<and> (\<exists>ts. mSentData s' = mSentData s @ ts
     \<and> map PendingData ts = chunks (nat (report_size n)) (mRequestsDataVector s))"
proof (cases "mRequestsDataVector s = []")
  case True
  then show ?thesis using reportStats_idle[OF assms(1)] assms(2) by (simp add: chunks.simps)
next
  case False
  then show ?thesis using reportStats_chunks[OF assms(1) False] assms(2)
    by (auto simp: transactions_of_pending)
qed

lemma stats_reach_inv: "stats_reach io s added acked \<Longrightarrow> stats_inv s"
proof (induction rule: stats_reach.induct)
  case (start d ds gid s)
  then show ?case by (auto simp: RequestStatsHandler_new_def stats_inv_def)
next
  case (add s added acked b s')
  from addNewRequestData_vec[OF add.hyps(2)] add.IH show ?case by (auto simp: stats_inv_def)
next
  case (report s added acked n hs s')
  have k: "0 < nat (report_size n)" using report_size_range[OF report.hyps(2)] by simp
  from reportStats_vec[OF report.hyps(2,3)] obtain ts where
    v: "mRequestsDataVector s' = []" "mSentData s' = mSentData s @ ts"
    and ts: "map PendingData ts = chunks (nat (report_size n)) (mRequestsDataVector s)" by blast
  have "PendingData t \<noteq> [] \<and> [] \<notin> set (PendingData t)" if "t \<in> set ts" for t
  proof -
    have "PendingData t \<in> set (chunks (nat (report_size n)) (mRequestsDataVector s))"
      using that ts by (metis image_eqI set_map)
    then show ?thesis using chunk_sizes chunks_elements[OF k] report.IH
      by (metis stats_inv_def)
  qed
  with v report.IH show ?case by (auto simp: stats_inv_def)
next
  case (success s added acked key s')
  from deleteTransaction_vec[OF success.hyps(2)] success.IH remove_tx_subset[of key "mSentData s"]
  show ?case by (auto simp: stats_inv_def)
next
  case (failure s added acked key s')
  from restoreTransaction_vec[OF failure.hyps(2)] failure.IH remove_tx_subset[of key "mSentData s"]
  show ?case by (auto simp: stats_inv_def dest: find_tx_in split: option.splits)
qed

lemma in_flight_remove:
  "in_flight s = mset (concat (map PendingData (remove_tx key (mSentData s)))) + acknowledged key s"
  by (auto simp: in_flight_def acknowledged_def remove_tx_none remove_tx_mset split: option.split)

subsection \<open>Properties\<close>

text \<open>
  Property C2. Along every run the records waiting, the records in flight and the acknowledged
  records are together exactly the records that were added: batching, failures and
  acknowledgements lose none and duplicate none.
\<close>

theorem records_conserved:
  assumes "stats_reach io s added acked"
  shows "mset (mRequestsDataVector s) + in_flight s + acked = added"
  using assms
proof (induction rule: stats_reach.induct)
  case (start d ds gid s)
  then show ?case by (simp add: RequestStatsHandler_new_def in_flight_def) (auto simp: in_flight_def)
next
  case (add s added acked b s')
  from addNewRequestData_vec[OF add.hyps(2)] add.IH show ?case by (auto simp: in_flight_def)
next
  case (report s added acked n hs s')
  have k: "0 < nat (report_size n)" using report_size_range[OF report.hyps(2)] by simp
  from reportStats_vec[OF report.hyps(2,3)] obtain ts where
    v: "mRequestsDataVector s' = []" "mSentData s' = mSentData s @ ts"
    and ts: "map PendingData ts = chunks (nat (report_size n)) (mRequestsDataVector s)" by blast
  have "concat (map PendingData ts) = mRequestsDataVector s"
    unfolding ts by (rule concat_chunks[OF k])
  with v report.IH show ?case by (simp add: in_flight_def ac_simps)
next
  case (success s added acked key s')
  from deleteTransaction_vec[OF success.hyps(2)] success.IH in_flight_remove[of s key]
  show ?case by (simp add: in_flight_def ac_simps)
next
  case (failure s added acked key s')
  have "mset (case find_tx key (mSentData s) of None \<Rightarrow> [] | Some t \<Rightarrow> PendingData t) = acknowledged key s"
    by (simp add: acknowledged_def split: option.split)
  with restoreTransaction_vec[OF failure.hyps(2)] failure.IH in_flight_remove[of s key]
  show ?case by (simp add: in_flight_def ac_simps)
qed

definition empty_disk :: disk where
  "empty_disk = \<lparr>files = Map.empty, defaults = Map.empty\<rparr>"

lemma empty_start:
  "stats_reach io \<lparr>mRequestsDataVector = [], mSentData = [], gID = 0, store = empty_disk\<rparr> {#} {#}"
  using stats_reach.start[of empty_disk "[]" 0 "\<lparr>mRequestsDataVector = [], mSentData = [], gID = 0, store = empty_disk\<rparr>" io]
  by (simp add: loadRequestsData_def contentsOfFileWithName_def empty_disk_def RequestStatsHandler_new_def)

theorem records_conserved_witness:
  "\<exists>s. addNewRequestData io_ok ''r1'' \<lparr>mRequestsDataVector = [], mSentData = [], gID = 0, store = empty_disk\<rparr> = Inr s
     \<and> mset (mRequestsDataVector s) + in_flight s + {#} = {#''r1''#}"
proof -
  obtain s where s: "addNewRequestData io_ok ''r1''
      \<lparr>mRequestsDataVector = [], mSentData = [], gID = 0, store = empty_disk\<rparr> = Inr s"
    by (simp add: addNewRequestData_def saveRequestData_def contentsOfFileWithName_def empty_disk_def NSDataFromData_def)
  from records_conserved[OF stats_reach.add[OF empty_start s]] s show ?thesis by auto
qed

text \<open>
  Property C24. A report never trips an assertion, whatever maximum the configuration names: it
  empties the pending records into consecutive batches, none empty, none longer than the maximum
  (500 for a maximum that is not positive), in the order the records came; their number is the
  rounded-up quotient, and with nothing pending it sends one empty report.
\<close>

theorem report_drains_in_batches:
  assumes "in_int n"
  shows "\<exists>hs s'. reportStats n s = Inr (hs, s') \<and> mRequestsDataVector s' = []
     \<and> concat (map Buffer hs) = mRequestsDataVector s
     \<and> (\<forall>h \<in> set hs. length (Buffer h) \<le> nat (report_size n)
          \<and> (Buffer h = [] \<longleftrightarrow> callbacks h = None))
     \<and> length hs = max 1 ((length (mRequestsDataVector s) + nat (report_size n) - 1) div nat (report_size n))"
proof -
  define k where "k = nat (report_size n)"
  have k: "0 < k" using report_size_range[OF assms] by (simp add: k_def)
  show ?thesis
  proof (cases "mRequestsDataVector s = []")
    case True
    have "(length (mRequestsDataVector s) + k - 1) div k = 0" using True k by simp
    then show ?thesis
      using reportStats_idle[OF assms True] True by (auto simp flip: k_def)
  next
    case False
    define ts where "ts = transactions_of (gID s) (chunks k (mRequestsDataVector s))"
    have p: "map PendingData ts = chunks k (mRequestsDataVector s)"
      by (simp add: ts_def transactions_of_pending)
    have b: "PendingData t \<noteq> [] \<and> length (PendingData t) \<le> k" if "t \<in> set ts" for t
      using that p chunk_sizes by (metis image_eqI set_map)
    have "length ts = (length (mRequestsDataVector s) + k - 1) div k"
      using p length_chunks[OF k] by (metis length_map)
    moreover have "ts \<noteq> []" using p False concat_chunks[OF k, of "mRequestsDataVector s"] by auto
    ultimately have len: "length ts = max 1 ((length (mRequestsDataVector s) + k - 1) div k)"
      by (metis One_nat_def Suc_leI length_greater_0_conv max.absorb2)
    have "map Buffer (map handle_of ts) = map PendingData ts" by (simp add: handle_of_def)
    then have cc: "concat (map Buffer (map handle_of ts)) = mRequestsDataVector s"
      using p concat_chunks[OF k] by simp
    obtain s' where r: "reportStats n s = Inr (map handle_of ts, s')" "mRequestsDataVector s' = []"
      using reportStats_chunks[OF assms False] by (simp add: ts_def k_def)
    have "\<forall>h \<in> set (map handle_of ts). length (Buffer h) \<le> k \<and> (Buffer h = [] \<longleftrightarrow> callbacks h = None)"
      using b by (auto simp: handle_of_def)
    with r cc len show ?thesis unfolding k_def[symmetric]
      by (intro exI[of _ "map handle_of ts"] exI[of _ s']) simp
  qed
qed

theorem report_drains_in_batches_witness:
  "\<exists>hs s'. reportStats 2 \<lparr>mRequestsDataVector = [''a'', ''b'', ''c''], mSentData = [], gID = 0, store = empty_disk\<rparr>
      = Inr (hs, s') \<and> length hs = 2 \<and> concat (map Buffer hs) = [''a'', ''b'', ''c'']"
proof -
  have "in_int 2" by (simp add: in_int_def minInt_def maxInt_def)
  moreover have "nat (report_size 2) = 2" by (simp add: report_size_def)
  ultimately show ?thesis
    using report_drains_in_batches[of 2 "\<lparr>mRequestsDataVector = [''a'', ''b'', ''c''], mSentData = [], gID = 0, store = empty_disk\<rparr>"]
    by auto
qed

subsection \<open>What a restart finds\<close>

lemma deleteRequestsData_file:
  assumes "[] \<notin> set (mRequestsDataVector s)"
  shows "\<exists>s'. deleteRequestsData io_ok s = Inr s' \<and> loadRequestsData (store s') = Inr (mRequestsDataVector s)"
  using rq.rewrite_file[OF assms, of "store s"] rq.load_wipe[of "store s"]
  by (auto simp: deleteRequestsData_def Let_def)

lemma deleteTransaction_file:
  assumes "stats_inv s"
  shows "\<exists>s'. deleteTransaction io_ok key s = Inr s' \<and> loadRequestsData (store s') = Inr (mRequestsDataVector s)"
proof -
  let ?s1 = "s\<lparr>mSentData := remove_tx key (mSentData s)\<rparr>"
  have "(case find_tx key (mSentData s) of None \<Rightarrow> Inr s | Some t \<Rightarrow> erase_tx key s) = Inr ?s1"
    using erase_tx_ok[OF assms] by (auto simp: remove_tx_none split: option.split)
  moreover have "[] \<notin> set (mRequestsDataVector ?s1)" using assms by (simp add: stats_inv_def)
  ultimately show ?thesis
    using deleteRequestsData_file[of ?s1] by (simp add: deleteTransaction_def)
qed

definition covered :: "request_stats \<Rightarrow> bool" where
  "covered s \<longleftrightarrow> (\<exists>fs. loadRequestsData (store s) = Inr fs
     \<and> mset (mRequestsDataVector s) + in_flight s \<subseteq># mset fs)"

lemma addNewRequestData_file:
  assumes "loadRequestsData (store s) = Inr fs" and "b \<noteq> []"
  shows "\<exists>s'. addNewRequestData io_ok b s = Inr s' \<and> loadRequestsData (store s') = Inr (fs @ [b])"
  using rq.load_append_one[OF assms] by (auto simp: addNewRequestData_def)

lemma stats_reach_file:
  "stats_reach io_ok s added acked \<Longrightarrow> \<exists>fs. loadRequestsData (store s) = Inr fs"
proof (induction rule: stats_reach.induct)
  case (start d ds gid s)
  then show ?case by (auto simp: RequestStatsHandler_new_def)
next
  case (add s added acked b s')
  then show ?case using addNewRequestData_file addNewRequestData_vec by (metis Inr_inject)
next
  case (report s added acked n hs s')
  then show ?case using reportStats_vec[OF report.hyps(2,3)] by simp
next
  case (success s added acked key s')
  then show ?case using deleteTransaction_file[OF stats_reach_inv[OF success.hyps(1)]] by (metis Inr_inject)
next
  case (failure s added acked key s')
  then show ?case using restoreTransaction_vec[OF failure.hyps(2)] by simp
qed

text \<open>
  In every reachable state each operation returns: no assertion of the handler or
  of a transaction's destructor fails when a record is added, a batch fails or is acknowledged,
  whatever identifier the callback carries.
\<close>

theorem handler_never_aborts:
  assumes "stats_reach io_ok s added acked"
  shows "(b \<noteq> [] \<longrightarrow> returns (addNewRequestData io_ok b s))
     \<and> returns (restoreTransaction key s) \<and> returns (deleteTransaction io_ok key s)"
proof -
  have inv: "stats_inv s" by (rule stats_reach_inv[OF assms])
  obtain fs where fs: "loadRequestsData (store s) = Inr fs" using stats_reach_file[OF assms] by blast
  have "returns (restoreTransaction key s)"
  proof (cases "find_tx key (mSentData s)")
    case (Some t)
    have "find_tx key (mSentData s) = Some t \<Longrightarrow> PendingData (last (mSentData s)) \<noteq> []"
      using inv by (metis erase_tx_ok erase_tx_def Inl_Inr_False)
    with Some show ?thesis by (simp add: restoreTransaction_def erase_tx_def)
  qed (simp add: restoreTransaction_def)
  moreover have "b \<noteq> [] \<longrightarrow> returns (addNewRequestData io_ok b s)"
    using addNewRequestData_file[OF fs] by force
  moreover have "returns (deleteTransaction io_ok key s)"
    using deleteTransaction_file[OF inv, of key] by force
  ultimately show ?thesis by blast
qed

theorem handler_never_aborts_witness:
  "returns (deleteTransaction io_ok 7
     \<lparr>mRequestsDataVector = [], mSentData = [], gID = 0, store = empty_disk\<rparr>)"
  using handler_never_aborts[OF empty_start] by blast

definition unacknowledged :: "request_stats \<Rightarrow> string multiset" where
  "unacknowledged s = mset (mRequestsDataVector s) + in_flight s"

lemma covered_iff:
  "covered s \<longleftrightarrow> (\<exists>fs. loadRequestsData (store s) = Inr fs \<and> unacknowledged s \<subseteq># mset fs)"
  by (simp add: covered_def unacknowledged_def)

lemma unacknowledged_report:
  assumes "in_int n" and "reportStats n s = Inr (hs, s')"
  shows "unacknowledged s' = unacknowledged s \<and> store s' = store s"
proof -
  have k: "0 < nat (report_size n)" using report_size_range[OF assms(1)] by simp
  from reportStats_vec[OF assms] obtain ts where v: "mRequestsDataVector s' = []" "store s' = store s"
    "mSentData s' = mSentData s @ ts"
    and ts: "map PendingData ts = chunks (nat (report_size n)) (mRequestsDataVector s)" by blast
  have "concat (map PendingData ts) = mRequestsDataVector s"
    unfolding ts by (rule concat_chunks[OF k])
  with v show ?thesis by (simp add: unacknowledged_def in_flight_def ac_simps)
qed

lemma unacknowledged_restore:
  assumes "restoreTransaction key s = Inr s'"
  shows "unacknowledged s' = unacknowledged s \<and> store s' = store s"
proof -
  have "mset (case find_tx key (mSentData s) of None \<Rightarrow> [] | Some t \<Rightarrow> PendingData t) = acknowledged key s"
    by (simp add: acknowledged_def split: option.split)
  then show ?thesis
    using restoreTransaction_vec[OF assms] in_flight_remove[of s key]
    by (simp add: unacknowledged_def in_flight_def ac_simps)
qed

lemma covered_add:
  assumes "covered s" and "addNewRequestData io_ok b s = Inr s'"
  shows "covered s'"
proof -
  obtain fs where fs: "loadRequestsData (store s) = Inr fs" "unacknowledged s \<subseteq># mset fs"
    using assms(1) by (auto simp: covered_iff)
  note v = addNewRequestData_vec[OF assms(2)]
  have "loadRequestsData (store s') = Inr (fs @ [b])"
    using addNewRequestData_file[OF fs(1), of b] v assms(2) by auto
  moreover have "unacknowledged s' \<subseteq># mset (fs @ [b])"
    using v fs(2) by (simp add: unacknowledged_def in_flight_def ac_simps)
  ultimately show ?thesis by (auto simp: covered_iff)
qed

text \<open>
  Property C26. While batches are reported one at a time nothing is lost by a crash: if the file
  covers all records that are not acknowledged, it still does after a record is added, a report
  is made, a batch fails, or the only batch in flight is acknowledged; in the last case the file
  holds exactly the pending records.
\<close>

theorem one_batch_at_a_time_is_crash_safe:
  assumes "covered s" and "stats_inv s"
  shows "(addNewRequestData io_ok b s = Inr s1 \<longrightarrow> covered s1)
     \<and> (in_int n \<and> reportStats n s = Inr (hs, s2) \<longrightarrow> covered s2)
     \<and> (restoreTransaction key s = Inr s3 \<longrightarrow> covered s3)
     \<and> (mSentData s = [t] \<and> deleteTransaction io_ok (ID t) s = Inr s4 \<longrightarrow>
          covered s4 \<and> loadRequestsData (store s4) = Inr (mRequestsDataVector s4))"
proof -
  have "covered s4 \<and> loadRequestsData (store s4) = Inr (mRequestsDataVector s4)"
    if r: "mSentData s = [t]" "deleteTransaction io_ok (ID t) s = Inr s4"
    using deleteTransaction_file[OF assms(2), of "ID t"] deleteTransaction_vec[OF r(2)] r
    by (auto simp: covered_def in_flight_def)
  moreover have "covered s2" if "in_int n" "reportStats n s = Inr (hs, s2)"
    using unacknowledged_report[OF that] assms(1) by (simp add: covered_iff)
  moreover have "covered s3" if "restoreTransaction key s = Inr s3"
    using unacknowledged_restore[OF that] assms(1) by (simp add: covered_iff)
  ultimately show ?thesis using covered_add[OF assms(1)] by blast
qed

definition idle_stats :: request_stats where
  "idle_stats = \<lparr>mRequestsDataVector = [], mSentData = [], gID = 0, store = empty_disk\<rparr>"

text \<open>A state with given records, batches and last batch number, whose file holds \<open>f\<close>.\<close>

definition stats_state :: "string list \<Rightarrow> (int \<times> string list) list \<Rightarrow> int \<Rightarrow> string list \<Rightarrow> request_stats" where
  "stats_state v ts g f = \<lparr>mRequestsDataVector = v,
     mSentData = map (\<lambda>(i, ds). \<lparr>ID = i, PendingData = ds\<rparr>) ts, gID = g,
     store = \<lparr>files = (if f = [] then Map.empty else [kRSRequestDataStorageKey \<mapsto> PArray (map PData f)]),
              defaults = Map.empty\<rparr>\<rparr>"

lemma report_one:
  "reportStats 1 (stats_state [b] [] g f) =
     Inr ([handle_of \<lparr>ID = g + 1, PendingData = [b]\<rparr>], stats_state [] [(g + 1, [b])] (g + 1) f)"
proof -
  have "chunks (nat 1) [b] = [[b]]" by (simp add: chunks.simps)
  moreover have "in_int 1" "report_size 1 = 1" by (simp_all add: in_int_def minInt_def maxInt_def report_size_def)
  ultimately show ?thesis using reportStats_chunks[of 1 "stats_state [b] [] g f"] by (simp add: stats_state_def)
qed

theorem one_batch_at_a_time_is_crash_safe_witness:
  "\<exists>s1 s2 s3 s4 s5 s6 hs hs'.
     addNewRequestData io_ok ''a'' idle_stats = Inr s1 \<and> covered s1
   \<and> reportStats 1 s1 = Inr (hs, s2) \<and> covered s2
   \<and> restoreTransaction 1 s2 = Inr s3 \<and> covered s3
   \<and> reportStats 1 s3 = Inr (hs', s4) \<and> covered s4
   \<and> addNewRequestData io_ok ''b'' s4 = Inr s5 \<and> covered s5
   \<and> unacknowledged s5 = {#''a'', ''b''#} \<and> loadRequestsData (store s5) = Inr [''a'', ''b'']
   \<and> deleteTransaction io_ok 2 s5 = Inr s6 \<and> covered s6
   \<and> unacknowledged s6 = {#''b''#} \<and> loadRequestsData (store s6) = Inr [''b'']"
proof -
  let ?s1 = "stats_state [''a''] [] 0 [''a'']" and ?s2 = "stats_state [] [(1, [''a''])] 1 [''a'']"
    and ?s3 = "stats_state [''a''] [] 1 [''a'']" and ?s4 = "stats_state [] [(2, [''a''])] 2 [''a'']"
    and ?s5 = "stats_state [''b''] [(2, [''a''])] 2 [''a'', ''b'']"
    and ?s6 = "stats_state [''b''] [] 2 [''b'']"
  note claim = one_batch_at_a_time_is_crash_safe
  note sim = stats_state_def idle_stats_def empty_disk_def
  have inv: "stats_inv idle_stats" "stats_inv ?s1" "stats_inv ?s2" "stats_inv ?s3" "stats_inv ?s4" "stats_inv ?s5"
    by (simp_all add: stats_inv_def sim)
  have one: "in_int 1" by (simp add: in_int_def minInt_def maxInt_def)
  have c0: "covered idle_stats"
    by (simp add: covered_def in_flight_def loadRequestsData_def contentsOfFileWithName_def sim)
  have a1: "addNewRequestData io_ok ''a'' idle_stats = Inr ?s1"
    by (simp add: addNewRequestData_def saveRequestData_def contentsOfFileWithName_def NSDataFromData_def sim)
  have c1: "covered ?s1" using a1 claim[OF c0 inv(1), where b = "''a''" and ?s1.0 = ?s1] by blast
  note r1 = report_one[of "''a''" 0 "[''a'']", simplified]
  have c2: "covered ?s2" using claim[OF c1 inv(2), where n = 1 and ?s2.0 = ?s2] r1 one by blast
  have f2: "restoreTransaction 1 ?s2 = Inr ?s3"
    by (simp add: restoreTransaction_def erase_tx_def sim)
  have c3: "covered ?s3" using claim[OF c2 inv(3), where key = 1 and ?s3.0 = ?s3] f2 by blast
  note r3 = report_one[of "''a''" 1 "[''a'']", simplified]
  have c4: "covered ?s4" using claim[OF c3 inv(4), where n = 1 and ?s2.0 = ?s4] r3 one by blast
  have a5: "addNewRequestData io_ok ''b'' ?s4 = Inr ?s5"
    by (simp add: addNewRequestData_def saveRequestData_def contentsOfFileWithName_def NSDataFromData_def sim)
  have c5: "covered ?s5" using claim[OF c4 inv(5), where b = "''b''" and ?s1.0 = ?s5] a5 by blast
  obtain s6 where d6: "deleteTransaction io_ok 2 ?s5 = Inr s6"
    using deleteTransaction_file[OF inv(6)] by blast
  have "mSentData ?s5 = [\<lparr>ID = 2, PendingData = [''a'']\<rparr>]" by (simp add: sim)
  then have c6: "covered s6 \<and> loadRequestsData (store s6) = Inr (mRequestsDataVector s6)"
    using claim[OF c5 inv(6), where t = "\<lparr>ID = 2, PendingData = [''a'']\<rparr>" and ?s4.0 = s6] d6 by simp
  have v6: "mRequestsDataVector s6 = [''b'']" "mSentData s6 = []"
    using deleteTransaction_vec[OF d6] by (simp_all add: sim)
  have u5: "unacknowledged ?s5 = {#''a'', ''b''#}"
    by (simp add: unacknowledged_def in_flight_def sim)
  have l5: "loadRequestsData (store ?s5) = Inr [''a'', ''b'']"
    by (simp add: loadRequestsData_def contentsOfFileWithName_def sim)
  have u6: "unacknowledged s6 = {#''b''#}" "loadRequestsData (store s6) = Inr [''b'']"
    using v6 c6 by (simp_all add: unacknowledged_def in_flight_def)
  show ?thesis
    by (intro exI conjI) (rule a1 c1 r1 c2 f2 c3 r3 c4 a5 c5 u5 l5 d6 u6 conjunct1[OF c6])+
qed

text \<open>
  With two batches in flight the acknowledgement of the first removes the second
  from the file: the handler deletes the file and writes back only the pending records. Here
  two records are reported in batches of one, the first is acknowledged, and a restart finds no
  record although the second was never acknowledged.
\<close>

theorem acknowledgement_forgets_other_batch:
  "\<exists>s1 s2 hs s3 s4. addNewRequestData io_ok ''a'' idle_stats = Inr s1
     \<and> addNewRequestData io_ok ''b'' s1 = Inr s2
     \<and> reportStats 1 s2 = Inr (hs, s3)
     \<and> deleteTransaction io_ok 1 s3 = Inr s4
     \<and> unacknowledged s4 = {#''b''#}
     \<and> loadRequestsData (store s4) = Inr []
     \<and> (\<exists>s5. RequestStatsHandler_new 0 (store s4) = Inr s5 \<and> unacknowledged s5 = {#})"
proof -
  define s2 where "s2 = \<lparr>mRequestsDataVector = [''a'', ''b''], mSentData = [], gID = 0,
     store = \<lparr>files = [kRSRequestDataStorageKey \<mapsto> PArray [PData ''a'', PData ''b'']], defaults = Map.empty\<rparr>\<rparr>"
  have "chunks (nat 1) [''a'', ''b''] = [[''a''], [''b'']]"
    by (simp add: chunks.simps)
  moreover have "in_int 1" "report_size 1 = 1" by (simp_all add: in_int_def minInt_def maxInt_def report_size_def)
  ultimately have "\<exists>hs s3. reportStats 1 s2 = Inr (hs, s3) \<and> s3 = s2\<lparr>mRequestsDataVector := [],
      mSentData := [\<lparr>ID = 1, PendingData = [''a'']\<rparr>, \<lparr>ID = 2, PendingData = [''b'']\<rparr>], gID := 2\<rparr>"
    using reportStats_chunks[of 1 s2] by (simp add: s2_def)
  then obtain hs s3 where r: "reportStats 1 s2 = Inr (hs, s3)" and s3: "s3 = s2\<lparr>mRequestsDataVector := [],
      mSentData := [\<lparr>ID = 1, PendingData = [''a'']\<rparr>, \<lparr>ID = 2, PendingData = [''b'']\<rparr>], gID := 2\<rparr>"
    by blast
  have d: "deleteTransaction io_ok 1 s3 = Inr (s3\<lparr>mSentData := [\<lparr>ID = 2, PendingData = [''b'']\<rparr>],
      store := deleteRequestsFile io_ok (store s3)\<rparr>)" (is "_ = Inr ?s4")
    by (simp add: s3 s2_def deleteTransaction_def erase_tx_def deleteRequestsData_def)
  have "loadRequestsData (store ?s4) = Inr []" using rq.load_wipe by simp
  then have "RequestStatsHandler_new 0 (store ?s4) = Inr
      \<lparr>mRequestsDataVector = [], mSentData = [], gID = 0, store = store ?s4\<rparr>"
    by (simp add: RequestStatsHandler_new_def)
  moreover have "\<exists>s1. addNewRequestData io_ok ''a'' idle_stats = Inr s1 \<and> addNewRequestData io_ok ''b'' s1 = Inr s2"
    by (simp add: addNewRequestData_def saveRequestData_def contentsOfFileWithName_def idle_stats_def
        empty_disk_def s2_def NSDataFromData_def)
  moreover have "unacknowledged ?s4 = {#''b''#}"
    by (simp add: unacknowledged_def in_flight_def s3)
  ultimately show ?thesis
    using r d rq.load_wipe by (fastforce simp: unacknowledged_def in_flight_def)
qed

end
