(* ===== verification/SdkModel.thy ===== *)
theory SdkModel
  imports ProtocolSelector ConfigService RequestStats LogTargets
begin

text \<open>
  The model (\<open>Model/Model.{hpp,cpp}\<close>) and the statistics facade (\<open>Stats/StatsHandler.{hpp,cpp}\<close>).
  The model asks its configuration service through the interface \<open>IConfigurationService\<close>: the
  operations take the service's \<open>get\<close> as an argument, and the contract of the interface gives the
  decision of a request although the code reads the configuration several times. The lock is
  not modelled, every operation is one step.
\<close>

subsection \<open>Domain names\<close>

text \<open>\<open>host_of\<close> is Foundation's URL parser: the host of a URL, \<open>None\<close> for \<open>nil\<close>.\<close>

definition with_scheme :: "string option \<Rightarrow> fault + string" where
  "with_scheme name =
     (case name of None \<Rightarrow> ns_exception
      | Some s \<Rightarrow> Inr (if starts_with ''http://'' s \<or> starts_with ''https://'' s then s else ''http://'' @ s))"

definition areDomainNamesEqual ::
  "(string \<Rightarrow> bool) \<Rightarrow> (string \<Rightarrow> string option) \<Rightarrow> string \<Rightarrow> string \<Rightarrow> fault + bool" where
  "areDomainNamesEqual utf8 host_of d1 d2 =
     and_then (with_scheme (NSStringFromStdString utf8 d1)) (\<lambda>u1.
     and_then (with_scheme (NSStringFromStdString utf8 d2)) (\<lambda>u2.
       Inr (case (host_of u1, host_of u2) of (Some h1, Some h2) \<Rightarrow> h1 = h2 | _ \<Rightarrow> False)))"

fun domainsContainDomainName ::
  "(string \<Rightarrow> bool) \<Rightarrow> (string \<Rightarrow> string option) \<Rightarrow> string list \<Rightarrow> string \<Rightarrow> fault + bool" where
  "domainsContainDomainName utf8 host_of [] name = Inr False"
| "domainsContainDomainName utf8 host_of (d # ds) name =
     and_then (areDomainNamesEqual utf8 host_of d name) (\<lambda>eq.
       if eq then Inr True else domainsContainDomainName utf8 host_of ds name)"

definition url_of :: "string \<Rightarrow> string" where
  "url_of s = (if starts_with ''http://'' s \<or> starts_with ''https://'' s then s else ''http://'' @ s)"

definition same_host :: "(string \<Rightarrow> string option) \<Rightarrow> string \<Rightarrow> string \<Rightarrow> bool" where
  "same_host host_of a b \<longleftrightarrow> host_of (url_of a) \<noteq> None \<and> host_of (url_of a) = host_of (url_of b)"

lemma areDomainNamesEqual_plain:
  assumes "plain utf8 a" and "plain utf8 b"
  shows "areDomainNamesEqual utf8 host_of a b = Inr (same_host host_of a b)"
  using assms by (auto simp: areDomainNamesEqual_def with_scheme_def url_of_def same_host_def split: option.split)

lemma domainsContain_plain:
  assumes "\<And>d. d \<in> set ds \<Longrightarrow> plain utf8 d" and "plain utf8 name"
  shows "domainsContainDomainName utf8 host_of ds name = Inr (\<exists>d \<in> set ds. same_host host_of d name)"
  using assms(1) by (induction ds) (auto simp: areDomainNamesEqual_plain[OF _ assms(2)])

subsection \<open>Decisions about a request\<close>

text \<open>A decision answers with the new state of the service and the effects of reading it.\<close>

definition canTransport :: "'s get_active \<Rightarrow> environment \<Rightarrow> 's \<Rightarrow> bool \<times> 's \<times> service_effect list" where
  "canTransport get e s =
     (let (conf, s1, fx) = get e s
      in (operationMode conf = kRSOperationModeInnerTransport
          \<or> operationMode conf = kRSOperationModeInnerTransportAndReport, s1, fx))"

definition shouldTransportDomainName ::
  "(string \<Rightarrow> bool) \<Rightarrow> (string \<Rightarrow> string option) \<Rightarrow> 's get_active \<Rightarrow> environment \<Rightarrow> string \<Rightarrow> 's
    \<Rightarrow> fault + (bool \<times> 's \<times> service_effect list)" where
  "shouldTransportDomainName utf8 host_of get e name s =
     (let (ok, s1, fx1) = canTransport get e s in
      if \<not> ok then Inr (False, s1, fx1)
      else
      let (conf, s2, fx2) = get e s1; answer = (\<lambda>b. (b, s2, fx1 @ fx2)) in
      and_then (domainsContainDomainName utf8 host_of (domainsBlackList conf) name) (\<lambda>black.
      if black then Inr (answer False) else
      and_then (domainsContainDomainName utf8 host_of (domainsInternalBlackList conf) name) (\<lambda>internal.
      if internal then Inr (answer False) else
      and_then (domainsContainDomainName utf8 host_of (domainsProvisionedList conf) name) (\<lambda>provisioned.
      if provisioned then Inr (answer True) else
      and_then (domainsContainDomainName utf8 host_of (domainsWhiteList conf) name) (\<lambda>white.
      if white then Inr (answer True) else Inr (answer (domainsWhiteList conf = [])))))))"

definition isDomainNameProvisioned ::
  "'s get_active \<Rightarrow> environment \<Rightarrow> string \<Rightarrow> 's \<Rightarrow> bool \<times> 's \<times> service_effect list" where
  "isDomainNameProvisioned get e name s =
     (let (conf, s1, fx) = get e s in (name \<in> set (domainsProvisionedList conf), s1, fx))"

definition shouldCollectRequestsData ::
  "'s get_active \<Rightarrow> environment \<Rightarrow> 's \<Rightarrow> bool \<times> 's \<times> service_effect list" where
  "shouldCollectRequestsData get e s =
     (let (conf, s1, fx) = get e s;
          byLevel = (statsReportingLevel conf = kRSStatsReportingLevelRelease
                     \<or> statsReportingLevel conf = kRSStatsReportingLevelDebug)
      in (byLevel \<and> (operationMode conf = kRSOperationModeInnerReport
                     \<or> operationMode conf = kRSOperationModeInnerTransportAndReport), s1, fx))"

text \<open>\<open>mocked\<close> is the outcome of the dynamic cast to \<open>TestConfigurationService\<close>.\<close>

definition shouldPassHost ::
  "bool \<Rightarrow> 's get_active \<Rightarrow> environment \<Rightarrow> string \<Rightarrow> 's \<Rightarrow> bool \<times> 's \<times> service_effect list" where
  "shouldPassHost mocked get e aHost s =
     (if \<not> mocked then (True, s, [])
      else let (conf, s1, fx) = get e s in
        if operationMode conf \<noteq> kRSOperationModeInnerReport then (True, s1, fx)
        else (aHost \<notin> set [''mobile-collector.newrelic.com''], s1, fx))"

lemmas decision_ops [step_defs] =
  canTransport_def shouldTransportDomainName_def isDomainNameProvisioned_def
  shouldCollectRequestsData_def shouldPassHost_def

text \<open>The specification: one look at the configuration decides.\<close>

definition transports :: "(string \<Rightarrow> string option) \<Rightarrow> configuration \<Rightarrow> string \<Rightarrow> bool" where
  "transports host_of conf name \<longleftrightarrow>
     operationMode conf \<in> {kRSOperationModeInnerTransport, kRSOperationModeInnerTransportAndReport}
   \<and> (\<forall>d \<in> set (domainsBlackList conf) \<union> set (domainsInternalBlackList conf). \<not> same_host host_of d name)
   \<and> (domainsWhiteList conf = []
      \<or> (\<exists>d \<in> set (domainsProvisionedList conf) \<union> set (domainsWhiteList conf). same_host host_of d name))"

definition plain_lists :: "(string \<Rightarrow> bool) \<Rightarrow> configuration \<Rightarrow> bool" where
  "plain_lists utf8 conf \<longleftrightarrow>
     (\<forall>d \<in> set (domainsBlackList conf) \<union> set (domainsInternalBlackList conf)
          \<union> set (domainsProvisionedList conf) \<union> set (domainsWhiteList conf). plain utf8 d)"

context configuration_service
begin

lemma transport_decision:
  assumes "plain utf8 name" and "plain_lists utf8 (fst (get e s))"
  shows "shouldTransportDomainName utf8 host_of get e name s =
     Inr (transports host_of (fst (get e s)) name, snd (get e s))"
proof -
  obtain c s1 fx where g: "get e s = (c, s1, fx)" by (cases "get e s")
  then have g1: "get e s1 = (c, s1, [])" by (rule get_again)
  have "domainsContainDomainName utf8 host_of (f c) name = Inr (\<exists>d \<in> set (f c). same_host host_of d name)"
    if "f = domainsBlackList \<or> f = domainsInternalBlackList \<or> f = domainsProvisionedList \<or> f = domainsWhiteList" for f
    by (rule domainsContain_plain[OF _ assms(1)]) (use that assms(2) g in \<open>auto simp: plain_lists_def\<close>)
  note d = this[of domainsBlackList] this[of domainsInternalBlackList]
    this[of domainsProvisionedList] this[of domainsWhiteList]
  show ?thesis
    by (cases "domainsWhiteList c = []")
      (auto simp: shouldTransportDomainName_def canTransport_def g g1 d transports_def Let_def)
qed

lemma off_never_transports:
  assumes "get e s = (c, s1, fx)" and "operationMode c = kRSOperationModeInnerOff"
  shows "shouldTransportDomainName utf8 host_of get e name s = Inr (False, s1, fx)"
  using assms by (simp add: shouldTransportDomainName_def canTransport_def mode_defs)

end

text \<open>
  Property C12. With names Foundation accepts, whether a request for a host is sent through the
  SDK depends on the active configuration alone: the mode must transport, neither black list may
  name the host, and the host must be provisioned or white-listed unless the white list is
  empty. Black lists win over the provisioned list, and the second read of the configuration
  has no further effect.
\<close>

theorem transport_decision_table:
  assumes "plain utf8 name" and "plain_lists utf8 (fst (getActive e s))"
  shows "shouldTransportDomainName utf8 host_of getActive e name s =
     Inr (transports host_of (fst (getActive e s)) name, snd (getActive e s))"
  using assms by (rule real_service.transport_decision)

definition strip_http :: "string \<Rightarrow> string option" where
  "strip_http u = (if starts_with ''http://'' u then Some (drop 7 u) else None)"

theorem transport_decision_table_witness:
  "(let s = sample_service\<lparr>mActiveConfiguration := sample_configuration
       \<lparr>domainsBlackList := [''a.example''], domainsProvisionedList := [''a.example'', ''b.example''],
        domainsWhiteList := [''c.example'']\<rparr>\<rparr>
    in shouldTransportDomainName (\<lambda>x. True) strip_http getActive (at_time 5) ''a.example'' s = Inr (False, s, [])
     \<and> shouldTransportDomainName (\<lambda>x. True) strip_http getActive (at_time 5) ''b.example'' s = Inr (True, s, []))"
proof -
  let ?c = "sample_configuration\<lparr>domainsBlackList := [''a.example''],
      domainsProvisionedList := [''a.example'', ''b.example''], domainsWhiteList := [''c.example'']\<rparr>"
  let ?s = "sample_service\<lparr>mActiveConfiguration := ?c\<rparr>"
  have g: "getActive (at_time 5) ?s = (?c, ?s, [])"
    by (rule getActive_not_stale[THEN trans])
      (simp_all add: isStale_def isTimedOut_def sample_service_def at_time_def secs_of_def
        sample_configuration_def Configuration_new_def)
  have p: "plain_lists (\<lambda>x. True) (fst (getActive (at_time 5) ?s))"
    unfolding g by (simp add: plain_lists_def plain_def sample_configuration_def Configuration_new_def)
  have "transports strip_http ?c ''a.example'' = False" "transports strip_http ?c ''b.example''"
    by (simp_all add: transports_def same_host_def url_of_def strip_http_def sample_configuration_def
        Configuration_new_def mode_defs)
  then show ?thesis
    using transport_decision_table[OF _ p, of "''a.example''" strip_http]
      transport_decision_table[OF _ p, of "''b.example''" strip_http]
    unfolding g by (simp add: plain_def Let_def)
qed

subsection \<open>The statistics facade\<close>

record stats_handler =
  mSDKKey :: string
  mRequestStatsHandler :: request_stats
  monitoring :: bool
  mStatsReportingLevel :: nat
  events :: "(string \<times> int \<times> string \<times> rat) list"

definition setReportingLevel :: "nat \<Rightarrow> stats_handler \<Rightarrow> stats_handler" where
  "setReportingLevel lvl h = h\<lparr>mStatsReportingLevel := lvl\<rparr>"

definition startMonitoring :: "stats_handler \<Rightarrow> stats_handler" where
  "startMonitoring h = h\<lparr>monitoring := True\<rparr>"

definition stopMonitoring :: "stats_handler \<Rightarrow> stats_handler" where
  "stopMonitoring h = h\<lparr>monitoring := False\<rparr>"

definition setSDKKey :: "string \<Rightarrow> stats_handler \<Rightarrow> stats_handler" where
  "setSDKKey key h = h\<lparr>mSDKKey := key\<rparr>"

definition addRequestData :: "io_outcome \<Rightarrow> string \<Rightarrow> stats_handler \<Rightarrow> fault + stats_handler" where
  "addRequestData io data h =
     and_then (addNewRequestData io data (mRequestStatsHandler h)) (\<lambda>r. Inr (h\<lparr>mRequestStatsHandler := r\<rparr>))"

definition addEvent_stats :: "string \<times> int \<times> string \<times> rat \<Rightarrow> stats_handler \<Rightarrow> stats_handler" where
  "addEvent_stats ev h = h\<lparr>events := events h @ [ev]\<rparr>"

text \<open>A report carries, besides the records, the strings identifying the application.\<close>

record stats_report =
  rep_handle :: report_handle
  rep_strings :: "(string \<times> string) list"

definition createSendTransaction ::
  "string \<Rightarrow> string \<Rightarrow> int \<Rightarrow> string \<Rightarrow> stats_handler \<Rightarrow> fault + (stats_report \<times> stats_handler)" where
  "createSendTransaction appVersion sdkVersion aRequestCount aAppName h =
     and_then (requestsData aRequestCount (mRequestStatsHandler h)) (\<lambda>(hd, r).
       Inr (\<lparr>rep_handle = hd,
             rep_strings = [(''app_name'', aAppName), (''sdk_key'', mSDKKey h),
                            (''sdk_version'', sdkVersion), (''version'', appVersion)]\<rparr>,
            h\<lparr>mRequestStatsHandler := r\<rparr>))"

subsection \<open>The model's state\<close>

record 's rs_model =
  mStatsHandler :: stats_handler
  mStatsReportingTimer :: "rat option" \<comment> \<open>the interval of the timer\<close>
  mProtocolSelector :: selector
  mConfService :: 's
  mCurrentLoggingLevel :: nat
  mEventTriggerOn :: bool
  mEventTriggerCallback :: bool \<comment> \<open>whether a callback is set\<close>
  mShouldSimulateErrors :: bool

definition logLevels :: "string list" where
  "logLevels = [''none'', ''error'', ''debug'', ''info'']"

definition logging_level_index :: "string \<Rightarrow> nat" where
  "logging_level_index name =
     (let i = find_index name logLevels in if i = length logLevels then 0 else i)"

definition applyConfiguration ::
  "(string \<Rightarrow> string) \<Rightarrow> configuration option \<Rightarrow> 's rs_model \<Rightarrow> 's rs_model \<times> selector_effect list" where
  "applyConfiguration moved aConfiguration m =
     (case aConfiguration of None \<Rightarrow> (m, [])
      | Some c \<Rightarrow>
        let h = setReportingLevel (statsReportingLevel c) (mStatsHandler m);
            h' = (if operationMode c = kRSOperationModeInnerReport
                     \<or> operationMode c = kRSOperationModeInnerTransportAndReport
                  then startMonitoring h else stopMonitoring h);
            (sel, es) = onConfigurationApplied moved c (mProtocolSelector m)
        in (m\<lparr>mStatsHandler := h', mProtocolSelector := sel,
              mCurrentLoggingLevel := logging_level_index (loggingLevel c)\<rparr>, es))"

definition scheduleStatsReporting :: "configuration \<Rightarrow> 's rs_model \<Rightarrow> 's rs_model" where
  "scheduleStatsReporting activeConf m =
     (if operationMode activeConf = kRSOperationModeInnerReport
         \<or> operationMode activeConf = kRSOperationModeInnerTransportAndReport
      then if mStatsReportingTimer m = None
              \<or> the (mStatsReportingTimer m) \<noteq> fl32 (of_int (statsReportingInterval activeConf))
           then m\<lparr>mStatsReportingTimer :=
                   (if 0 < statsReportingInterval activeConf
                    then Some (fl32 (of_int (statsReportingInterval activeConf)))
                    else mStatsReportingTimer m)\<rparr>
           else m
      else m\<lparr>mStatsReportingTimer := None\<rparr>)"

definition addEvent ::
  "string \<Rightarrow> int \<Rightarrow> string \<Rightarrow> rat \<Rightarrow> nat \<Rightarrow> 's rs_model \<Rightarrow> 's rs_model" where
  "addEvent aSeverity aCode aMessage aInterval aLoggingLevel m =
     (if aLoggingLevel \<le> mCurrentLoggingLevel m
      then m\<lparr>mStatsHandler := addEvent_stats (aSeverity, aCode, aMessage, aInterval) (mStatsHandler m)\<rparr>
      else m)"

datatype connection_kind = StandardConnection | QUICConnection

definition connectionForProtocolName :: "string \<Rightarrow> bool \<Rightarrow> fault + (connection_kind \<times> bool)" where
  "connectionForProtocolName aProtocolName simulate =
     (if aProtocolName = standardProtocolName then Inr (StandardConnection, simulate)
      else if aProtocolName = quicProtocolName then Inr (QUICConnection, simulate)
      else Inl AssertFailed)"

definition currentConnection :: "'s rs_model \<Rightarrow> fault + (connection_kind \<times> bool)" where
  "currentConnection m =
     connectionForProtocolName (protocolName (bestProtocol (mProtocolSelector m))) (mShouldSimulateErrors m)"

definition switchEventTrigger :: "bool \<Rightarrow> bool \<Rightarrow> 's rs_model \<Rightarrow> 's rs_model" where
  "switchEventTrigger aOn hasCallback m = m\<lparr>mEventTriggerOn := aOn, mEventTriggerCallback := hasCallback\<rparr>"

text \<open>The title of the event raised for a message of the QUIC tags.\<close>

definition quic_tag_title :: "int \<Rightarrow> string" where
  "quic_tag_title aTag =
     (if aTag = kLogTagQUICRequest then '' request''
      else if aTag = kLogTagQUICLibrary then '' library''
      else if aTag = kLogTagQUICNetwork then '' network'' else '' unknown'')"

definition level_title :: "level \<Rightarrow> string" where
  "level_title lvl = (case lvl of Info \<Rightarrow> '' info'' | Warning \<Rightarrow> '' warning'' | Error \<Rightarrow> '' error'')"

definition logTargetPrint_model ::
  "level \<Rightarrow> int \<Rightarrow> string \<Rightarrow> 's rs_model \<Rightarrow> (level \<times> string \<times> string) option" where
  "logTargetPrint_model aLevel aTag aMessage m =
     (if \<not> mEventTriggerOn m \<or> \<not> mEventTriggerCallback m then None
      else if kLogTagQUICMIN \<le> aTag \<and> aTag \<le> kLogTagQUICMAX \<and> (aLevel = Warning \<or> aLevel = Error)
      then Some (aLevel, ''QUIC'' @ quic_tag_title aTag @ level_title aLevel, aMessage)
      else None)"

lemma currentConnection_total: "returns (currentConnection m)"
  by (cases "bestProtocol (mProtocolSelector m)")
    (simp_all add: currentConnection_def connectionForProtocolName_def)

subsection \<open>The model with the real service\<close>

text \<open>The stale condition the model gives its service: no protocol is selected.\<close>

definition model_env :: "int \<Rightarrow> config_service rs_model \<Rightarrow> environment" where
  "model_env t m = \<lparr>now = t, externalStale = \<not> haveAvailadleProtocols (mProtocolSelector m)\<rparr>"

definition read_conf :: "int \<Rightarrow> config_service rs_model \<Rightarrow> configuration \<times> config_service rs_model" where
  "read_conf t m =
     (let (c, s1, fx) = getActive (model_env t m) (mConfService m)
      in (c, m\<lparr>mConfService := s1,
              mStatsHandler := (if StaleCallback \<in> set fx then stopMonitoring (mStatsHandler m)
                                else mStatsHandler m)\<rparr>))"

definition getAllowedProtocolIDs :: "int \<Rightarrow> config_service rs_model \<Rightarrow> string list \<times> config_service rs_model" where
  "getAllowedProtocolIDs t m = (let (c, m1) = read_conf t m in (allowedProtocols c, m1))"

text \<open>Test results arrive: \<open>handleTestResults\<close> with the allowed protocols of the moment.\<close>

definition testResultsArrive ::
  "(string \<Rightarrow> string) \<Rightarrow> bool \<Rightarrow> int \<Rightarrow> availability_result list \<Rightarrow> config_service rs_model
    \<Rightarrow> config_service rs_model" where
  "testResultsArrive moved online t rs m =
     (let (conf, m1) = getAllowedProtocolIDs t m
      in m1\<lparr>mProtocolSelector := fst (handleTestResults moved conf online rs (mProtocolSelector m1))\<rparr>)"

fun testResultsSeries ::
  "(string \<Rightarrow> string) \<Rightarrow> (bool \<times> int \<times> availability_result list) list \<Rightarrow> config_service rs_model
    \<Rightarrow> config_service rs_model" where
  "testResultsSeries moved [] m = m"
| "testResultsSeries moved ((online, t, rs) # es) m =
     testResultsSeries moved es (testResultsArrive moved online t rs m)"

lemma read_conf_without_protocol:
  assumes "\<not> haveAvailadleProtocols (mProtocolSelector m)"
  shows "fst (read_conf t m) = mStaleConfiguration (mConfService m)"
    and "mProtocolSelector (snd (read_conf t m)) = mProtocolSelector m"
    and "mStaleConfiguration (mConfService (snd (read_conf t m))) = mStaleConfiguration (mConfService m)"
  using assms by (simp_all add: read_conf_def getActive_def isStale_def model_env_def Let_def)

lemma testResultsArrive_stuck:
  assumes "\<not> haveAvailadleProtocols (mProtocolSelector m)"
    and "allowedProtocols (mStaleConfiguration (mConfService m)) = []"
  shows "\<not> haveAvailadleProtocols (mProtocolSelector (testResultsArrive moved online t rs m))
     \<and> mStaleConfiguration (mConfService (testResultsArrive moved online t rs m)) = mStaleConfiguration (mConfService m)"
proof -
  have "fst (getAllowedProtocolIDs t m) = []" "snd (getAllowedProtocolIDs t m) = snd (read_conf t m)"
    using assms read_conf_without_protocol(1)[OF assms(1), of t]
    by (cases "read_conf t m"; simp add: getAllowedProtocolIDs_def)+
  then show ?thesis
    using read_conf_without_protocol[OF assms(1), of t]
    by (auto simp: testResultsArrive_def haveAvailadleProtocols_def handleTestResults_fst sortProtocols_best
        Let_def split: prod.split)
qed

lemma lockout_series:
  assumes "\<not> haveAvailadleProtocols (mProtocolSelector m)"
    and "allowedProtocols (mStaleConfiguration (mConfService m)) = []"
  shows "\<not> haveAvailadleProtocols (mProtocolSelector (testResultsSeries moved es m))
     \<and> mStaleConfiguration (mConfService (testResultsSeries moved es m)) = mStaleConfiguration (mConfService m)"
  using assms
proof (induction es arbitrary: m)
  case (Cons e es)
  obtain online t' rs where e: "e = (online, t', rs)" by (cases e)
  from testResultsArrive_stuck[OF Cons.prems, of moved online t' rs]
  show ?case using Cons.IH Cons.prems(2) by (simp add: e)
qed simp

lemma no_transport_without_protocol:
  assumes "\<not> haveAvailadleProtocols (mProtocolSelector m)"
    and "operationMode (mStaleConfiguration (mConfService m)) = kRSOperationModeInnerOff"
  shows "\<not> fst (canTransport getActive (model_env t m) (mConfService m))"
  using assms by (simp add: canTransport_def getActive_def isStale_def model_env_def mode_defs Let_def)

text \<open>
  Property C19. Once no protocol is selected, test results alone never bring one back, however the
  protocols answer: the service then counts as stale, its stale configuration allows no
  protocol, and without allowed protocols the selector selects none. All the while requests are
  not transported.
\<close>

theorem no_protocol_lockout:
  assumes "\<not> haveAvailadleProtocols (mProtocolSelector m)"
    and "allowedProtocols (mStaleConfiguration (mConfService m)) = []"
    and "operationMode (mStaleConfiguration (mConfService m)) = kRSOperationModeInnerOff"
  shows "\<not> haveAvailadleProtocols (mProtocolSelector (testResultsSeries moved es m))
     \<and> \<not> fst (canTransport getActive (model_env t (testResultsSeries moved es m))
                (mConfService (testResultsSeries moved es m)))"
  using lockout_series[OF assms(1,2), of moved es] assms(3) no_transport_without_protocol by simp

definition sample_model :: "config_service rs_model" where
  "sample_model = \<lparr>mStatsHandler = \<lparr>mSDKKey = [], mRequestStatsHandler = idle_stats, monitoring = False,
       mStatsReportingLevel = 0, events = []\<rparr>,
     mStatsReportingTimer = None, mProtocolSelector = ProtocolSelector_new [],
     mConfService = sample_service\<lparr>mStaleConfiguration := Configuration_new sample_configuration\<rparr>,
     mCurrentLoggingLevel = 0, mEventTriggerOn = False, mEventTriggerCallback = False,
     mShouldSimulateErrors = False\<rparr>"

theorem no_protocol_lockout_witness:
  "\<not> haveAvailadleProtocols (mProtocolSelector (testResultsSeries id
      [(True, 7, [\<lparr>ProtocolID = ''standard'', Available = True\<rparr>, \<lparr>ProtocolID = ''quic'', Available = True\<rparr>])]
      sample_model))"
  using no_protocol_lockout[of sample_model id
      "[(True, 7, [\<lparr>ProtocolID = ''standard'', Available = True\<rparr>, \<lparr>ProtocolID = ''quic'', Available = True\<rparr>])]"]
  by (simp add: sample_model_def ProtocolSelector_new_def haveAvailadleProtocols_def sample_service_def
      Configuration_new_def)

text \<open>
  The validation accepts \<open>rev\<close> as the initial protocol, but the selector knows no
  such protocol: applying the first configuration with it selects none, and from then on no test
  result selects one and no request is transported, until another configuration is applied.
\<close>

theorem rev_initial_protocol_disables_sdk:
  assumes "initialTransportProtocol c = ''rev''" and "firstInit (mProtocolSelector m)"
    and "allowedProtocols (mStaleConfiguration (mConfService m)) = []"
    and "operationMode (mStaleConfiguration (mConfService m)) = kRSOperationModeInnerOff"
    and "m' = testResultsSeries moved es (fst (applyConfiguration moved (Some c) m))"
  shows "one_of [''standard'', ''quic'', ''rev''] (Some (JString (initialTransportProtocol c)))
     \<and> \<not> haveAvailadleProtocols (mProtocolSelector m')
     \<and> \<not> fst (canTransport getActive (model_env t m') (mConfService m'))"
proof -
  let ?m1 = "fst (applyConfiguration moved (Some c) m)"
  have "\<not> haveAvailadleProtocols (mProtocolSelector ?m1)"
    using assms(1,2) by (simp add: applyConfiguration_def onConfigurationApplied_def Let_def
        convertIDToPropocol_def protocol_of_id_def quicProtocolName_def standardProtocolName_def
        haveAvailadleProtocols_def refreshTestInfo_def split: prod.split)
  moreover have "mConfService ?m1 = mConfService m"
    by (simp add: applyConfiguration_def Let_def split: prod.split)
  ultimately show ?thesis
    using lockout_series[of ?m1 moved es] no_transport_without_protocol assms(1,3,4)
    by (simp add: assms(5) one_of_def)
qed

theorem rev_initial_protocol_disables_sdk_witness:
  "\<not> haveAvailadleProtocols (mProtocolSelector (testResultsSeries id
      [(True, 7, [\<lparr>ProtocolID = ''standard'', Available = True\<rparr>])]
      (fst (applyConfiguration id (Some (sample_configuration\<lparr>initialTransportProtocol := ''rev''\<rparr>)) sample_model))))"
  using rev_initial_protocol_disables_sdk[of "sample_configuration\<lparr>initialTransportProtocol := ''rev''\<rparr>" sample_model _ id
      "[(True, 7, [\<lparr>ProtocolID = ''standard'', Available = True\<rparr>])]", OF _ _ _ _ refl]
  by (simp add: sample_model_def ProtocolSelector_new_def sample_service_def Configuration_new_def)

text \<open>
  The reporting timer runs exactly when the active mode reports: after
  \<open>scheduleStatsReporting\<close> with a positive interval there is a timer of that interval in the two
  reporting modes and none in the others, whatever timer there was; scheduling again with the
  same configuration changes nothing.
\<close>

theorem stats_timer_follows_mode:
  assumes "0 < statsReportingInterval c"
  shows "mStatsReportingTimer (scheduleStatsReporting c m) =
       (if operationMode c = kRSOperationModeInnerReport \<or> operationMode c = kRSOperationModeInnerTransportAndReport
        then Some (fl32 (of_int (statsReportingInterval c))) else None)
     \<and> scheduleStatsReporting c (scheduleStatsReporting c m) = scheduleStatsReporting c m"
  using assms by (auto simp: scheduleStatsReporting_def)

theorem stats_timer_follows_mode_witness:
  "mStatsReportingTimer (scheduleStatsReporting sample_configuration sample_model) = Some (fl32 60)"
  using stats_timer_follows_mode[of sample_configuration sample_model]
  by (simp add: sample_configuration_def Configuration_new_def mode_defs)

end
