(* ===== verification/Connections.thy ===== *)
theory Connections
  imports AvailabilityTester DataStorage
begin

text \<open>
  The values and the base of a connection (\<open>Connection/Data\<close>, \<open>Error\<close>, \<open>Request\<close>, \<open>Response\<close>,
  \<open>Connection\<close>), the proxy that ties a connection to the failure monitor
  (\<open>Connection/ConnectionProxy.cpp\<close>), the standard connection (\<open>Connection/StandardConnection.mm\<close>)
  and the usage counters (\<open>Debug/DebugUsageTracker.mm\<close>).
\<close>

subsection \<open>Data\<close>

text \<open>
  A byte is \<open>None\<close> while \<open>malloc\<close>'s memory was not written. A \<open>Data\<close> without content and one of
  length zero are the same: the constructors never make an empty content.
\<close>

type_synonym data = "char option list"

definition Data_new :: "string option \<Rightarrow> nat \<Rightarrow> data" where
  "Data_new aBytes aLength =
     (if 0 < aLength
      then case aBytes of Some bs \<Rightarrow> map Some (take aLength bs) | None \<Rightarrow> replicate aLength None
      else [])"

definition isEmpty :: "data \<Rightarrow> bool" where
  "isEmpty d \<longleftrightarrow> d = []"

definition toString :: "data \<Rightarrow> fault + string" where
  "toString d = (if None \<in> set d then Inl UndefinedBehaviour else Inr (map the d))"

text \<open>\<open>memcpy\<close> of \<open>src\<close> to position \<open>pos\<close> of \<open>dst\<close>.\<close>

definition memcpy_at :: "nat \<Rightarrow> 'a list \<Rightarrow> 'a list \<Rightarrow> 'a list" where
  "memcpy_at pos src dst = take pos dst @ src @ drop (pos + length src) dst"

definition Data_concat :: "data \<Rightarrow> data \<Rightarrow> data" where
  "Data_concat d0 d1 =
     (let p = Data_new None (length d0 + length d1)
      in memcpy_at (length d0) d1 (memcpy_at 0 d0 p))"

definition byAppendingData :: "string option \<Rightarrow> nat \<Rightarrow> data \<Rightarrow> fault + data" where
  "byAppendingData aData aDataLen d =
     (if isEmpty d then Inr (Data_new aData aDataLen)
      else case aData of
        None \<Rightarrow> if aDataLen = 0 then Inr d else Inl UndefinedBehaviour
      | Some bs \<Rightarrow>
          Inr (memcpy_at (length d) (map Some (take aDataLen bs))
                (memcpy_at 0 d (Data_new None (length d + aDataLen)))))"

definition Data_clone :: "data \<Rightarrow> data" where
  "Data_clone d = (if isEmpty d then [] else d)"

lemma Data_new_bytes: "Data_new (Some s) (length s) = map Some s"
  by (simp add: Data_new_def)

lemma Data_concat_append: "Data_concat d0 d1 = d0 @ d1"
  by (cases "d0 @ d1 = []") (auto simp: Data_concat_def Data_new_def memcpy_at_def)

lemma toString_append:
  "toString (Data_concat a b) =
     and_then (toString a) (\<lambda>s. and_then (toString b) (\<lambda>t. Inr (s @ t)))"
  by (auto simp: Data_concat_append toString_def)

lemma byAppendingData_bytes: "byAppendingData (Some s) (length s) d = Inr (d @ map Some s)"
  by (auto simp: byAppendingData_def isEmpty_def Data_new_bytes Data_new_def memcpy_at_def)

text \<open>Assembling a body from its pieces.\<close>

fun append_all :: "string list \<Rightarrow> data \<Rightarrow> fault + data" where
  "append_all [] d = Inr d"
| "append_all (s # ss) d = and_then (byAppendingData (Some s) (length s) d) (append_all ss)"

lemma append_all_concat: "append_all ss d = Inr (d @ map Some (concat ss))"
  by (induction ss arbitrary: d) (simp_all add: byAppendingData_bytes)

subsection \<open>Error, request, response\<close>

record rs_error =
  code :: int
  domain :: string
  userInfo :: "string \<rightharpoonup> string"

definition noErrorCode :: int where "noErrorCode = - 10000"
definition errorDescriptionKey :: string where "errorDescriptionKey = ''NSLocalizedDescription''"

definition Error_new :: rs_error where
  "Error_new = \<lparr>code = noErrorCode, domain = [], userInfo = Map.empty\<rparr>"

definition setDescription :: "string \<Rightarrow> rs_error \<Rightarrow> rs_error" where
  "setDescription aDescription e = e\<lparr>userInfo := (userInfo e)(errorDescriptionKey \<mapsto> aDescription)\<rparr>"

definition description :: "rs_error \<Rightarrow> string" where
  "description e = (case userInfo e errorDescriptionKey of None \<Rightarrow> [] | Some s \<Rightarrow> s)"

definition notError :: rs_error where
  "notError = Error_new\<lparr>code := noErrorCode\<rparr>"

definition isNoError :: "rs_error \<Rightarrow> bool" where
  "isNoError e \<longleftrightarrow> code e = noErrorCode"

record request =
  mMethod :: string
  mOriginalURL :: string
  mURL :: string
  mHeaders :: "string \<rightharpoonup> string"
  mBody :: data
  mHost :: string
  mPath :: string
  mRest :: string
  mOriginalScheme :: string

definition Request_new :: "string \<Rightarrow> (string \<rightharpoonup> string) \<Rightarrow> string \<Rightarrow> data \<Rightarrow> request" where
  "Request_new aURL aHeaders aMethod aBody =
     \<lparr>mMethod = aMethod, mOriginalURL = aURL, mURL = aURL, mHeaders = aHeaders, mBody = aBody,
      mHost = [], mPath = [], mRest = [], mOriginalScheme = []\<rparr>"

definition Request_clone :: "request \<Rightarrow> request" where
  "Request_clone r = (Request_new (mURL r) (mHeaders r) (mMethod r) (Data_clone (mBody r)))
     \<lparr>mHost := mHost r, mPath := mPath r, mRest := mRest r, mOriginalScheme := mOriginalScheme r,
      mOriginalURL := mOriginalURL r\<rparr>"

lemma Request_clone_id: "Request_clone r = r"
  by (simp add: Request_clone_def Request_new_def Data_clone_def isEmpty_def)

record response =
  r_URL :: string
  mHeaderFields :: "string \<rightharpoonup> string"
  mStatusCode :: nat

definition Response_new :: "string \<Rightarrow> (string \<rightharpoonup> string) \<Rightarrow> nat \<Rightarrow> response" where
  "Response_new aURL aHeaderFields aStatusCode =
     \<lparr>r_URL = aURL, mHeaderFields = aHeaderFields, mStatusCode = aStatusCode\<rparr>"

subsection \<open>The base of a connection\<close>

record connection =
  mConnectionID :: "32 word"
  mBytesSent :: int
  mBytesReceived :: int
  mStartTimestamp :: int
  mEndTimestamp :: int
  mFirstByteReceivedTimestamp :: int
  mEdgeHost :: string
  mIsFake :: bool

text \<open>The identifiers come from a counter shared by all connections, which wraps around.\<close>

definition Connection_new :: "string \<Rightarrow> bool \<Rightarrow> 32 word \<Rightarrow> connection \<times> 32 word" where
  "Connection_new edge fake gLastConnectionID =
     (\<lparr>mConnectionID = gLastConnectionID, mBytesSent = 0, mBytesReceived = 0, mStartTimestamp = 0,
       mEndTimestamp = 0, mFirstByteReceivedTimestamp = 0, mEdgeHost = edge, mIsFake = fake\<rparr>,
      gLastConnectionID + 1)"

definition getLastConnectionId :: "32 word \<Rightarrow> 32 word \<times> 32 word" where
  "getLastConnectionId gLastConnectionID = (gLastConnectionID, gLastConnectionID + 1)"

definition addSentBytesCount :: "int \<Rightarrow> 'a connection_scheme \<Rightarrow> 'a connection_scheme" where
  "addSentBytesCount aCount c = c\<lparr>mBytesSent := mBytesSent c + aCount\<rparr>"

definition addReceivedBytesCount :: "int \<Rightarrow> 'a connection_scheme \<Rightarrow> 'a connection_scheme" where
  "addReceivedBytesCount aCount c = c\<lparr>mBytesReceived := mBytesReceived c + aCount\<rparr>"

text \<open>Times are milliseconds since the epoch.\<close>

definition onStart :: "int \<Rightarrow> 'a connection_scheme \<Rightarrow> fault + 'a connection_scheme" where
  "onStart ms c = (if mStartTimestamp c \<noteq> 0 then Inl AssertFailed else Inr (c\<lparr>mStartTimestamp := ms\<rparr>))"

definition onEnd :: "int \<Rightarrow> 'a connection_scheme \<Rightarrow> fault + 'a connection_scheme" where
  "onEnd ms c = (if mEndTimestamp c \<noteq> 0 then Inl AssertFailed else Inr (c\<lparr>mEndTimestamp := ms\<rparr>))"

definition onResponseReceived :: "int \<Rightarrow> 'a connection_scheme \<Rightarrow> 'a connection_scheme" where
  "onResponseReceived ms c = c\<lparr>mFirstByteReceivedTimestamp := ms\<rparr>"

text \<open>The identifiers of connections made one after the other.\<close>

fun connection_ids :: "nat \<Rightarrow> 32 word \<Rightarrow> 32 word list" where
  "connection_ids 0 g = []"
| "connection_ids (Suc n) g =
     (let (c, g') = Connection_new [] False g in mConnectionID c # connection_ids n g')"

lemma connection_ids_eq: "connection_ids n g = map (\<lambda>i. g + of_nat i) [0..<n]"
proof (induction n arbitrary: g)
  case (Suc n)
  have "map (\<lambda>i. g + of_nat i) [0..<Suc n] = g # map (\<lambda>i. g + of_nat (Suc i)) [0..<n]"
    by (simp add: upt_conv_Cons map_Suc_upt[symmetric] comp_def del: upt_Suc map_Suc_upt)
  with Suc show ?case by (simp add: Connection_new_def ac_simps)
qed simp

lemma connection_ids_distinct: "n \<le> 2 ^ 32 \<Longrightarrow> distinct (connection_ids n g)"
proof -
  assume n: "n \<le> 2 ^ 32"
  have "inj_on (\<lambda>i. g + of_nat i :: 32 word) {0..<n}"
  proof (rule inj_onI)
    fix i j :: nat
    assume "i \<in> {0..<n}" "j \<in> {0..<n}" and eq: "g + of_nat i = g + (of_nat j :: 32 word)"
    then have lt: "i < 2 ^ 32" "j < 2 ^ 32" using n by auto
    from eq have "unat (of_nat i :: 32 word) = unat (of_nat j :: 32 word)" by simp
    with lt show "i = j" by (simp add: unat_of_nat)
  qed
  then show ?thesis by (simp add: connection_ids_eq distinct_map)
qed

subsection \<open>What a connection tells its delegate\<close>

datatype delegate_call =
    DidReceiveResponse response
  | DidReceiveData data
  | DidFinish
  | DidFailWithError rs_error
  | WasRedirected request response

datatype app_callback =
    FinishCallback
  | DataCallback data
  | ResponseCallback response
  | ErrorCallback rs_error
  | RedirectCallback request response

text \<open>
  The proxy passes the calls on and reports failures to the monitor under the transport of the
  connection. \<open>clk\<close> gives the readings of the clock a call takes.
\<close>

definition proxy_call ::
  "(nat \<Rightarrow> int) \<Rightarrow> int \<Rightarrow> rat \<Rightarrow> string \<Rightarrow> delegate_call \<Rightarrow> 'cb monitor
    \<Rightarrow> fault + ('cb monitor \<times> ('cb \<times> string) list \<times> app_callback)" where
  "proxy_call clk interval threshold transport c m =
     (case c of
        DidReceiveResponse r \<Rightarrow> Inr (m, [], ResponseCallback r)
      | DidReceiveData d \<Rightarrow> Inr (m, [], DataCallback d)
      | DidFinish \<Rightarrow> Inr (m, [], FinishCallback)
      | DidFailWithError e \<Rightarrow>
          and_then (logFailure clk interval threshold transport (code e) m) (\<lambda>(m', subs).
            Inr (m', subs, ErrorCallback e))
      | WasRedirected q r \<Rightarrow> Inr (m, [], RedirectCallback q r))"

fun proxy_calls ::
  "(nat \<Rightarrow> int) \<Rightarrow> int \<Rightarrow> rat \<Rightarrow> string \<Rightarrow> delegate_call list \<Rightarrow> 'cb monitor
    \<Rightarrow> fault + ('cb monitor \<times> ('cb \<times> string) list \<times> app_callback list)" where
  "proxy_calls clk interval threshold transport [] m = Inr (m, [], [])"
| "proxy_calls clk interval threshold transport (c # cs) m =
     and_then (proxy_call clk interval threshold transport c m) (\<lambda>(m1, subs, a).
     and_then (proxy_calls clk interval threshold transport cs m1) (\<lambda>(m2, subs', as).
       Inr (m2, subs @ subs', a # as)))"

text \<open>\<open>start\<close>: the calls a connection makes before \<open>startWithRequest\<close> returns come first, and only
  then the connection is logged.\<close>

definition proxy_start ::
  "(nat \<Rightarrow> int) \<Rightarrow> int \<Rightarrow> rat \<Rightarrow> string \<Rightarrow> delegate_call list \<Rightarrow> 'cb monitor
    \<Rightarrow> fault + ('cb monitor \<times> ('cb \<times> string) list \<times> app_callback list)" where
  "proxy_start clk interval threshold transport calls m =
     and_then (proxy_calls clk interval threshold transport calls m) (\<lambda>(m1, subs, as).
       Inr (logConnection (clk 0) transport m1, subs, as))"

subsection \<open>The standard connection\<close>

record standard_connection = connection +
  mCurrentRequest :: "request option"
  mResponse :: "response option"

definition url_not_supported :: rs_error where
  "url_not_supported = setDescription ''URL not supported'' \<lparr>code = - 1, domain = ''com.revsdk'', userInfo = Map.empty\<rparr>"

definition fake_error :: rs_error where
  "fake_error = setDescription ''Fake error'' \<lparr>code = - 2, domain = ''com.revsdk'', userInfo = Map.empty\<rparr>"

text \<open>\<open>host_of\<close> is Foundation's \<open>URL.host\<close>; the task is started by the session (\<open>True\<close> in the result).\<close>

definition startWithRequest_standard ::
  "(string \<Rightarrow> string option) \<Rightarrow> int \<Rightarrow> request \<Rightarrow> standard_connection
    \<Rightarrow> fault + (standard_connection \<times> delegate_call list \<times> bool)" where
  "startWithRequest_standard host_of ms r c =
     (let c0 = c\<lparr>mCurrentRequest := Some r\<rparr> in
      if host_of (mURL r) = None then Inr (c0, [DidFailWithError url_not_supported], False)
      else
        let c1 = c0\<lparr>mBytesSent := mBytesSent c0 + int (length (mBody r))\<rparr> in
        if mStartTimestamp c1 \<noteq> 0 then Inl AssertFailed
        else Inr (c1\<lparr>mStartTimestamp := ms\<rparr>, [], True))"

text \<open>
  The end of the transfer. \<open>collect\<close> is the model's \<open>shouldCollectRequestsData\<close>; the result tells
  the delegate calls, the entry of the usage counters, and whether a record is made. Without
  a response the finished transfer dereferences a null pointer.
\<close>

datatype tracked = TrackFinished bool int | TrackFailed bool int

definition didCompleteWithError_standard ::
  "bool \<Rightarrow> bool \<Rightarrow> int \<Rightarrow> rs_error option \<Rightarrow> standard_connection
    \<Rightarrow> fault + (standard_connection \<times> delegate_call list \<times> tracked list \<times> bool)" where
  "didCompleteWithError_standard usingRevHost collect ms aError c =
     (if mEndTimestamp c \<noteq> 0 then Inl AssertFailed
      else
        let c1 = c\<lparr>mEndTimestamp := ms\<rparr> in
        case aError of
          Some e \<Rightarrow> Inr (c1, [DidFailWithError e], [TrackFailed usingRevHost (mBytesReceived c)], collect)
        | None \<Rightarrow>
            if mIsFake c then Inr (c1, [DidFailWithError fake_error], [], collect)
            else if mResponse c = None then Inl UndefinedBehaviour
            else Inr (c1, [DidFinish], [TrackFinished usingRevHost (mBytesReceived c)], collect))"

subsection \<open>Properties\<close>

lemma validate_needs_recent:
  assumes "\<forall>t \<in> set (at_key (mLoggedConnections m) p). \<not> in_window now interval t"
  shows "logFailure (\<lambda>_. now) interval threshold p c m = Inl UndefinedBehaviour"
proof -
  obtain j where "prune (\<lambda>_. now) 1 interval (\<lambda>t. t) (at_key (mLoggedConnections m) p) =
     (case dropWhile (\<lambda>x. \<not> in_window now interval x) (at_key (mLoggedConnections m) p) of
        [] \<Rightarrow> Inl UndefinedBehaviour | y # ys \<Rightarrow> Inr (y # ys, j))"
    using prune_frozen[of now 1 interval "\<lambda>t. t"] by blast
  moreover have "dropWhile (\<lambda>x. \<not> in_window now interval x) (at_key (mLoggedConnections m) p) = []"
    using assms by (simp add: dropWhile_eq_Nil_conv)
  ultimately show ?thesis by (simp add: logFailure_def validate_def Let_def)
qed

text \<open>
  A standard request whose URL has no host fails inside \<open>startWithRequest\<close>, before the
  proxy logs the connection: on a monitor with no standard connection in the monitoring window
  the report runs past the end of an empty vector. The same happens to any connection that
  fails when no other of its transport was started within the window.
\<close>

theorem unlogged_failure_is_undefined:
  assumes "\<forall>t \<in> set (at_key (mLoggedConnections m) standardProtocolName). \<not> in_window now interval t"
    and "host_of (mURL r) = None"
  shows "\<exists>c' calls. startWithRequest_standard host_of ms r c = Inr (c', calls, False)
     \<and> proxy_start (\<lambda>_. now) interval threshold standardProtocolName calls m = Inl UndefinedBehaviour
     \<and> proxy_call (\<lambda>_. now) interval threshold standardProtocolName (DidFailWithError e) m = Inl UndefinedBehaviour"
  using assms(2) validate_needs_recent[OF assms(1)]
  by (simp add: startWithRequest_standard_def proxy_start_def proxy_call_def Let_def)

theorem unlogged_failure_is_undefined_witness:
  "proxy_call (\<lambda>_. 5) 120 (fl64 (3 / 5)) standardProtocolName (DidFailWithError fake_error)
     (initialize_monitor :: unit monitor) = Inl UndefinedBehaviour"
proof -
  have "at_key (mLoggedConnections (initialize_monitor :: unit monitor)) standardProtocolName = []"
    by (simp add: initialize_monitor_def at_key_def)
  then show ?thesis
    using unlogged_failure_is_undefined[of "initialize_monitor :: unit monitor" 5 120 "\<lambda>_. None"
        "Request_new ''data:x'' Map.empty ''GET'' []"] by auto
qed

text \<open>
  What may happen to the monitor while a connection runs: every operation of \<open>monitor_reach\<close>, other connections and
  failures, changes of the network, which clear it, and waiting.
\<close>

inductive monitor_later :: "int \<Rightarrow> 'cb monitor \<Rightarrow> int \<Rightarrow> 'cb monitor \<Rightarrow> bool" for t0 :: int and m0 :: "'cb monitor" where
  now: "monitor_later t0 m0 t0 m0"
| wait: "monitor_later t0 m0 t m \<Longrightarrow> t \<le> t' \<Longrightarrow> monitor_later t0 m0 t' m"
| connection: "monitor_later t0 m0 t m \<Longrightarrow> monitor_later t0 m0 t (logConnection t p m)"
| failure: "monitor_later t0 m0 t m \<Longrightarrow> t \<le> clk 0 \<Longrightarrow> clk 0 \<le> t' \<Longrightarrow>
     logFailure clk interval threshold p c m = Inr (m', calls) \<Longrightarrow> monitor_later t0 m0 t' m'"
| clear: "monitor_later t0 m0 t m \<Longrightarrow> monitor_later t0 m0 t (clear_monitor m)"
| subscribe: "monitor_later t0 m0 t m \<Longrightarrow> monitor_later t0 m0 t (subscribeOnProtocolFailed k f m)"
| unsubscribe: "monitor_later t0 m0 t m \<Longrightarrow> monitor_later t0 m0 t (unsubscribe k m)"

lemma monitor_later_reach: "monitor_later t0 m0 t m \<Longrightarrow> monitor_reach t0 m0 \<Longrightarrow> monitor_reach t m"
  by (induction rule: monitor_later.induct) (blast intro: monitor_reach.intros)+

text \<open>No operation takes a logged connection out again, not even \<open>clear\<close>.\<close>

lemma logged_stays:
  "monitor_later t0 m0 t m \<Longrightarrow> x \<in> set (at_key (mLoggedConnections m0) p) \<Longrightarrow> x \<in> set (at_key (mLoggedConnections m) p)"
  by (induction rule: monitor_later.induct) (auto simp: monitor_ops at_key_def add_report_def dest!: logFailure_state split: if_splits)

text \<open>
  Property C31. A connection that was started and logged is accounted for when it fails within the window, whatever happened
  to the monitor in between, even when a change of the network cleared it: the report is stored, the
  application gets the error, and the subscribers of the monitor hear of it exactly when the failures of the
  window demand a failover.
\<close>

theorem started_connection_failure_counted:
  assumes "monitor_reach t m" and "proxy_start (\<lambda>_. t) interval threshold p [] m = Inr (m1, subs1, as1)"
    and "monitor_later t m1 now m2" and "0 \<le> interval" and "secs_of (now - t) \<le> interval"
  shows "proxy_call (\<lambda>_. now) interval threshold p (DidFailWithError e) m2 =
     Inr (add_report p \<lparr>rep_code = code e, rep_date = now\<rparr> m2,
       if failover_due threshold (Suc (failures_in_window now interval p m2)) (requests_in_window now interval p m2)
       then map (\<lambda>(_, cb). (cb, p)) (cbOnProtocolFailed m2) else [],
       ErrorCallback e)"
proof -
  have m1: "m1 = logConnection t p m" using assms(2) by (simp add: proxy_start_def)
  then have "monitor_reach t m1" using monitor_reach.connection[OF assms(1)] by simp
  then have inv: "monitor_inv now m2"
    using monitor_reach_inv[OF monitor_later_reach[OF assms(3)]] by blast
  have "t \<in> set (at_key (mLoggedConnections m2) p)"
    by (rule logged_stays[OF assms(3)]) (simp add: m1 logConnection_def)
  then have "requests_in_window now interval p m2 \<noteq> 0"
    using assms(5) by (auto simp: requests_in_window_def window_count_def in_window_def filter_empty_conv)
  then show ?thesis
    using validate_window[OF inv assms(4), of "\<lparr>rep_code = code e, rep_date = now\<rparr>" 1 threshold p]
    by (simp add: proxy_call_def logFailure_def)
qed

theorem started_connection_failure_counted_witness:
  "\<exists>m1. proxy_start (\<lambda>_. 1000000) 120 (fl64 (3 / 5)) quicProtocolName [] (initialize_monitor :: unit monitor) = Inr (m1, [], [])
     \<and> returns (proxy_call (\<lambda>_. 2000000) 120 (fl64 (3 / 5)) quicProtocolName (DidFailWithError fake_error) (clear_monitor m1))"
proof -
  let ?m1 = "logConnection 1000000 quicProtocolName (initialize_monitor :: unit monitor)"
  have start: "proxy_start (\<lambda>_. 1000000) 120 (fl64 (3 / 5)) quicProtocolName [] (initialize_monitor :: unit monitor) = Inr (?m1, [], [])"
    by (simp add: proxy_start_def)
  have "monitor_later 1000000 ?m1 2000000 (clear_monitor ?m1)"
    by (rule monitor_later.wait[OF monitor_later.clear[OF monitor_later.now]]) simp
  from started_connection_failure_counted[OF monitor_reach.init start this, of fake_error] start show ?thesis
    by (simp add: secs_of_def)
qed

end
