(* ===== verification/RequestPath.thy ===== *)
theory RequestPath
  imports SdkModel Connections "HOL-Library.List_Lexorder" "HOL-Library.Char_ord"
begin

text \<open>
  The way of a request through the SDK: which requests \<open>RSURLProtocol\<close> takes over
  (\<open>Interception/RSURLProtocol.mm\<close>), how \<open>RSURLRequestProcessor\<close> turns them to the servers of Rev
  (\<open>Utils/RSURLRequestProcessor.mm\<close>), the conversion to the SDK's \<open>Request\<close> and back
  (\<open>Utils/RSUtils.mm\<close>), the connection of a request (\<open>Interception/RSURLConnection.mm\<close>), and the
  record of a finished request.

  Foundation is a parameter: its test of UTF-8, its parser of URLs, the parser relative to a base, and
  the components of a URL, here the scheme and the text of the URL for each scheme they may be given.
  An \<open>NSURL\<close> is the text and the parts the code asks for, \<open>None\<close> is \<open>nil\<close>. Header fields are kept under the names the code uses. The
  reads of the active configuration after the first one find the same configuration
  (\<open>configuration_service\<close>), they take it as the argument \<open>conf\<close>.
\<close>

record ns_url =
  absoluteString :: string
  url_scheme :: "string option"
  url_host :: "string option"
  url_path :: "string option"

record foundation =
  utf8 :: "string \<Rightarrow> bool"
  URLWithString :: "string \<Rightarrow> ns_url option"
  relativeToURL :: "string \<Rightarrow> ns_url \<Rightarrow> ns_url option"
  URLComponents :: "string \<Rightarrow> (string option \<times> (string option \<Rightarrow> string option)) option"

record ns_request =
  req_URL :: "ns_url option"
  HTTPMethod :: string
  allHTTPHeaderFields :: "string \<rightharpoonup> string"
  HTTPBody :: string
  handled_property :: bool

definition kRSRevHostHeader :: string where "kRSRevHostHeader = ''X-Rev-Host''"
definition kRSRevMethodHeader :: string where "kRSRevMethodHeader = ''X-Rev-Proto''"
definition kRSHostHeader :: string where "kRSHostHeader = ''Host''"

lemmas header_names = kRSRevHostHeader_def kRSRevMethodHeader_def kRSHostHeader_def

subsection \<open>Text\<close>

text \<open>\<open>rangeOfString:\<close> finds nothing for the empty string.\<close>

fun rangeOfString :: "string \<Rightarrow> string \<Rightarrow> nat option" where
  "rangeOfString sub [] = None"
| "rangeOfString sub (c # cs) =
     (if sub \<noteq> [] \<and> starts_with sub (c # cs) then Some 0 else map_option Suc (rangeOfString sub cs))"

definition range_exception :: "fault + 'a" where
  "range_exception = Inl (Thrown ''NSRangeException'')"

text \<open>The first occurrence replaced, and what follows it; without one the range is out of bounds.\<close>

definition replace_first :: "string \<Rightarrow> string \<Rightarrow> string \<Rightarrow> fault + string" where
  "replace_first sub w s =
     (case rangeOfString sub s of None \<Rightarrow> range_exception
      | Some i \<Rightarrow> Inr (take i s @ w @ drop (i + length sub) s))"

definition text_behind :: "string \<Rightarrow> string \<Rightarrow> fault + string" where
  "text_behind sub s =
     (case rangeOfString sub s of None \<Rightarrow> range_exception | Some i \<Rightarrow> Inr (drop (i + length sub) s))"

definition lowercaseString :: "string \<Rightarrow> string" where
  "lowercaseString = map (\<lambda>c. if 65 \<le> (of_char c :: nat) \<and> (of_char c :: nat) \<le> 90
     then char_of ((of_char c :: nat) + 32) else c)"

definition std_of_ns :: "string option \<Rightarrow> string" where
  "std_of_ns t = (case t of None \<Rightarrow> [] | Some s \<Rightarrow> c_str s)"

text \<open>\<open>host.length == 0\<close>, also for \<open>nil\<close>.\<close>

definition no_host :: "ns_url \<Rightarrow> bool" where
  "no_host u \<longleftrightarrow> url_host u = None \<or> url_host u = Some []"

subsection \<open>Which requests are taken over\<close>

definition currentOperationMode :: "'s get_active \<Rightarrow> environment \<Rightarrow> 's \<Rightarrow> nat \<times> 's \<times> service_effect list" where
  "currentOperationMode get e s = (let (conf, s1, fx) = get e s in (operationMode conf, s1, fx))"

definition web_scheme :: "ns_url \<Rightarrow> bool" where
  "web_scheme u \<longleftrightarrow> (case url_scheme u of None \<Rightarrow> False | Some t \<Rightarrow> lowercaseString t \<in> {''http'', ''https''})"

definition isFileRequest :: "ns_request \<Rightarrow> bool" where
  "isFileRequest r \<longleftrightarrow>
     (case req_URL r of None \<Rightarrow> False
      | Some u \<Rightarrow> (case url_scheme u of None \<Rightarrow> False | Some t \<Rightarrow> lowercaseString t = ''file''))"

definition canInitWithRequest ::
  "bool \<Rightarrow> 's get_active \<Rightarrow> environment \<Rightarrow> ns_request \<Rightarrow> 's \<Rightarrow> bool \<times> 's \<times> service_effect list" where
  "canInitWithRequest mocked get e aRequest s =
     (case req_URL aRequest of
        None \<Rightarrow> (False, s, [])
      | Some u \<Rightarrow>
        if no_host u then (False, s, [])
        else if \<not> web_scheme u then (False, s, [])
        else if isFileRequest aRequest then (False, s, [])
        else
        let (mode, s1, fx1) = currentOperationMode get e s in
        if mode = kRSOperationModeInnerOff then (False, s1, fx1)
        else
        let (pass, s2, fx2) = shouldPassHost mocked get e (std_of_ns (url_host u)) s1 in
        if \<not> pass then (False, s2, fx1 @ fx2)
        else (\<not> handled_property aRequest, s2, fx1 @ fx2))"

datatype loading = ViaSDK ns_request | Direct ns_request

definition shouldRedirectRequest ::
  "foundation \<Rightarrow> 's get_active \<Rightarrow> environment \<Rightarrow> ns_request \<Rightarrow> 's
    \<Rightarrow> fault + (bool \<times> 's \<times> service_effect list)" where
  "shouldRedirectRequest fo get e aRequest s =
     shouldTransportDomainName (utf8 fo) (\<lambda>t. Option.bind (URLWithString fo t) url_host) get e
       (std_of_ns (Option.bind (req_URL aRequest) url_host)) s"

definition startLoading ::
  "foundation \<Rightarrow> 's get_active \<Rightarrow> environment \<Rightarrow> ns_request \<Rightarrow> 's
    \<Rightarrow> fault + (loading \<times> 's \<times> service_effect list)" where
  "startLoading fo get e request s =
     (let (mode, s1, fx1) = currentOperationMode get e s in
      and_then (shouldRedirectRequest fo get e request s1) (\<lambda>(should, s2, fx2).
        Inr (if should then ViaSDK request else Direct (request\<lparr>handled_property := True\<rparr>), s2, fx1 @ fx2)))"

text \<open>A redirection is handed to the client as a request that may be taken over again.\<close>

definition wasRedirectedToRequest :: "ns_request \<Rightarrow> ns_request" where
  "wasRedirectedToRequest request = request\<lparr>handled_property := False\<rparr>"

subsection \<open>The request for the servers of Rev\<close>

definition isValidScheme :: "string option \<Rightarrow> bool" where
  "isValidScheme aScheme \<longleftrightarrow> aScheme = Some ''http'' \<or> aScheme = Some ''https''"

definition shown :: "string option \<Rightarrow> string" where
  "shown t = (case t of None \<Rightarrow> ''(null)'' | Some s \<Rightarrow> s)"

definition proccess_headers ::
  "foundation \<Rightarrow> configuration \<Rightarrow> string \<Rightarrow> bool \<Rightarrow> string \<Rightarrow> string \<Rightarrow> (string \<rightharpoonup> string) \<Rightarrow> string \<rightharpoonup> string" where
  "proccess_headers fo conf aSDKKey isProvisioned host scheme hs =
     (if isProvisioned then hs(kRSHostHeader \<mapsto> host)
      else hs(kRSRevHostHeader \<mapsto> host, kRSRevMethodHeader \<mapsto> scheme,
              kRSHostHeader \<mapsto> shown (NSStringFromStdString (utf8 fo) aSDKKey) @ ''.''
                              @ shown (NSStringFromStdString (utf8 fo) (SDKDomain conf))))"

text \<open>The change of the URL: the edge instead of the host, and \<open>https\<close>. \<open>None\<close> is the answer \<open>nil\<close>.\<close>

definition proccess_url ::
  "foundation \<Rightarrow> configuration \<Rightarrow> bool \<Rightarrow> bool \<Rightarrow> string \<Rightarrow> string \<Rightarrow> fault + string option" where
  "proccess_url fo conf isProvisioned aIsEdge host urlStr =
     and_then (if aIsEdge
               then case NSStringFromStdString (utf8 fo) (edgeHost conf) of None \<Rightarrow> ns_exception
                    | Some edge \<Rightarrow> replace_first host edge urlStr
               else Inr urlStr) (\<lambda>str1.
       if rangeOfString ''https'' str1 = Some 0 then Inr (Some str1)
       else if rangeOfString ''http'' str1 \<noteq> Some 0 then Inr None
       else if isProvisioned then Inr (Some str1)
       else and_then (replace_first ''http'' ''https'' str1) (\<lambda>str2. Inr (Some str2)))"

definition proccessRequest ::
  "foundation \<Rightarrow> configuration \<Rightarrow> string \<Rightarrow> ns_request \<Rightarrow> bool \<Rightarrow> fault + ns_request option" where
  "proccessRequest fo conf aSDKKey aRequest aIsEdge =
     and_then (case req_URL aRequest of
                 None \<Rightarrow> ns_exception
               | Some u \<Rightarrow> Inr (if no_host u then URLWithString fo (absoluteString u) else Some u)) (\<lambda>url.
       case url of
         None \<Rightarrow> Inr None
       | Some u \<Rightarrow>
         if no_host u then Inr None
         else if \<not> isValidScheme (url_scheme u) then Inr None
         else
           let host = the (url_host u); scheme = the (url_scheme u);
               isProvisioned = (std_of_ns (url_host u) \<in> set (domainsProvisionedList conf));
               hs = proccess_headers fo conf aSDKKey isProvisioned host scheme (allHTTPHeaderFields aRequest)
           in and_then (proccess_url fo conf isProvisioned aIsEdge host (absoluteString u)) (\<lambda>urlStr.
                Inr (map_option (\<lambda>str. aRequest\<lparr>allHTTPHeaderFields := hs, req_URL := URLWithString fo str\<rparr>) urlStr)))"

subsection \<open>Requests of the SDK and of Foundation\<close>

text \<open>The names of header fields have no zero character.\<close>

definition stdMapFromNSDictionary :: "(string \<rightharpoonup> string) \<Rightarrow> string \<rightharpoonup> string" where
  "stdMapFromNSDictionary m = (\<lambda>k. map_option c_str (m k))"

definition NSDictionaryFromStdMap :: "(string \<Rightarrow> bool) \<Rightarrow> (string \<rightharpoonup> string) \<Rightarrow> fault + (string \<rightharpoonup> string)" where
  "NSDictionaryFromStdMap ok m =
     (if \<forall>k \<in> dom m. ok k \<and> ok (c_str (the (m k))) then Inr (\<lambda>k. map_option c_str (m k)) else ns_exception)"

definition requestFromURLRequest :: "ns_request option \<Rightarrow> fault + request" where
  "requestFromURLRequest aURLRequest =
     (case aURLRequest of
        None \<Rightarrow> Inr (Request_new [] Map.empty [] [])
      | Some q \<Rightarrow>
        let u = req_URL q;
            r = (Request_new (std_of_ns (map_option absoluteString u))
                   (stdMapFromNSDictionary (allHTTPHeaderFields q)) (c_str (HTTPMethod q))
                   (Data_new (Some (HTTPBody q)) (length (HTTPBody q))))
                \<lparr>mHost := std_of_ns (Option.bind u url_host), mPath := std_of_ns (Option.bind u url_path)\<rparr>
        in case Option.bind u url_host of
             None \<Rightarrow> Inr r
           | Some host \<Rightarrow>
             and_then (text_behind host (absoluteString (the u))) (\<lambda>t.
               Inr (r\<lparr>mRest := (if c_str t = [] then ''/'' else c_str t)\<rparr>)))"

text \<open>Host, path and scheme of a URL; one without a host or scheme is taken relative to the base.\<close>

definition decomposeURL :: "foundation \<Rightarrow> string \<Rightarrow> string \<Rightarrow> fault + (string \<times> string \<times> string) option" where
  "decomposeURL fo aBaseURL aURL =
     (let whole = (\<lambda>u. url_host u \<noteq> None \<and> url_scheme u \<noteq> None);
          url = (case NSStringFromStdString (utf8 fo) aURL of None \<Rightarrow> None
                 | Some str \<Rightarrow> if str = [] then None else
                   case URLWithString fo str of None \<Rightarrow> None
                   | Some u \<Rightarrow> if whole u then Some (u, str)
                     else case NSStringFromStdString (utf8 fo) aBaseURL of None \<Rightarrow> None
                     | Some base \<Rightarrow> (case URLWithString fo base of None \<Rightarrow> None
                       | Some b \<Rightarrow> (case relativeToURL fo str b of None \<Rightarrow> None
                         | Some v \<Rightarrow> if whole v then Some (v, absoluteString v) else None)))
      in case url of None \<Rightarrow> Inr None
         | Some (u, str) \<Rightarrow>
           and_then (text_behind (the (url_host u)) str) (\<lambda>path.
             Inr (Some (std_of_ns (url_host u),
                        c_str (if path \<noteq> [] \<and> hd path \<noteq> CHR ''/'' then CHR ''/'' # path else path),
                        std_of_ns (url_scheme u)))))"

definition correctURLIfNeeded :: "foundation \<Rightarrow> string \<Rightarrow> string \<Rightarrow> fault + string" where
  "correctURLIfNeeded fo aURL aScheme =
     (case NSStringFromStdString (utf8 fo) aURL of None \<Rightarrow> ns_exception
      | Some str \<Rightarrow> Inr (std_of_ns (case URLComponents fo str of None \<Rightarrow> None
          | Some (scheme, render) \<Rightarrow>
              render (if scheme = None then NSStringFromStdString (utf8 fo) aScheme else scheme))))"

subsection \<open>The connection of a request\<close>

text \<open>The request the connection gets, and whether the connection is the standard one.\<close>

definition RSURLConnection_new ::
  "foundation \<Rightarrow> configuration \<Rightarrow> string \<Rightarrow> string \<Rightarrow> ns_request \<Rightarrow> fault + request" where
  "RSURLConnection_new fo conf aSDKKey currentProtocolName aRequest =
     and_then (proccessRequest fo conf aSDKKey aRequest (currentProtocolName = standardProtocolName)) (\<lambda>newRequest.
     and_then (requestFromURLRequest newRequest) (\<lambda>r.
       Inr (r\<lparr>mOriginalURL := std_of_ns (map_option absoluteString (req_URL aRequest)),
              mOriginalScheme := std_of_ns (Option.bind (req_URL aRequest) url_scheme)\<rparr>)))"

text \<open>\<open>NativeNetwork::testRequestByURL\<close>: the request of an availability test.\<close>

definition testRequestByURL ::
  "foundation \<Rightarrow> configuration \<Rightarrow> string \<Rightarrow> string \<Rightarrow> bool \<Rightarrow> string \<Rightarrow> fault + request" where
  "testRequestByURL fo conf aSDKKey protoName aProcess aURL =
     (case NSStringFromStdString (utf8 fo) aURL of None \<Rightarrow> ns_exception
      | Some str \<Rightarrow>
        let req = \<lparr>req_URL = URLWithString fo str, HTTPMethod = ''GET'', allHTTPHeaderFields = Map.empty, HTTPBody = [],
                   handled_property = True\<rparr>
        in and_then (if aProcess then proccessRequest fo conf aSDKKey req (protoName = standardProtocolName)
                     else Inr (Some req)) (\<lambda>q.
           and_then (requestFromURLRequest q) (\<lambda>r.
             Inr (r\<lparr>mOriginalScheme := std_of_ns (Option.bind (Option.bind q req_URL) url_scheme)\<rparr>))))"

text \<open>
  \<open>Network::performReques\<close>: the connection and the request of an availability test. The constructor's guard
  is tested the wrong way round: the first \<open>Network\<close> leaves \<open>mNativeNetwork\<close> null, every later one makes a
  new one.
\<close>

record network_class =
  guard_set :: bool
  mNativeNetwork :: bool

definition Network_new :: "network_class \<Rightarrow> network_class" where
  "Network_new n = n\<lparr>guard_set := True, mNativeNetwork := (if guard_set n then True else mNativeNetwork n)\<rparr>"

definition performReques ::
  "foundation \<Rightarrow> configuration \<Rightarrow> string \<Rightarrow> string \<Rightarrow> string \<Rightarrow> fault + (connection_kind \<times> request)" where
  "performReques fo conf aSDKKey protoName aURL =
     and_then (connectionForProtocolName protoName False) (\<lambda>(kind, fake).
     and_then (testRequestByURL fo conf aSDKKey protoName True aURL) (\<lambda>r. Inr (kind, r)))"

subsection \<open>The record of a finished request\<close>

record ns_response =
  statusCode :: int
  allHeaderFields :: "string \<rightharpoonup> string"

text \<open>An \<open>NSURLRequest\<close> made from a request; without a method it is a \<open>GET\<close>.\<close>

definition URLRequestFromRequest :: "foundation \<Rightarrow> request \<Rightarrow> fault + ns_request" where
  "URLRequestFromRequest fo r =
     (case NSStringFromStdString (utf8 fo) (mURL r) of None \<Rightarrow> ns_exception
      | Some str \<Rightarrow>
        and_then (NSDictionaryFromStdMap (utf8 fo) (mHeaders r)) (\<lambda>hs.
        and_then (toString (mBody r)) (\<lambda>body.
          Inr \<lparr>req_URL = URLWithString fo str,
               HTTPMethod = (case NSStringFromStdString (utf8 fo) (mMethod r) of None \<Rightarrow> ''GET'' | Some m \<Rightarrow> m),
               allHTTPHeaderFields = hs, HTTPBody = body, handled_property = False\<rparr>)))"

definition NSHTTPURLResponseFromResponse :: "foundation \<Rightarrow> response option \<Rightarrow> fault + ns_response option" where
  "NSHTTPURLResponseFromResponse fo aResponse =
     (case aResponse of None \<Rightarrow> Inr None
      | Some r \<Rightarrow> and_then (NSDictionaryFromStdMap (utf8 fo) (mHeaderFields r)) (\<lambda>hs.
          Inr (Some \<lparr>statusCode = int (mStatusCode r), allHeaderFields = hs\<rparr>)))"

text \<open>
  What the standard connection makes of the calls of its session (the rest of it is in \<open>Connections\<close>). The
  response it passes on carries the original URL; a redirected request takes the place of the current one.
\<close>

definition responseFromHTTPURLResponse :: "ns_url option \<Rightarrow> ns_response \<Rightarrow> response" where
  "responseFromHTTPURLResponse url r =
     Response_new (std_of_ns (map_option absoluteString url)) (stdMapFromNSDictionary (allHeaderFields r)) (nat (statusCode r mod 2 ^ 64))"

definition processed_response :: "foundation \<Rightarrow> request \<Rightarrow> ns_response \<Rightarrow> fault + response" where
  "processed_response fo current r =
     (case NSStringFromStdString (utf8 fo) (mOriginalURL current) of None \<Rightarrow> ns_exception
      | Some str \<Rightarrow> Inr (responseFromHTTPURLResponse (URLWithString fo str) r))"

definition didReceiveData_standard :: "string \<Rightarrow> standard_connection \<Rightarrow> standard_connection \<times> delegate_call list" where
  "didReceiveData_standard d c =
     (addReceivedBytesCount (int (length d)) c, [DidReceiveData (Data_new (Some d) (length d))])"

definition didReceiveResponse_standard ::
  "foundation \<Rightarrow> int \<Rightarrow> ns_response \<Rightarrow> standard_connection \<Rightarrow> fault + (standard_connection \<times> delegate_call list)" where
  "didReceiveResponse_standard fo ms r c =
     (case mCurrentRequest c of None \<Rightarrow> Inl UndefinedBehaviour
      | Some current \<Rightarrow> and_then (processed_response fo current r) (\<lambda>p.
          Inr ((onResponseReceived ms c)\<lparr>mResponse := Some p\<rparr>, [DidReceiveResponse p])))"

definition wasRedirected_standard ::
  "foundation \<Rightarrow> ns_request \<Rightarrow> ns_response \<Rightarrow> standard_connection \<Rightarrow> fault + (standard_connection \<times> delegate_call list)" where
  "wasRedirected_standard fo q r c =
     (case mCurrentRequest c of None \<Rightarrow> Inl UndefinedBehaviour
      | Some current \<Rightarrow> and_then (processed_response fo current r) (\<lambda>p.
          and_then (requestFromURLRequest (Some q)) (\<lambda>new.
            Inr (c\<lparr>mCurrentRequest := Some new\<rparr>, [WasRedirected new p]))))"

definition revURLByReplacingHostWithHost :: "foundation \<Rightarrow> string option \<Rightarrow> ns_url \<Rightarrow> ns_url" where
  "revURLByReplacingHostWithHost fo aNewHost u =
     (case aNewHost of None \<Rightarrow> u
      | Some new \<Rightarrow> if new = [] then u else
        (case url_host u of None \<Rightarrow> u
         | Some h \<Rightarrow> (case replace_first h new (absoluteString u) of Inl e \<Rightarrow> u
             | Inr str \<Rightarrow> (case URLWithString fo str of None \<Rightarrow> u | Some v \<Rightarrow> v))))"

text \<open>
  The record is a dictionary, later written by \<open>NSJSONSerialization\<close>. The connection's numbers and
  \<open>scheme\<close>, \<open>transport\<close> are the dictionary \<open>dataFromRequestAndResponse\<close> makes.
\<close>

definition record_defaults :: "(string \<times> json) list" where
  "record_defaults =
     [(''cont_encoding'', JString ''-''), (''cont_type'', JString ''-''), (''end_ts'', JInt 0), (''first_byte_ts'', JInt 0),
      (''keepalive_status'', JInt 0), (''local_cache_status'', JString ''-''), (''method'', JString ''-''),
      (''network'', JString ''-''), (''protocol'', JString ''-''), (''received_bytes'', JInt 0), (''sent_bytes'', JInt 0),
      (''start_ts'', JInt 0), (''transport_protocol'', JString ''-''), (''destination'', JString ''_''),
      (''edge_transport'', JString ''_'')]"

definition or_dash :: "string option \<Rightarrow> json" where
  "or_dash v = JString (case v of None \<Rightarrow> ''-'' | Some s \<Rightarrow> s)"

definition response_fields :: "bool \<Rightarrow> string \<Rightarrow> string \<Rightarrow> 'a connection_scheme \<Rightarrow> ns_response \<Rightarrow> (string \<times> json) list" where
  "response_fields aIsRedirecting scheme transport c r =
     [(''cont_encoding'', or_dash (allHeaderFields r ''Content-Encoding'')),
      (''cont_type'', or_dash (allHeaderFields r ''Content-Type'')),
      (''local_cache_status'', or_dash (allHeaderFields r ''Cache-Control'')),
      (''transport_protocol'', JString scheme), (''start_ts'', JInt (mStartTimestamp c)),
      (''received_bytes'', JInt (mBytesReceived c)), (''sent_bytes'', JInt (mBytesSent c)),
      (''end_ts'', JInt (mEndTimestamp c)), (''first_byte_ts'', JInt (mFirstByteReceivedTimestamp c)),
      (''keepalive_status'', JInt 1), (''destination'', JString (if aIsRedirecting then ''rev_edge'' else ''origin'')),
      (''edge_transport'', JString transport), (''x-rev-cache'', or_dash (allHeaderFields r ''x-rev-cache''))]"

definition dataFromRequestsDictionary ::
  "foundation \<Rightarrow> ns_request \<Rightarrow> ns_response option \<Rightarrow> string \<Rightarrow> string \<Rightarrow> 'a connection_scheme \<Rightarrow> bool \<Rightarrow> fault + (string \<rightharpoonup> json)" where
  "dataFromRequestsDictionary fo aRequest aResponse scheme transport c aIsRedirecting =
     (case req_URL aRequest of None \<Rightarrow> ns_exception
      | Some u \<Rightarrow>
        let originalURL = (if aIsRedirecting
              then revURLByReplacingHostWithHost fo (allHTTPHeaderFields aRequest kRSRevHostHeader) u else u);
            status = (case aResponse of None \<Rightarrow> 0 | Some r \<Rightarrow> statusCode r)
        in Inr (map_of
             (rev ([(''url'', JString (absoluteString originalURL)), (''status_code'', JInt status),
                    (''success_status'', JInt (if 200 \<le> status \<and> status < 300 then 1 else 0))]
                   @ record_defaults
                   @ [(''conn_id'', JInt (sint (mConnectionID c))), (''method'', JString (HTTPMethod aRequest))]
                   @ (case aResponse of None \<Rightarrow> [] | Some r \<Rightarrow> response_fields aIsRedirecting scheme transport c r)))))"

definition dataFromRequestAndResponse ::
  "foundation \<Rightarrow> ns_request \<Rightarrow> ns_response option \<Rightarrow> 'a connection_scheme \<Rightarrow> string \<Rightarrow> string option \<Rightarrow> bool
    \<Rightarrow> fault + (string \<rightharpoonup> json)" where
  "dataFromRequestAndResponse fo aRequest aResponse c transport aOriginalScheme aIsRedirecting =
     (case aOriginalScheme of None \<Rightarrow> ns_exception
      | Some scheme \<Rightarrow> dataFromRequestsDictionary fo aRequest aResponse scheme transport c aIsRedirecting)"

text \<open>What a connection reports of its request at the end.\<close>

definition record_of_request ::
  "foundation \<Rightarrow> request \<Rightarrow> response option \<Rightarrow> 'a connection_scheme \<Rightarrow> string \<Rightarrow> fault + (string \<rightharpoonup> json)" where
  "record_of_request fo r resp c transport =
     and_then (URLRequestFromRequest fo r) (\<lambda>q.
     and_then (NSHTTPURLResponseFromResponse fo resp) (\<lambda>p.
       dataFromRequestAndResponse fo q p c transport (NSStringFromStdString (utf8 fo) (mOriginalScheme r)) True))"

subsection \<open>Hosts in URLs\<close>

definition host_char :: "char \<Rightarrow> bool" where
  "host_char c \<longleftrightarrow> c \<in> {CHR ''.'', CHR ''-''}
     \<or> 48 \<le> (of_char c :: nat) \<and> (of_char c :: nat) \<le> 57
     \<or> 65 \<le> (of_char c :: nat) \<and> (of_char c :: nat) \<le> 90
     \<or> 97 \<le> (of_char c :: nat) \<and> (of_char c :: nat) \<le> 122"

definition host_name :: "string \<Rightarrow> bool" where
  "host_name h \<longleftrightarrow> CHR ''.'' \<in> set h \<and> list_all host_char h"

text \<open>
  Foundation's parser on URLs with this rest behind the host: the parts are as written. This is the
  documented behaviour for a rest that is empty or starts with a slash, a colon and a port, a
  question mark or a number sign.
\<close>

definition web_url :: "string \<Rightarrow> string \<Rightarrow> string \<Rightarrow> string" where
  "web_url scheme host rest = scheme @ ''://'' @ host @ rest"

definition parses_web :: "foundation \<Rightarrow> string \<Rightarrow> bool" where
  "parses_web fo rest \<longleftrightarrow> (\<forall>scheme \<in> {''http'', ''https''}. \<forall>h. host_name h \<longrightarrow>
     (\<exists>p. URLWithString fo (web_url scheme h rest) =
        Some \<lparr>absoluteString = web_url scheme h rest, url_scheme = Some scheme, url_host = Some h, url_path = p\<rparr>))"

lemma rangeOfString_first:
  "sub \<noteq> [] \<Longrightarrow> \<forall>i < length p. \<not> starts_with sub (drop i (p @ sub @ t)) \<Longrightarrow> rangeOfString sub (p @ sub @ t) = Some (length p)"
proof (induction p)
  case Nil
  then obtain c cs where "sub @ t = c # cs" "starts_with sub (c # cs)"
    by (metis append_is_Nil_conv list.exhaust starts_with_append)
  with Nil.prems(1) show ?case by simp
next
  case (Cons x p)
  have "\<not> starts_with sub (x # (p @ sub @ t))" using Cons.prems(2)[rule_format, of 0] by simp
  moreover have "\<forall>i < length p. \<not> starts_with sub (drop i (p @ sub @ t))"
    using Cons.prems(2) by (metis Suc_less_eq append_Cons drop_Suc_Cons length_Cons)
  ultimately show ?case using Cons.IH[OF Cons.prems(1)] by simp
qed

lemma rangeOfString_start: "rangeOfString sub (c # cs) = Some 0 \<longleftrightarrow> sub \<noteq> [] \<and> starts_with sub (c # cs)"
  by auto

text \<open>A host cannot begin before its place, because it would contain the slash in front of it.\<close>

lemma host_first:
  assumes h: "host_name h" and p: "p \<in> {''http://'', ''https://''}"
  shows "rangeOfString h (p @ h @ t) = Some (length p)"
proof (rule rangeOfString_first)
  show "h \<noteq> []" using h by (auto simp: host_name_def)
  have l: "last p = CHR ''/''" "CHR ''.'' \<notin> set p" "p \<noteq> []" using p by auto
  have "\<not> host_char (CHR ''/'')" by (simp add: host_char_def)
  then have noslash: "CHR ''/'' \<notin> set h" using h by (auto simp: host_name_def list_all_iff)
  show "\<forall>i < length p. \<not> starts_with h (drop i (p @ h @ t))"
  proof (intro allI impI notI)
    fix i assume i: "i < length p" and "starts_with h (drop i (p @ h @ t))"
    then obtain r where r: "drop i p @ h @ t = h @ r" by (auto simp: starts_with_iff)
    have "drop i p = take (length (drop i p)) (h @ r)" unfolding r[symmetric] by simp
    show False
    proof (cases "length h < length (drop i p)")
      case True
      then have "h = take (length h) (drop i p)"
        using arg_cong[OF r, of "take (length h)"] by simp
      then have "set h \<subseteq> set p" by (metis in_set_takeD in_set_dropD subsetI)
      with h l(2) show False by (auto simp: host_name_def)
    next
      case False
      then have "drop i p = take (length (drop i p)) h"
        using arg_cong[OF r, of "take (length (drop i p))"] by simp
      then have "set (drop i p) \<subseteq> set h" by (metis in_set_takeD subsetI)
      moreover have "CHR ''/'' \<in> set (drop i p)" using l(1) i by (metis last_drop last_in_set drop_eq_Nil not_le)
      ultimately show False using noslash by blast
    qed
  qed
qed

lemma web_host:
  assumes "host_name h" and "scheme \<in> {''http'', ''https''}"
  shows "replace_first h w (web_url scheme h t) = Inr (web_url scheme w t)"
    and "text_behind h (web_url scheme h t) = Inr t"
proof -
  define q where "q = scheme @ ''://''"
  have q: "web_url scheme x t = q @ x @ t" for x by (simp add: q_def web_url_def)
  have "q \<in> {''http://'', ''https://''}" using assms(2) by (auto simp: q_def)
  note r = host_first[OF assms(1) this, of t]
  show "replace_first h w (web_url scheme h t) = Inr (web_url scheme w t)"
    and "text_behind h (web_url scheme h t) = Inr t"
    unfolding replace_first_def text_behind_def q r by simp_all
qed

lemma https_first:
  assumes "scheme \<in> {''http'', ''https''}"
  shows "rangeOfString ''https'' (web_url scheme h t) = Some 0 \<longleftrightarrow> scheme = ''https''"
    and "rangeOfString ''http'' (web_url scheme h t) = Some 0"
    and "replace_first ''http'' ''https'' (web_url ''http'' h t) = Inr (web_url ''https'' h t)"
proof -
  show "rangeOfString ''https'' (web_url scheme h t) = Some 0 \<longleftrightarrow> scheme = ''https''"
    using assms by (elim insertE emptyE) (simp_all add: web_url_def del: rangeOfString.simps add: rangeOfString_start)
  show "rangeOfString ''http'' (web_url scheme h t) = Some 0"
    using assms by (elim insertE emptyE) (simp_all add: web_url_def)
  show "replace_first ''http'' ''https'' (web_url ''http'' h t) = Inr (web_url ''https'' h t)"
    by (simp add: replace_first_def web_url_def)
qed

subsection \<open>The request of a connection\<close>

text \<open>The scheme and the host a request is sent to.\<close>

definition sent_scheme :: "configuration \<Rightarrow> string \<Rightarrow> string \<Rightarrow> string" where
  "sent_scheme conf scheme host = (if host \<in> set (domainsProvisionedList conf) then scheme else ''https'')"

definition sent_host :: "configuration \<Rightarrow> string \<Rightarrow> string \<Rightarrow> string" where
  "sent_host conf proto host = (if proto = standardProtocolName then edgeHost conf else host)"

text \<open>A request of the application for a page of the web, and texts that Foundation takes as they are.\<close>

definition web_request :: "foundation \<Rightarrow> string \<Rightarrow> string \<Rightarrow> string \<Rightarrow> ns_request \<Rightarrow> bool" where
  "web_request fo scheme host rest q \<longleftrightarrow> scheme \<in> {''http'', ''https''} \<and> host_name host
     \<and> parses_web fo rest \<and> CHR 0x00 \<notin> set rest
     \<and> req_URL q = URLWithString fo (web_url scheme host rest)"

lemma host_name_plain: "host_name h \<Longrightarrow> CHR 0x00 \<notin> set h \<and> h \<noteq> []"
proof -
  assume h: "host_name h"
  have "\<not> host_char (CHR 0x00)" by (simp add: host_char_def)
  with h show ?thesis by (auto simp: host_name_def list_all_iff)
qed

lemma proccess_url_web:
  assumes "scheme \<in> {''http'', ''https''}" and "host_name host" and "plain (utf8 fo) (edgeHost conf)"
  shows "proccess_url fo conf (host \<in> set (domainsProvisionedList conf)) (proto = standardProtocolName) host (web_url scheme host rest)
    = Inr (Some (web_url (sent_scheme conf scheme host) (sent_host conf proto host) rest))"
proof -
  have edge: "(if proto = standardProtocolName
       then case NSStringFromStdString (utf8 fo) (edgeHost conf) of None \<Rightarrow> ns_exception
            | Some edge \<Rightarrow> replace_first host edge (web_url scheme host rest)
       else Inr (web_url scheme host rest)) = Inr (web_url scheme (sent_host conf proto host) rest)"
    using assms by (simp add: web_host(1) sent_host_def)
  show ?thesis
    unfolding proccess_url_def edge using https_first[OF assms(1)] assms(1)
    by (auto simp: sent_scheme_def simp del: rangeOfString.simps)
qed

lemma proccessRequest_web:
  assumes w: "web_request fo scheme host rest q" and e: "plain (utf8 fo) (edgeHost conf)"
  shows "proccessRequest fo conf key q (proto = standardProtocolName) =
    Inr (Some (q\<lparr>allHTTPHeaderFields := proccess_headers fo conf key (host \<in> set (domainsProvisionedList conf)) host scheme
                   (allHTTPHeaderFields q),
                 req_URL := URLWithString fo (web_url (sent_scheme conf scheme host) (sent_host conf proto host) rest)\<rparr>))"
proof -
  from w obtain p where u: "req_URL q = Some \<lparr>absoluteString = web_url scheme host rest, url_scheme = Some scheme,
      url_host = Some host, url_path = p\<rparr>"
    by (auto simp: web_request_def parses_web_def)
  have h: "host_name host" "scheme \<in> {''http'', ''https''}" using w by (auto simp: web_request_def)
  note hp = host_name_plain[OF h(1)]
  have v: "isValidScheme (Some scheme)" using h(2) by (auto simp: isValidScheme_def)
  show ?thesis
    using proccess_url_web[OF h(2,1) e, of proto rest] hp v
    by (simp add: proccessRequest_def u no_host_def std_of_ns_def c_str_no_nul Let_def)
qed

lemma sent_names:
  assumes "scheme \<in> {''http'', ''https''}" and "host_name host" and "host_name (edgeHost conf)"
  shows "sent_scheme conf scheme host \<in> {''http'', ''https''}" and "host_name (sent_host conf proto host)"
  using assms by (auto simp: sent_scheme_def sent_host_def)

lemma web_url_no_nul:
  "scheme \<in> {''http'', ''https''} \<Longrightarrow> host_name h \<Longrightarrow> CHR 0x00 \<notin> set rest \<Longrightarrow> c_str (web_url scheme h rest) = web_url scheme h rest"
  using host_name_plain[of h] by (intro c_str_no_nul) (auto simp: web_url_def)

lemma requestFromURLRequest_web:
  assumes "scheme \<in> {''http'', ''https''}" and "host_name h" and "parses_web fo rest" and "CHR 0x00 \<notin> set rest"
  shows "\<exists>p. requestFromURLRequest (Some (q\<lparr>req_URL := URLWithString fo (web_url scheme h rest)\<rparr>)) =
    Inr \<lparr>mMethod = c_str (HTTPMethod q), mOriginalURL = web_url scheme h rest, mURL = web_url scheme h rest,
         mHeaders = stdMapFromNSDictionary (allHTTPHeaderFields q), mBody = map Some (HTTPBody q), mHost = h,
         mPath = p, mRest = (if rest = [] then ''/'' else rest), mOriginalScheme = []\<rparr>"
proof -
  obtain p where u: "URLWithString fo (web_url scheme h rest) = Some \<lparr>absoluteString = web_url scheme h rest,
      url_scheme = Some scheme, url_host = Some h, url_path = p\<rparr>"
    using assms(1-3) by (auto simp: parses_web_def)
  have n: "c_str h = h" "c_str rest = rest" using assms(4) host_name_plain[OF assms(2)] by (simp_all add: c_str_no_nul)
  show ?thesis
    by (simp add: requestFromURLRequest_def u std_of_ns_def web_host(2)[OF assms(2,1)] n web_url_no_nul[OF assms(1,2,4)]
        Request_new_def Data_new_bytes Let_def)
qed

lemma RSURLConnection_web:
  assumes "web_request fo scheme host rest q" and "plain (utf8 fo) (edgeHost conf)" and "host_name (edgeHost conf)"
    and "plain (utf8 fo) key" and "plain (utf8 fo) (SDKDomain conf)"
  shows "\<exists>r. RSURLConnection_new fo conf key proto q = Inr r
     \<and> mURL r = web_url (sent_scheme conf scheme host) (sent_host conf proto host) rest
     \<and> mHost r = sent_host conf proto host \<and> mRest r = (if rest = [] then ''/'' else rest)
     \<and> mOriginalURL r = web_url scheme host rest \<and> mOriginalScheme r = scheme
     \<and> mMethod r = c_str (HTTPMethod q) \<and> mBody r = map Some (HTTPBody q)
     \<and> mHeaders r = (let kept = stdMapFromNSDictionary (allHTTPHeaderFields q) in
         if host \<in> set (domainsProvisionedList conf) then kept(''Host'' \<mapsto> host)
         else kept(''X-Rev-Host'' \<mapsto> host, ''X-Rev-Proto'' \<mapsto> scheme, ''Host'' \<mapsto> key @ ''.'' @ SDKDomain conf))"
proof -
  have w: "scheme \<in> {''http'', ''https''}" "host_name host" "parses_web fo rest" "CHR 0x00 \<notin> set rest"
    using assms(1) by (auto simp: web_request_def)
  note sent = sent_names(1)[OF w(1,2) assms(3)] sent_names(2)[OF w(1,2) assms(3), of proto]
  let ?hs = "proccess_headers fo conf key (host \<in> set (domainsProvisionedList conf)) host scheme (allHTTPHeaderFields q)"
  from requestFromURLRequest_web[OF sent w(3,4), of "q\<lparr>allHTTPHeaderFields := ?hs\<rparr>"] obtain p where
    r: "requestFromURLRequest (Some (q\<lparr>allHTTPHeaderFields := ?hs,
          req_URL := URLWithString fo (web_url (sent_scheme conf scheme host) (sent_host conf proto host) rest)\<rparr>)) =
      Inr \<lparr>mMethod = c_str (HTTPMethod q), mOriginalURL = web_url (sent_scheme conf scheme host) (sent_host conf proto host) rest,
        mURL = web_url (sent_scheme conf scheme host) (sent_host conf proto host) rest,
        mHeaders = stdMapFromNSDictionary ?hs, mBody = map Some (HTTPBody q), mHost = sent_host conf proto host,
        mPath = p, mRest = (if rest = [] then ''/'' else rest), mOriginalScheme = []\<rparr>"
    by auto
  obtain p' where u: "req_URL q = Some \<lparr>absoluteString = web_url scheme host rest, url_scheme = Some scheme,
      url_host = Some host, url_path = p'\<rparr>"
    using assms(1) by (auto simp: web_request_def parses_web_def)
  have sch: "c_str scheme = scheme" using w(1) by (auto simp: c_str_def)
  have dot: "c_str (key @ ''.'' @ SDKDomain conf) = key @ ''.'' @ SDKDomain conf"
    using assms(4,5) by (intro c_str_no_nul) (auto simp: plain_def)
  have hs: "stdMapFromNSDictionary ?hs = (let kept = stdMapFromNSDictionary (allHTTPHeaderFields q) in
         if host \<in> set (domainsProvisionedList conf) then kept(''Host'' \<mapsto> host)
         else kept(''X-Rev-Host'' \<mapsto> host, ''X-Rev-Proto'' \<mapsto> scheme, ''Host'' \<mapsto> key @ ''.'' @ SDKDomain conf))"
    using host_name_plain[OF w(2)] NSString_plain[OF assms(4)] NSString_plain[OF assms(5)] sch dot
    by (simp add: proccess_headers_def stdMapFromNSDictionary_def header_names shown_def c_str_no_nul fun_eq_iff)
  show ?thesis
    unfolding RSURLConnection_new_def proccessRequest_web[OF assms(1,2)] and_then_simps r hs
    by (simp add: u std_of_ns_def sch web_url_no_nul[OF w(1,2,4)])
qed

text \<open>
  Property C13. What the SDK makes of a request for a page of the web: with the standard protocol it goes to the
  edge host, with QUIC it keeps the host; the scheme becomes \<open>https\<close> unless the host is provisioned;
  what follows the host, the method and the body stay; the original URL and scheme are remembered. The
  server learns the host from the headers: of a provisioned domain from \<open>Host\<close>, otherwise from
  \<open>X-Rev-Host\<close> while \<open>Host\<close> names the account; all other headers stay.
\<close>

theorem request_for_transport:
  assumes "web_request fo scheme host rest q" and "plain (utf8 fo) (edgeHost conf)" and "host_name (edgeHost conf)"
    and "plain (utf8 fo) key" and "plain (utf8 fo) (SDKDomain conf)"
  shows "\<exists>r. RSURLConnection_new fo conf key proto q = Inr r
     \<and> mURL r = web_url (sent_scheme conf scheme host) (sent_host conf proto host) rest
     \<and> mHost r = sent_host conf proto host \<and> mRest r = (if rest = [] then ''/'' else rest)
     \<and> mOriginalURL r = web_url scheme host rest \<and> mOriginalScheme r = scheme
     \<and> mMethod r = c_str (HTTPMethod q) \<and> mBody r = map Some (HTTPBody q)
     \<and> mHeaders r = (let kept = stdMapFromNSDictionary (allHTTPHeaderFields q) in
         if host \<in> set (domainsProvisionedList conf) then kept(''Host'' \<mapsto> host)
         else kept(''X-Rev-Host'' \<mapsto> host, ''X-Rev-Proto'' \<mapsto> scheme, ''Host'' \<mapsto> key @ ''.'' @ SDKDomain conf))"
  using assms by (rule RSURLConnection_web)

text \<open>A small parser of URLs with the behaviour the hypothesis names.\<close>

definition simple_URL :: "string \<Rightarrow> ns_url option" where
  "simple_URL s =
     (let scheme = (if starts_with ''https://'' s then Some ''https'' else if starts_with ''http://'' s then Some ''http'' else None)
      in case scheme of None \<Rightarrow> None
         | Some t \<Rightarrow> (let h = takeWhile host_char (drop (length t + 3) s)
             in Some \<lparr>absoluteString = s, url_scheme = Some t, url_host = Some h, url_path = Some (drop (length t + 3 + length h) s)\<rparr>))"

definition simple_foundation :: foundation where
  "simple_foundation = \<lparr>utf8 = (\<lambda>_. True), URLWithString = simple_URL, relativeToURL = (\<lambda>_ _. None),
     URLComponents = (\<lambda>s. Some (Option.bind (simple_URL s) url_scheme, \<lambda>_. Some s))\<rparr>"

lemma simple_parses: "rest = [] \<or> \<not> host_char (hd rest) \<Longrightarrow> parses_web simple_foundation rest"
proof -
  assume r: "rest = [] \<or> \<not> host_char (hd rest)"
  have "takeWhile host_char (h @ rest) = h" if "host_name h" for h
    using that r by (cases rest) (auto simp: host_name_def list_all_iff takeWhile_append)
  then show ?thesis
    by (auto simp: parses_web_def simple_foundation_def simple_URL_def web_url_def Let_def)
qed

definition sample_get :: ns_request where
  "sample_get = \<lparr>req_URL = simple_URL ''http://a.example/x?y'', HTTPMethod = ''GET'',
     allHTTPHeaderFields = [''Accept'' \<mapsto> ''*''], HTTPBody = [], handled_property = False\<rparr>"

lemma sample_names:
  "host_name ''a.example''" "host_name ''edge.example''" "\<not> host_char (CHR ''/'')"
  by (simp_all add: host_name_def host_char_def)

lemma sample_web: "web_request simple_foundation ''http'' ''a.example'' ''/x?y'' sample_get"
  using simple_parses[of "''/x?y''"] sample_names(1,3)
  by (simp add: web_request_def sample_get_def simple_foundation_def web_url_def)

theorem request_for_transport_witness:
  "\<exists>r. RSURLConnection_new simple_foundation sample_configuration ''key'' standardProtocolName sample_get = Inr r
     \<and> mURL r = ''https://edge.example/x?y'' \<and> mHost r = ''edge.example'' \<and> mRest r = ''/x?y''
     \<and> mHeaders r ''Host'' = Some ''key.revsdk.net'' \<and> mHeaders r ''Accept'' = Some ''*''"
proof -
  have c: "edgeHost sample_configuration = ''edge.example''" "domainsProvisionedList sample_configuration = []"
    "SDKDomain sample_configuration = ''revsdk.net''"
    by (simp_all add: sample_configuration_def Configuration_new_def)
  have p: "plain (utf8 simple_foundation) t" if "CHR 0x00 \<notin> set t" for t
    using that by (simp add: plain_def simple_foundation_def)
  show ?thesis
    using request_for_transport[OF sample_web p _ p p, of sample_configuration "''key''" standardProtocolName]
    by (auto simp: c sample_names sent_scheme_def sent_host_def web_url_def sample_get_def stdMapFromNSDictionary_def c_str_def)
qed

subsection \<open>The record names the page\<close>

definition ascii :: "string \<Rightarrow> bool" where
  "ascii s \<longleftrightarrow> list_all (\<lambda>c. 0 < (of_char c :: nat) \<and> (of_char c :: nat) < 128) s"

definition accepts_ascii :: "foundation \<Rightarrow> bool" where
  "accepts_ascii fo \<longleftrightarrow> (\<forall>s. ascii s \<longrightarrow> utf8 fo s)"

definition utf8_fields :: "foundation \<Rightarrow> (string \<rightharpoonup> string) \<Rightarrow> bool" where
  "utf8_fields fo m \<longleftrightarrow> (\<forall>k v. m k = Some v \<longrightarrow> utf8 fo k \<and> utf8 fo (c_str v))"

lemma ascii_simps [simp]:
  "ascii (s @ t) = (ascii s \<and> ascii t)" "ascii []"
  "ascii (c # s) = (0 < (of_char c :: nat) \<and> (of_char c :: nat) < 128 \<and> ascii s)"
  by (auto simp: ascii_def)

lemma ascii_no_nul: "ascii s \<Longrightarrow> CHR 0x00 \<notin> set s"
  by (auto simp: ascii_def list_all_iff)

lemma ascii_plain: "accepts_ascii fo \<Longrightarrow> ascii s \<Longrightarrow> plain (utf8 fo) s"
  using ascii_no_nul by (simp add: plain_def accepts_ascii_def)

lemma ascii_host_char: "host_char c \<Longrightarrow> 0 < (of_char c :: nat) \<and> (of_char c :: nat) < 128"
  by (auto simp: host_char_def)

lemma ascii_host: "host_name h \<Longrightarrow> ascii h"
  unfolding host_name_def ascii_def using ascii_host_char by (simp add: list_all_iff)

lemma ascii_web_url: "scheme \<in> {''http'', ''https''} \<Longrightarrow> host_name h \<Longrightarrow> ascii rest \<Longrightarrow> ascii (web_url scheme h rest)"
  using ascii_host[of h] by (auto simp: web_url_def)

lemma NSDictionary_fields:
  "utf8_fields fo m \<Longrightarrow> NSDictionaryFromStdMap (utf8 fo) m = Inr (\<lambda>k. map_option c_str (m k))"
  by (auto simp: NSDictionaryFromStdMap_def utf8_fields_def)

lemma utf8_fields_upd: "utf8_fields fo m \<Longrightarrow> utf8 fo k \<Longrightarrow> utf8 fo (c_str v) \<Longrightarrow> utf8_fields fo (m(k \<mapsto> v))"
  by (auto simp: utf8_fields_def)

lemma utf8_fields_std: "utf8_fields fo m \<Longrightarrow> utf8_fields fo (stdMapFromNSDictionary m)"
  by (auto simp: utf8_fields_def stdMapFromNSDictionary_def)

lemma URLRequest_of_request:
  assumes "utf8_fields fo (mHeaders r)" and "plain (utf8 fo) (mURL r)" and "utf8 fo (c_str m)"
    and "mMethod r = c_str m" and "mBody r = map Some b"
  shows "URLRequestFromRequest fo r = Inr \<lparr>req_URL = URLWithString fo (mURL r), HTTPMethod = c_str m,
      allHTTPHeaderFields = (\<lambda>k. map_option c_str (mHeaders r k)), HTTPBody = b, handled_property = False\<rparr>"
  using NSString_plain[OF assms(2)] assms(3-5)
  by (simp add: URLRequestFromRequest_def NSDictionary_fields[OF assms(1)] toString_def NSStringFromStdString_def
      comp_def image_iff)

text \<open>The URL of the record: the host of the header, where there is one, takes the place of the URL's.\<close>

lemma recorded_url:
  assumes "s \<in> {''http'', ''https''}" and "host_name h" and "host_name host" and "parses_web fo rest"
    and "W = \<lparr>absoluteString = web_url s h rest, url_scheme = Some s, url_host = Some h, url_path = u\<rparr>"
  shows "absoluteString (revURLByReplacingHostWithHost fo None W) = web_url s h rest"
    and "absoluteString (revURLByReplacingHostWithHost fo (Some host) W) = web_url s host rest"
proof -
  obtain v where v: "URLWithString fo (web_url s host rest) =
      Some \<lparr>absoluteString = web_url s host rest, url_scheme = Some s, url_host = Some host, url_path = v\<rparr>"
    using assms(1,3,4) unfolding parses_web_def by blast
  show "absoluteString (revURLByReplacingHostWithHost fo None W) = web_url s h rest"
    by (simp add: revURLByReplacingHostWithHost_def assms(5))
  show "absoluteString (revURLByReplacingHostWithHost fo (Some host) W) = web_url s host rest"
    using host_name_plain[OF assms(3)] web_host(1)[OF assms(2,1), of host rest] v
    by (simp add: revURLByReplacingHostWithHost_def assms(5))
qed

text \<open>
  Property C16. The record of a finished request names the host and the path the application asked for
  although the request went to the edge, with the scheme the request was sent with, the method, the status
  of the response and the bytes the connection counted; the scheme asked for is the field
  \<open>transport_protocol\<close>. The exception is a provisioned domain, whose requests carry no \<open>X-Rev-Host\<close>: over
  the standard protocol its record names the edge host. So the recorded URL is the one asked for exactly
  when the request was for \<open>https\<close> and its host is not provisioned, or when the host is provisioned and
  the request was sent to it and not to an edge of another name.
\<close>

theorem record_names_host:
  assumes "web_request fo scheme host rest q" and "ascii rest" and "accepts_ascii fo"
    and "host_name (edgeHost conf)" and "ascii key" and "ascii (SDKDomain conf)"
    and "utf8_fields fo (allHTTPHeaderFields q)" and "allHTTPHeaderFields q ''X-Rev-Host'' = None"
    and "utf8 fo (c_str (HTTPMethod q))" and "utf8_fields fo (mHeaderFields p)"
  shows "\<exists>r d. RSURLConnection_new fo conf key proto q = Inr r \<and> record_of_request fo r (Some p) c transport = Inr d
     \<and> d ''url'' = Some (JString (web_url (sent_scheme conf scheme host)
          (if host \<in> set (domainsProvisionedList conf) then sent_host conf proto host else host) rest))
     \<and> (d ''url'' = Some (JString (web_url scheme host rest)) \<longleftrightarrow>
          (if host \<in> set (domainsProvisionedList conf) then sent_host conf proto host = host else scheme = ''https''))
     \<and> d ''method'' = Some (JString (c_str (HTTPMethod q))) \<and> d ''status_code'' = Some (JInt (int (mStatusCode p)))
     \<and> d ''transport_protocol'' = Some (JString scheme) \<and> d ''edge_transport'' = Some (JString transport)
     \<and> d ''received_bytes'' = Some (JInt (mBytesReceived c)) \<and> d ''sent_bytes'' = Some (JInt (mBytesSent c))"
proof -
  note pl = ascii_plain[OF assms(3)]
  have w: "scheme \<in> {''http'', ''https''}" "host_name host" "parses_web fo rest" "CHR 0x00 \<notin> set rest"
    using assms(1) by (auto simp: web_request_def)
  note sent = sent_names(1)[OF w(1,2) assms(4)] sent_names(2)[OF w(1,2) assms(4), of proto]
  let ?url = "web_url (sent_scheme conf scheme host) (sent_host conf proto host) rest"
  let ?kept = "stdMapFromNSDictionary (allHTTPHeaderFields q)"
  from RSURLConnection_web[OF assms(1) pl[OF ascii_host[OF assms(4)]] assms(4) pl[OF assms(5)] pl[OF assms(6)], of proto]
  obtain r where r: "RSURLConnection_new fo conf key proto q = Inr r" "mURL r = ?url" "mOriginalScheme r = scheme"
    "mMethod r = c_str (HTTPMethod q)" "mBody r = map Some (HTTPBody q)"
    and hs: "mHeaders r = (if host \<in> set (domainsProvisionedList conf) then ?kept(''Host'' \<mapsto> host)
         else ?kept(''X-Rev-Host'' \<mapsto> host, ''X-Rev-Proto'' \<mapsto> scheme, ''Host'' \<mapsto> key @ ''.'' @ SDKDomain conf))"
    by (auto simp: Let_def)
  have asc: "ascii host" "ascii scheme" "ascii (key @ ''.'' @ SDKDomain conf)"
    using ascii_host[OF w(2)] w(1) assms(5,6) by auto
  then have fields: "utf8_fields fo (mHeaders r)"
    using utf8_fields_std[OF assms(7)] assms(3) ascii_no_nul
    unfolding hs by (auto intro!: utf8_fields_upd simp: accepts_ascii_def c_str_no_nul)
  define q' where "q' = \<lparr>req_URL = URLWithString fo ?url, HTTPMethod = c_str (HTTPMethod q),
      allHTTPHeaderFields = (\<lambda>k. map_option c_str (mHeaders r k)), HTTPBody = HTTPBody q, handled_property = False\<rparr>"
  have q': "URLRequestFromRequest fo r = Inr q'"
    using URLRequest_of_request[OF fields _ assms(9) r(4,5)] pl[OF ascii_web_url[OF sent assms(2)]]
    by (simp add: r(2) q'_def)
  obtain u' where u: "URLWithString fo ?url = Some \<lparr>absoluteString = ?url, url_scheme = Some (sent_scheme conf scheme host),
      url_host = Some (sent_host conf proto host), url_path = u'\<rparr>"
    using sent w(3) unfolding parses_web_def by blast
  obtain W where url: "req_URL q' = Some W" and U: "W = \<lparr>absoluteString = ?url, url_scheme = Some (sent_scheme conf scheme host),
      url_host = Some (sent_host conf proto host), url_path = u'\<rparr>" by (simp add: q'_def u)
  have "allHTTPHeaderFields q' kRSRevHostHeader = (if host \<in> set (domainsProvisionedList conf) then None else Some host)"
    using assms(8) host_name_plain[OF w(2)] by (simp add: q'_def hs stdMapFromNSDictionary_def header_names c_str_no_nul)
  then have named: "absoluteString (revURLByReplacingHostWithHost fo (allHTTPHeaderFields q' kRSRevHostHeader) W)
      = web_url (sent_scheme conf scheme host)
          (if host \<in> set (domainsProvisionedList conf) then sent_host conf proto host else host) rest"
    using recorded_url[OF sent w(2,3) U] by simp
  have "NSHTTPURLResponseFromResponse fo (Some p) =
      Inr (Some \<lparr>statusCode = int (mStatusCode p), allHeaderFields = (\<lambda>k. map_option c_str (mHeaderFields p k))\<rparr>)"
    by (simp add: NSHTTPURLResponseFromResponse_def NSDictionary_fields[OF assms(10)])
  then have rec: "record_of_request fo r (Some p) c transport = dataFromRequestsDictionary fo q'
      (Some \<lparr>statusCode = int (mStatusCode p), allHeaderFields = (\<lambda>k. map_option c_str (mHeaderFields p k))\<rparr>) scheme transport c True"
    by (simp add: record_of_request_def q' dataFromRequestAndResponse_def r(3) NSString_plain[OF pl[OF asc(2)]])
  have "\<exists>d. record_of_request fo r (Some p) c transport = Inr d
     \<and> d ''url'' = Some (JString (web_url (sent_scheme conf scheme host)
          (if host \<in> set (domainsProvisionedList conf) then sent_host conf proto host else host) rest))
     \<and> d ''method'' = Some (JString (c_str (HTTPMethod q))) \<and> d ''status_code'' = Some (JInt (int (mStatusCode p)))
     \<and> d ''transport_protocol'' = Some (JString scheme) \<and> d ''edge_transport'' = Some (JString transport)
     \<and> d ''received_bytes'' = Some (JInt (mBytesReceived c)) \<and> d ''sent_bytes'' = Some (JInt (mBytesSent c))"
    unfolding rec dataFromRequestsDictionary_def url option.case if_True Let_def named
    by (simp add: response_fields_def record_defaults_def q'_def)
  then obtain d where d: "record_of_request fo r (Some p) c transport = Inr d"
     "d ''url'' = Some (JString (web_url (sent_scheme conf scheme host)
          (if host \<in> set (domainsProvisionedList conf) then sent_host conf proto host else host) rest))"
     "d ''method'' = Some (JString (c_str (HTTPMethod q))) \<and> d ''status_code'' = Some (JInt (int (mStatusCode p)))
     \<and> d ''transport_protocol'' = Some (JString scheme) \<and> d ''edge_transport'' = Some (JString transport)
     \<and> d ''received_bytes'' = Some (JInt (mBytesReceived c)) \<and> d ''sent_bytes'' = Some (JInt (mBytesSent c))"
    by blast
  have "d ''url'' = Some (JString (web_url scheme host rest)) \<longleftrightarrow>
      (if host \<in> set (domainsProvisionedList conf) then sent_host conf proto host = host else scheme = ''https'')"
    using w(1) by (auto simp: d(2) sent_scheme_def web_url_def)
  with r(1) d show ?thesis by blast
qed

theorem record_names_host_witness:
  "\<exists>r d. RSURLConnection_new simple_foundation sample_configuration ''key'' standardProtocolName sample_get = Inr r
     \<and> record_of_request simple_foundation r (Some (Response_new [] Map.empty 200)) (fst (Connection_new [] False 7)) ''standard'' = Inr d
     \<and> d ''url'' = Some (JString ''https://a.example/x?y'') \<and> d ''status_code'' = Some (JInt 200)
     \<and> d ''transport_protocol'' = Some (JString ''http'')"
proof -
  have c: "edgeHost sample_configuration = ''edge.example''" "domainsProvisionedList sample_configuration = []"
    "SDKDomain sample_configuration = ''revsdk.net''"
    by (simp_all add: sample_configuration_def Configuration_new_def)
  have a: "accepts_ascii simple_foundation" "ascii ''/x?y''" "ascii ''key''" "ascii ''revsdk.net''"
    "utf8_fields simple_foundation m" "utf8 simple_foundation t" "allHTTPHeaderFields sample_get ''X-Rev-Host'' = None" for m t
    by (simp_all add: accepts_ascii_def simple_foundation_def utf8_fields_def sample_get_def)
  show ?thesis
    using record_names_host[OF sample_web a(2,1) _ a(3) _ a(5,7,6,5), where conf = sample_configuration
        and p = "Response_new [] Map.empty 200" and proto = standardProtocolName
        and c = "fst (Connection_new [] False 7)" and transport = "''standard''"] sample_names a(4)
    by (auto simp: c sent_scheme_def web_url_def Response_new_def)
qed

subsection \<open>A request goes one way\<close>

text \<open>
  The requests that are to be taken over, under a configuration: for a web page on a named host, not
  handled before, while the SDK is not switched off and the host may pass.
\<close>

definition to_be_taken_over :: "bool \<Rightarrow> configuration \<Rightarrow> ns_request \<Rightarrow> bool" where
  "to_be_taken_over mocked conf q \<longleftrightarrow>
     (\<exists>u h t. req_URL q = Some u \<and> url_host u = Some h \<and> h \<noteq> [] \<and> url_scheme u = Some t
        \<and> lowercaseString t \<in> {''http'', ''https''}
        \<and> \<not> (mocked \<and> operationMode conf = kRSOperationModeInnerReport \<and> c_str h = ''mobile-collector.newrelic.com''))
     \<and> \<not> handled_property q \<and> operationMode conf \<noteq> kRSOperationModeInnerOff"

lemma file_is_not_web: "req_URL q = Some u \<Longrightarrow> web_scheme u \<Longrightarrow> \<not> isFileRequest q"
  by (auto simp: web_scheme_def isFileRequest_def split: option.splits)

context configuration_service
begin

lemma interception:
  assumes "get e s = (conf, s1, fx)"
  shows "fst (canInitWithRequest mocked get e q s) = to_be_taken_over mocked conf q"
proof (cases "\<exists>u. req_URL q = Some u \<and> \<not> no_host u \<and> web_scheme u")
  case True
  then obtain u where u: "req_URL q = Some u" "\<not> no_host u" "web_scheme u" by blast
  then obtain h t where "url_host u = Some h" "h \<noteq> []" "url_scheme u = Some t" "lowercaseString t \<in> {''http'', ''https''}"
    by (auto simp: no_host_def web_scheme_def split: option.splits)
  with u show ?thesis
    using assms get_again[OF assms] file_is_not_web[OF u(1,3)]
    by (auto simp: canInitWithRequest_def currentOperationMode_def shouldPassHost_def to_be_taken_over_def
        std_of_ns_def Let_def)
next
  case False
  then show ?thesis
    by (auto simp: canInitWithRequest_def to_be_taken_over_def no_host_def web_scheme_def split: option.splits)
qed

lemma loading_decision:
  assumes g: "get e s = (conf, s1, fx)" and p: "plain (utf8 fo) (std_of_ns (Option.bind (req_URL q) url_host))"
    and l: "plain_lists (utf8 fo) conf"
  shows "startLoading fo get e q s =
    Inr (if transports (\<lambda>t. Option.bind (URLWithString fo t) url_host) conf (std_of_ns (Option.bind (req_URL q) url_host))
         then ViaSDK q else Direct (q\<lparr>handled_property := True\<rparr>), s1, fx)"
proof -
  have g1: "get e s1 = (conf, s1, [])" by (rule get_again[OF g])
  with l have "plain_lists (utf8 fo) (fst (get e s1))" by simp
  from transport_decision[OF p this, of "\<lambda>t. Option.bind (URLWithString fo t) url_host"] show ?thesis
    by (simp add: startLoading_def currentOperationMode_def g shouldRedirectRequest_def g1 Let_def)
qed

end

text \<open>
  Property C15. A request is taken over exactly when it has a URL with a host and the scheme \<open>http\<close> or \<open>https\<close>,
  written in any case, the SDK is not switched off, the request was not handled before, and, while a test
  configuration that only reports is active, its host is not the collector of New Relic. A request that is loaded goes through the SDK exactly when its host is to be transported; otherwise it is
  marked and sent directly, and is not taken over again, whatever happens to the configuration. The request a
  redirection leads to is not marked: it is taken over under the same conditions as one never seen.
\<close>

theorem request_goes_one_way:
  assumes "getActive e s = (conf, s1, fx)" and "getActive e' s' = (conf', s2, fx')"
    and "plain (utf8 fo) (std_of_ns (Option.bind (req_URL q) url_host))" and "plain_lists (utf8 fo) conf"
  shows "(fst (canInitWithRequest mocked getActive e q s) \<longleftrightarrow>
       (\<exists>u h t. req_URL q = Some u \<and> url_host u = Some h \<and> h \<noteq> [] \<and> url_scheme u = Some t
          \<and> lowercaseString t \<in> {''http'', ''https''}
          \<and> \<not> (mocked \<and> operationMode conf = kRSOperationModeInnerReport \<and> c_str h = ''mobile-collector.newrelic.com''))
       \<and> \<not> handled_property q \<and> operationMode conf \<noteq> kRSOperationModeInnerOff)
    \<and> startLoading fo getActive e q s =
      Inr (if transports (\<lambda>t. Option.bind (URLWithString fo t) url_host) conf (std_of_ns (Option.bind (req_URL q) url_host))
           then ViaSDK q else Direct (q\<lparr>handled_property := True\<rparr>), s1, fx)
    \<and> \<not> fst (canInitWithRequest mocked getActive e' (q\<lparr>handled_property := True\<rparr>) s')
    \<and> fst (canInitWithRequest mocked getActive e' (wasRedirectedToRequest (q\<lparr>handled_property := True\<rparr>)) s') =
        to_be_taken_over mocked conf' (q\<lparr>handled_property := False\<rparr>)"
  using assms(3) unfolding real_service.interception[OF assms(1)] real_service.interception[OF assms(2)]
    real_service.loading_decision[OF assms(1,3,4)]
  by (auto simp: wasRedirectedToRequest_def to_be_taken_over_def)

theorem request_goes_one_way_witness:
  "fst (canInitWithRequest False getActive (at_time 5) sample_get sample_service)
   \<and> \<not> fst (canInitWithRequest False getActive (at_time 6) (sample_get\<lparr>handled_property := True\<rparr>) sample_service)
   \<and> \<not> fst (canInitWithRequest False getActive (at_time 5)
        (sample_get\<lparr>req_URL := Some \<lparr>absoluteString = ''ftp://a.example/'', url_scheme = Some ''ftp'',
          url_host = Some ''a.example'', url_path = Some ''/''\<rparr>\<rparr>) sample_service)"
proof -
  let ?ftp = "\<lparr>absoluteString = ''ftp://a.example/'', url_scheme = Some ''ftp'', url_host = Some ''a.example'',
    url_path = Some ''/''\<rparr>"
  have g: "getActive (at_time n) sample_service = (sample_configuration, sample_service, [])" if "n \<in> {5, 6}" for n
    using that by (auto simp: isStale_def isTimedOut_def sample_service_def at_time_def secs_of_def sample_configuration_def
        Configuration_new_def intro!: getActive_not_stale[THEN trans])
  obtain u where u: "req_URL sample_get = Some u" "url_host u = Some ''a.example''" "url_scheme u = Some ''http''"
    by (simp add: sample_get_def simple_URL_def host_char_def Let_def)
  have p: "plain (utf8 simple_foundation) (std_of_ns (Option.bind (Some x) url_host))"
    "plain_lists (utf8 simple_foundation) sample_configuration" if "url_host x = Some ''a.example''" for x
    by (simp_all add: that plain_def simple_foundation_def std_of_ns_def c_str_def plain_lists_def sample_configuration_def
        Configuration_new_def)
  have s: "\<not> handled_property sample_get" "operationMode sample_configuration \<noteq> kRSOperationModeInnerOff"
    by (simp_all add: sample_get_def sample_configuration_def mode_defs)
  have "lowercaseString ''http'' = ''http''" "lowercaseString ''ftp'' = ''ftp''" by code_simp+
  note low = this
  have g5: "getActive (at_time 5) sample_service = (sample_configuration, sample_service, [])"
    and g6: "getActive (at_time 6) sample_service = (sample_configuration, sample_service, [])" by (simp_all add: g)
  let ?q = "sample_get\<lparr>req_URL := Some ?ftp\<rparr>"
  have h: "plain (utf8 simple_foundation) (std_of_ns (Option.bind (req_URL sample_get) url_host))"
    "plain (utf8 simple_foundation) (std_of_ns (Option.bind (req_URL ?q) url_host))"
    using p(1)[of u] p(1)[of ?ftp] u by simp_all
  note web = request_goes_one_way[OF g5 g6 h(1) p(2)[OF u(2)], of False]
  note ftp = request_goes_one_way[OF g5 g6 h(2) p(2)[OF u(2)], of False, THEN conjunct1]
  have "fst (canInitWithRequest False getActive (at_time 5) sample_get sample_service)"
    using web[THEN conjunct1] s u low(1) by auto
  moreover have "\<not> fst (canInitWithRequest False getActive (at_time 5) ?q sample_service)"
    using ftp low(2) by simp
  ultimately show ?thesis using web by blast
qed

text \<open>
  Property C37. A URL with its scheme in capitals is taken over and not understood: the interception ignores the
  case, the processor does not. Its request loses URL, method, headers and body, and the standard
  connection reports the URL as not supported before it is logged.
\<close>

theorem capital_scheme_loses_request:
  assumes "getActive e s = (conf, s1, fx)" and "operationMode conf \<noteq> kRSOperationModeInnerOff"
    and "req_URL q = Some u" and "url_host u = Some h" and "h \<noteq> []" and "\<not> handled_property q"
    and "url_scheme u = Some t" and "lowercaseString t \<in> {''http'', ''https''}" and "t \<notin> {''http'', ''https''}"
    and "host_of [] = None"
  shows "fst (canInitWithRequest False getActive e q s)
    \<and> (\<exists>r. RSURLConnection_new fo conf key proto q = Inr r \<and> mURL r = [] \<and> mMethod r = [] \<and> mHeaders r = Map.empty
        \<and> mBody r = [] \<and> mHost r = []
        \<and> startWithRequest_standard host_of ms r c =
            Inr (c\<lparr>mCurrentRequest := Some r\<rparr>, [DidFailWithError url_not_supported], False))"
proof -
  have "fst (canInitWithRequest False getActive e q s)"
    using assms(2-8) by (simp add: real_service.interception[OF assms(1)] to_be_taken_over_def)
  moreover have "proccessRequest fo conf key q edge = Inr None" for edge
    using assms(3-5,7,9) by (auto simp: proccessRequest_def no_host_def isValidScheme_def)
  ultimately show ?thesis
    using assms(10) by (simp add: RSURLConnection_new_def requestFromURLRequest_def Request_new_def startWithRequest_standard_def Let_def)
qed

theorem capital_scheme_loses_request_witness:
  "\<exists>r. RSURLConnection_new simple_foundation sample_configuration ''key'' standardProtocolName
       (sample_get\<lparr>req_URL := Some \<lparr>absoluteString = ''HTTP://a.example/'', url_scheme = Some ''HTTP'',
          url_host = Some ''a.example'', url_path = Some ''/''\<rparr>\<rparr>) = Inr r
     \<and> mURL r = [] \<and> mMethod r = []"
proof -
  let ?u = "\<lparr>absoluteString = ''HTTP://a.example/'', url_scheme = Some ''HTTP'', url_host = Some ''a.example'', url_path = Some ''/''\<rparr>"
  have g: "getActive (at_time 5) sample_service = (sample_configuration, sample_service, [])"
    by (rule getActive_not_stale[THEN trans])
      (simp_all add: isStale_def isTimedOut_def sample_service_def at_time_def secs_of_def sample_configuration_def
        Configuration_new_def)
  have m: "operationMode sample_configuration \<noteq> kRSOperationModeInnerOff"
    by (simp add: sample_configuration_def mode_defs)
  have q: "req_URL (sample_get\<lparr>req_URL := Some ?u\<rparr>) = Some ?u" "url_host ?u = Some ''a.example''" "''a.example'' \<noteq> []"
    "\<not> handled_property (sample_get\<lparr>req_URL := Some ?u\<rparr>)" "url_scheme ?u = Some ''HTTP''"
    by (simp_all add: sample_get_def)
  have "lowercaseString ''HTTP'' = ''http''" by code_simp
  then have t: "lowercaseString ''HTTP'' \<in> {''http'', ''https''}" "''HTTP'' \<notin> {''http'', ''https''}" by simp_all
  have h: "(\<lambda>_. None) [] = (None :: string option)" by simp
  from capital_scheme_loses_request[OF g m q t h, of simple_foundation "''key''" standardProtocolName]
  show ?thesis by blast
qed

end
