(* ===== verification/ReceiveBuffer.thy ===== *)
theory ReceiveBuffer
  imports Prelude
begin

text \<open>
  The interface \<open>QuicStreamSequencerBufferInterface\<close>
  (\<open>quicrepack/src/net/quic/quic_stream_sequencer_buffer_interface.h\<close>): a store for the bytes of a
  stream that arrive out of order. Its contract is the locale \<open>receive_buffer\<close>; the theories
  \<open>SequencerBuffer\<close> and \<open>FrameList\<close> hold the two classes that implement it. An operation answers
  \<open>None\<close> when the code has no result: a loop that never ends, an iterator or a null block
  that is dereferenced.
\<close>

subsection \<open>Unsigned 64-bit numbers\<close>

definition u64 :: "nat \<Rightarrow> nat" where
  "u64 n = n mod 2 ^ 64"

definition u64_sub :: "nat \<Rightarrow> nat \<Rightarrow> nat" where
  "u64_sub a b = (if b \<le> a then a - b else a + 2 ^ 64 - b)"

definition maxOffset :: nat where "maxOffset = 2 ^ 64 - 1"

lemma u64_id [simp]: "n < 2 ^ 64 \<Longrightarrow> u64 n = n"
  by (simp add: u64_def)

lemma u64_le: "u64 n \<le> n"
  by (simp add: u64_def)

lemma u64_sub_le [simp]: "b \<le> a \<Longrightarrow> u64_sub a b = a - b"
  by (simp add: u64_sub_def)

text \<open>How far the SDK's flow control lets a stream of the peer run ahead.\<close>

definition kStreamReceiveWindowLimit :: nat where "kStreamReceiveWindowLimit = 16 * 1024 * 1024"

subsection \<open>Frames of a stream\<close>

text \<open>\<open>QuicErrorCode\<close>, of which the buffers return the first four; the peer may send any.\<close>

datatype quic_error =
    QUIC_NO_ERROR
  | QUIC_INVALID_STREAM_DATA
  | QUIC_INVALID_STREAM_FRAME
  | QUIC_INTERNAL_ERROR
  | QUIC_FLOW_CONTROL_RECEIVED_TOO_MUCH_DATA
  | QUIC_FLOW_CONTROL_SENT_TOO_MUCH_DATA
  | QUIC_INVALID_HEADERS_STREAM_DATA
  | QUIC_PEER_GOING_AWAY
  | OtherQuicError nat

definition slice :: "nat \<Rightarrow> string \<Rightarrow> nat \<rightharpoonup> char" where
  "slice off data = (\<lambda>k. if off \<le> k \<and> k < off + length data then Some (data ! (k - off)) else None)"

definition from_offset :: "nat \<Rightarrow> (nat \<rightharpoonup> char) \<Rightarrow> nat \<rightharpoonup> char" where
  "from_offset c m = (\<lambda>k. if k < c then None else m k)"

text \<open>The frames of a stream cut at fixed places, with their offsets.\<close>

fun pieces :: "nat \<Rightarrow> string list \<Rightarrow> (nat \<times> string) list" where
  "pieces off [] = []"
| "pieces off (c # cs) = (off, c) # pieces (off + length c) cs"

lemma pieces_sound:
  "(p, d) \<in> set (pieces off cs) \<Longrightarrow> off \<le> p \<and> p + length d \<le> off + length (concat cs)
     \<and> (\<forall>i < length d. concat cs ! (p + i - off) = d ! i)"
proof (induction cs arbitrary: off)
  case (Cons c cs)
  show ?case
  proof (cases "(p, d) = (off, c)")
    case True
    then show ?thesis by (auto simp: nth_append)
  next
    case False
    with Cons.prems have "(p, d) \<in> set (pieces (off + length c) cs)" by auto
    note IH = Cons.IH[OF this]
    have "concat (c # cs) ! (p + i - off) = d ! i" if "i < length d" for i
    proof -
      from IH that have i: "concat cs ! (p + i - (off + length c)) = d ! i" and le: "off + length c \<le> p" by auto
      from le have "\<not> p + i - off < length c" by arith
      then have "(c @ concat cs) ! (p + i - off) = concat cs ! (p + i - off - length c)"
        by (simp only: nth_append if_False)
      also have "p + i - off - length c = p + i - (off + length c)" by simp
      finally show ?thesis using i by simp
    qed
    with IH show ?thesis by auto
  qed
qed simp

lemma pieces_cover:
  assumes "off \<le> k" and "k < off + length (concat cs)"
  shows "\<exists>(p, d) \<in> set (pieces off cs). p \<le> k \<and> k < p + length d"
  using assms
proof (induction cs arbitrary: off)
  case (Cons c cs)
  show ?case
  proof (cases "k < off + length c")
    case True
    with Cons.prems show ?thesis by auto
  next
    case False
    with Cons show ?thesis by fastforce
  qed
qed simp

lemma pieces_disjoint:
  assumes "(p, d) \<in> set (pieces off cs)" and "(q, e) \<in> set (pieces off cs)"
    and "p \<le> k" and "k < p + length d" and "q \<le> k" and "k < q + length e"
  shows "p = q \<and> d = e"
  using assms
proof (induction cs arbitrary: off)
  case (Cons c cs)
  have later: "off + length c \<le> r" if "(r, x) \<in> set (pieces (off + length c) cs)" for r x
    using pieces_sound[OF that] by simp
  show ?case
    using Cons.prems Cons.IH[of "off + length c"] later by fastforce
qed simp

lemma pieces_not_empty: "(p, d) \<in> set (pieces off cs) \<Longrightarrow> [] \<notin> set cs \<Longrightarrow> d \<noteq> []"
  by (induction cs arbitrary: off) auto

subsection \<open>Reading\<close>

text \<open>
  How a reader empties the buffer, one region after the other. The fuel bounds the rounds; every
  round consumes a byte, so the number of held bytes and one more is enough.
\<close>

fun drain ::
  "('b \<Rightarrow> string list option) \<Rightarrow> (nat \<Rightarrow> 'b \<Rightarrow> (bool \<times> 'b) option) \<Rightarrow> nat \<Rightarrow> 'b \<Rightarrow> (string \<times> 'b) option" where
  "drain regions mark 0 b = None"
| "drain regions mark (Suc k) b =
     (case regions b of None \<Rightarrow> None
      | Some [] \<Rightarrow> Some ([], b)
      | Some (r # _) \<Rightarrow>
        (case mark (length r) b of None \<Rightarrow> None
         | Some (ok, b') \<Rightarrow> if \<not> ok then None
             else map_option (\<lambda>(d, b''). (r @ d, b'')) (drain regions mark k b')))"

fun receive_all ::
  "(nat \<Rightarrow> string \<Rightarrow> int \<Rightarrow> 'b \<Rightarrow> (quic_error \<times> nat \<times> 'b) option) \<Rightarrow> ('b \<Rightarrow> string list option)
    \<Rightarrow> (nat \<Rightarrow> 'b \<Rightarrow> (bool \<times> 'b) option) \<Rightarrow> nat \<Rightarrow> (nat \<times> string \<times> int) list \<Rightarrow> 'b \<Rightarrow> (string \<times> 'b) option" where
  "receive_all on_data regions mark fuel [] b = Some ([], b)"
| "receive_all on_data regions mark fuel ((off, data, t) # fs) b =
     (case on_data off data t b of None \<Rightarrow> None
      | Some (e, n, b1) \<Rightarrow>
        (case drain regions mark fuel b1 of None \<Rightarrow> None
         | Some (d, b2) \<Rightarrow>
             map_option (\<lambda>(d', b3). (d @ d', b3)) (receive_all on_data regions mark fuel fs b2)))"

subsection \<open>The contract\<close>

text \<open>
  \<open>buffered\<close> gives the bytes held and not yet consumed, by their offset; \<open>room\<close> is how far beyond
  the consumed bytes data is accepted. New data is stored whole or not at all.
\<close>

locale receive_buffer =
  fixes inv :: "'b \<Rightarrow> bool"
    and buffered :: "'b \<Rightarrow> nat \<rightharpoonup> char"
    and consumed :: "'b \<Rightarrow> nat"
    and room :: "'b \<Rightarrow> nat"
    and on_data :: "nat \<Rightarrow> string \<Rightarrow> int \<Rightarrow> 'b \<Rightarrow> (quic_error \<times> nat \<times> 'b) option"
    and regions :: "'b \<Rightarrow> string list option"
    and mark :: "nat \<Rightarrow> 'b \<Rightarrow> (bool \<times> 'b) option"
  assumes held_finite: "inv b \<Longrightarrow> finite (dom (buffered b))"
    and held_ahead: "inv b \<Longrightarrow> buffered b k \<noteq> None \<Longrightarrow> consumed b \<le> k"
    and data_law: "\<lbrakk>inv b; data \<noteq> []; off + length data < 2 ^ 64; consumed b + room b < maxOffset\<rbrakk> \<Longrightarrow>
      \<exists>e n b'. on_data off data t b = Some (e, n, b') \<and> inv b' \<and> consumed b' = consumed b \<and> room b' = room b
        \<and> (n = 0 \<and> buffered b' = buffered b
           \<or> e = QUIC_NO_ERROR \<and> n = length data \<and> consumed b \<le> off \<and> buffered b' = buffered b ++ slice off data)"
    and accept_law: "\<lbrakk>inv b; data \<noteq> []; consumed b \<le> off; off + length data \<le> consumed b + room b;
        consumed b + room b < maxOffset; \<And>k. off \<le> k \<Longrightarrow> k < off + length data \<Longrightarrow> buffered b k = None\<rbrakk> \<Longrightarrow>
      \<exists>b'. on_data off data t b = Some (QUIC_NO_ERROR, length data, b')"
    and region_law: "inv b \<Longrightarrow> \<exists>rs. regions b = Some rs
        \<and> (if buffered b (consumed b) = None then rs = []
           else \<exists>r. rs = [r] \<and> r \<noteq> [] \<and> (\<forall>i < length r. buffered b (consumed b + i) = Some (r ! i)))"
    and mark_law: "\<lbrakk>inv b; \<And>i. i < n \<Longrightarrow> buffered b (consumed b + i) \<noteq> None\<rbrakk> \<Longrightarrow>
      \<exists>b'. mark n b = Some (True, b') \<and> inv b' \<and> consumed b' = consumed b + n \<and> room b' = room b
        \<and> buffered b' = from_offset (consumed b + n) (buffered b)"
begin

lemma held_below: "inv b \<Longrightarrow> k < consumed b \<Longrightarrow> buffered b k = None"
  using held_ahead[of b k] by fastforce

text \<open>A reader gets the unbroken run of held bytes, and stops at the first byte missing.\<close>

lemma drain_run:
  assumes "inv b" and "card (dom (buffered b)) < fuel"
  shows "\<exists>d b'. drain regions mark fuel b = Some (d, b') \<and> inv b' \<and> consumed b' = consumed b + length d
     \<and> room b' = room b \<and> (\<forall>i < length d. buffered b (consumed b + i) = Some (d ! i))
     \<and> buffered b' = from_offset (consumed b + length d) (buffered b) \<and> buffered b' (consumed b') = None"
  using assms
proof (induction fuel arbitrary: b)
  case (Suc k)
  obtain rs where rs: "regions b = Some rs"
    "if buffered b (consumed b) = None then rs = []
     else \<exists>r. rs = [r] \<and> r \<noteq> [] \<and> (\<forall>i < length r. buffered b (consumed b + i) = Some (r ! i))"
    using region_law[OF Suc.prems(1)] by blast
  show ?case
  proof (cases "buffered b (consumed b) = None")
    case True
    have "buffered b = from_offset (consumed b) (buffered b)"
      using held_below[OF Suc.prems(1)] by (auto simp: from_offset_def)
    with True rs Suc.prems(1) show ?thesis by simp
  next
    case False
    with rs obtain r where r: "rs = [r]" "r \<noteq> []" "\<forall>i < length r. buffered b (consumed b + i) = Some (r ! i)"
      by auto
    obtain b1 where b1: "mark (length r) b = Some (True, b1)" "inv b1" "consumed b1 = consumed b + length r"
      "room b1 = room b" "buffered b1 = from_offset (consumed b + length r) (buffered b)"
      using mark_law[OF Suc.prems(1), of "length r"] r(3) by auto
    have "dom (buffered b1) \<subseteq> dom (buffered b) - {consumed b}"
      using r(2) by (auto simp: b1(5) from_offset_def split: if_splits)
    then have "card (dom (buffered b1)) \<le> card (dom (buffered b) - {consumed b})"
      by (rule card_mono[OF finite_Diff[OF held_finite[OF Suc.prems(1)]]])
    also have "\<dots> < card (dom (buffered b))"
      using False held_finite[OF Suc.prems(1)] by (intro card_Diff1_less) auto
    finally have "card (dom (buffered b1)) < k" using Suc.prems(2) by simp
    from Suc.IH[OF b1(2) this] obtain d b' where d: "drain regions mark k b1 = Some (d, b')" "inv b'"
      "consumed b' = consumed b1 + length d" "room b' = room b1"
      "\<forall>i < length d. buffered b1 (consumed b1 + i) = Some (d ! i)"
      "buffered b' = from_offset (consumed b1 + length d) (buffered b1)" "buffered b' (consumed b') = None"
      by blast
    have "buffered b (consumed b + i) = Some ((r @ d) ! i)" if "i < length (r @ d)" for i
    proof (cases "i < length r")
      case True
      then show ?thesis using r(3) by (simp add: nth_append)
    next
      case False
      then have i: "i - length r < length d" "consumed b + length r + (i - length r) = consumed b + i" using that by auto
      have "buffered b1 (consumed b1 + (i - length r)) = Some (d ! (i - length r))"
        using d(5) i(1) by blast
      with False i(2) show ?thesis by (simp add: nth_append b1(3,5) from_offset_def split: if_splits)
    qed
    moreover have "buffered b' = from_offset (consumed b + length (r @ d)) (buffered b)"
      by (auto simp: d(6) b1(3,5) from_offset_def)
    ultimately have "drain regions mark (Suc k) b = Some (r @ d, b') \<and> inv b'
       \<and> consumed b' = consumed b + length (r @ d) \<and> room b' = room b
       \<and> (\<forall>i < length (r @ d). buffered b (consumed b + i) = Some ((r @ d) ! i))
       \<and> buffered b' = from_offset (consumed b + length (r @ d)) (buffered b) \<and> buffered b' (consumed b') = None"
      using rs(1) r(1) b1 d by simp
    then show ?thesis by blast
  qed
qed simp

text \<open>What holds between two frames of a stream \<open>sent\<close>, cut into \<open>cs\<close>, of which \<open>got\<close> arrived.\<close>

definition held :: "nat \<Rightarrow> string \<Rightarrow> 'b \<Rightarrow> bool" where
  "held p d b \<longleftrightarrow> (\<forall>k. p \<le> k \<longrightarrow> k < p + length d \<longrightarrow> consumed b \<le> k \<longrightarrow> buffered b k \<noteq> None)"

definition absent :: "nat \<Rightarrow> string \<Rightarrow> 'b \<Rightarrow> bool" where
  "absent p d b \<longleftrightarrow> consumed b \<le> p \<and> (\<forall>k. p \<le> k \<longrightarrow> k < p + length d \<longrightarrow> buffered b k = None)"

definition on_track :: "string list \<Rightarrow> (nat \<times> string) set \<Rightarrow> 'b \<Rightarrow> bool" where
  "on_track cs got b \<longleftrightarrow> inv b \<and> consumed b \<le> length (concat cs)
     \<and> (\<forall>k c. buffered b k = Some c \<longrightarrow> k < length (concat cs) \<and> c = concat cs ! k)
     \<and> (\<forall>p d. (p, d) \<in> set (pieces 0 cs) \<longrightarrow> (if (p, d) \<in> got then held p d b else absent p d b))"

lemma on_trackD:
  assumes "on_track cs got b"
  shows "inv b" and "consumed b \<le> length (concat cs)"
    and "buffered b k = Some c \<Longrightarrow> k < length (concat cs) \<and> c = concat cs ! k"
    and "(p, d) \<in> set (pieces 0 cs) \<Longrightarrow> (p, d) \<in> got \<Longrightarrow> held p d b"
    and "(p, d) \<in> set (pieces 0 cs) \<Longrightarrow> (p, d) \<notin> got \<Longrightarrow> absent p d b"
  using assms unfolding on_track_def by (metis, metis, metis, metis, metis)

lemma on_track_data:
  assumes tr: "on_track cs got b" and piece: "(p, d) \<in> set (pieces 0 cs)" and ne: "[] \<notin> set cs"
    and room: "length (concat cs) \<le> room b" and lim: "consumed b + room b < maxOffset"
  shows "\<exists>e n b'. on_data p d t b = Some (e, n, b') \<and> on_track cs (insert (p, d) got) b'
     \<and> consumed b' = consumed b \<and> room b' = room b"
proof -
  note inv = on_trackD(1)[OF tr]
  have d: "d \<noteq> []" and pos: "p + length d \<le> length (concat cs)"
    and val: "\<And>i. i < length d \<Longrightarrow> concat cs ! (p + i) = d ! i"
    using pieces_not_empty[OF piece ne] pieces_sound[OF piece] by auto
  have "p + length d < 2 ^ 64" using pos room lim by (simp add: maxOffset_def)
  from data_law[OF inv d this lim] obtain e n b' where
    od: "on_data p d t b = Some (e, n, b')" and b': "inv b'" "consumed b' = consumed b" "room b' = room b"
    and cases: "n = 0 \<and> buffered b' = buffered b
       \<or> e = QUIC_NO_ERROR \<and> n = length d \<and> consumed b \<le> p \<and> buffered b' = buffered b ++ slice p d" by blast
  have fresh: "buffered b' = buffered b ++ slice p d" if "(p, d) \<notin> got"
  proof -
    have free: "consumed b \<le> p" "\<And>k. p \<le> k \<Longrightarrow> k < p + length d \<Longrightarrow> buffered b k = None"
      using on_trackD(5)[OF tr piece that] by (auto simp: absent_def)
    have "p + length d \<le> consumed b + room b" using pos room by simp
    from accept_law[OF inv d free(1) this lim free(2)] obtain b2 where
      "on_data p d t b = Some (QUIC_NO_ERROR, length d, b2)" by blast
    with od cases d show ?thesis by auto
  qed
  have same: "\<forall>k c. buffered b' k = Some c \<longrightarrow> k < length (concat cs) \<and> c = concat cs ! k"
  proof (intro allI impI)
    fix k c assume k: "buffered b' k = Some c"
    consider "buffered b k = Some c" | "slice p d k = Some c"
      using cases k by (auto simp: map_add_def split: option.splits)
    then show "k < length (concat cs) \<and> c = concat cs ! k"
    proof cases
      case 1
      then show ?thesis by (rule on_trackD(3)[OF tr])
    next
      case 2
      then show ?thesis using pos val[of "k - p"] by (auto simp: slice_def split: if_splits)
    qed
  qed
  have grow: "buffered b' k \<noteq> None" if "buffered b k \<noteq> None" for k
    using that cases by (auto simp: map_add_def split: option.splits)
  have "if (q, x) \<in> insert (p, d) got then held q x b' else absent q x b'"
    if q: "(q, x) \<in> set (pieces 0 cs)" for q x
  proof (cases "(q, x) = (p, d)")
    case True
    have "held p d b'"
    proof (cases "(p, d) \<in> got")
      case got: True
      from on_trackD(4)[OF tr piece got] grow b'(2) show ?thesis by (simp add: held_def)
    next
      case False
      with fresh show ?thesis by (auto simp: slice_def map_add_def held_def)
    qed
    with True show ?thesis by simp
  next
    case False
    have apart: "slice p d k = None" if "q \<le> k" "k < q + length x" for k
      using pieces_disjoint[OF q piece that] False by (auto simp: slice_def)
    have "buffered b' k = buffered b k" if "q \<le> k" "k < q + length x" for k
      using cases apart[OF that] by (auto simp: map_add_def)
    then show ?thesis
      using on_trackD(4,5)[OF tr q] False b'(2) by (auto simp: held_def absent_def)
  qed
  then have "on_track cs (insert (p, d) got) b'"
    unfolding on_track_def using b' same on_trackD(2)[OF tr] by simp
  with od b' show ?thesis by blast
qed

lemma on_track_bytes:
  assumes "on_track cs got b" and "length (concat cs) < fuel"
  shows "card (dom (buffered b)) < fuel"
proof -
  have "dom (buffered b) \<subseteq> {..< length (concat cs)}" using assms(1) by (auto simp: on_track_def)
  then have "card (dom (buffered b)) \<le> length (concat cs)"
    by (metis card_lessThan card_mono finite_lessThan)
  with assms(2) show ?thesis by simp
qed

lemma on_track_drain:
  assumes tr: "on_track cs got b" and fuel: "length (concat cs) < fuel" and ne: "[] \<notin> set cs"
  shows "\<exists>d b'. drain regions mark fuel b = Some (d, b') \<and> on_track cs got b' \<and> room b' = room b
     \<and> consumed b' = consumed b + length d \<and> take (consumed b) (concat cs) @ d = take (consumed b') (concat cs)
     \<and> buffered b' (consumed b') = None"
proof -
  from drain_run[OF on_trackD(1)[OF tr] on_track_bytes[OF tr fuel]] obtain d b' where
    d: "drain regions mark fuel b = Some (d, b')" and b': "inv b'" "consumed b' = consumed b + length d" "room b' = room b"
    and run: "\<forall>i < length d. buffered b (consumed b + i) = Some (d ! i)"
    and rest: "buffered b' = from_offset (consumed b + length d) (buffered b)" and stop: "buffered b' (consumed b') = None"
    by blast
  have val: "consumed b + i < length (concat cs) \<and> concat cs ! (consumed b + i) = d ! i" if "i < length d" for i
    using on_trackD(3)[OF tr] run that by auto
  have le: "consumed b' \<le> length (concat cs)"
  proof (cases "d = []")
    case True
    with on_trackD(2)[OF tr] b' show ?thesis by simp
  next
    case False
    then show ?thesis using val[of "length d - 1"] b'(2) by (cases d) auto
  qed
  have app: "take (consumed b) (concat cs) @ d = take (consumed b') (concat cs)"
  proof (rule nth_equalityI)
    show "length (take (consumed b) (concat cs) @ d) = length (take (consumed b') (concat cs))"
      using le b'(2) by simp
    show "(take (consumed b) (concat cs) @ d) ! i = take (consumed b') (concat cs) ! i"
      if "i < length (take (consumed b) (concat cs) @ d)" for i
      using that le b'(2) val[of "i - consumed b"] by (auto simp: nth_append)
  qed
  have "if (p, x) \<in> got then held p x b' else absent p x b'" if q: "(p, x) \<in> set (pieces 0 cs)" for p x
  proof (cases "(p, x) \<in> got")
    case True
    from on_trackD(4)[OF tr q True] b'(2) True show ?thesis by (auto simp: held_def rest from_offset_def)
  next
    case False
    note free = on_trackD(5)[OF tr q False]
    have "consumed b' \<le> p"
    proof (rule ccontr)
      assume "\<not> consumed b' \<le> p"
      then have "p - consumed b < length d" "consumed b + (p - consumed b) = p"
        using b'(2) free by (auto simp: absent_def)
      with run have "buffered b p = Some (d ! (p - consumed b))" by metis
      moreover have "buffered b p = None"
        using free pieces_not_empty[OF q ne] by (auto simp: absent_def)
      ultimately show False by simp
    qed
    with False free show ?thesis by (auto simp: absent_def rest from_offset_def)
  qed
  moreover have "k < length (concat cs) \<and> c = concat cs ! k" if "buffered b' k = Some c" for k c
    using that on_trackD(3)[OF tr] by (auto simp: rest from_offset_def split: if_splits)
  ultimately have "on_track cs got b'"
    unfolding on_track_def using b'(1) le by simp
  with d b' app stop show ?thesis by blast
qed

lemma receive_run:
  assumes "on_track cs got b" and "\<forall>(p, d, t) \<in> set fs. (p, d) \<in> set (pieces 0 cs)"
    and "[] \<notin> set cs" and "length (concat cs) \<le> room b" and "length (concat cs) + room b < maxOffset"
    and "length (concat cs) < fuel"
  shows "\<exists>d b'. receive_all on_data regions mark fuel fs b = Some (d, b')
     \<and> on_track cs (got \<union> (\<lambda>(p, d, t). (p, d)) ` set fs) b'
     \<and> take (consumed b) (concat cs) @ d = take (consumed b') (concat cs)
     \<and> (fs \<noteq> [] \<longrightarrow> buffered b' (consumed b') = None)"
  using assms(1,2,4,5)
proof (induction fs arbitrary: got b)
  case Nil
  then show ?case by simp
next
  case (Cons f fs)
  obtain p d t where f: "f = (p, d, t)" by (cases f)
  have lim: "consumed b + room b < maxOffset" using on_trackD(2)[OF Cons.prems(1)] Cons.prems(4) by simp
  have "(p, d) \<in> set (pieces 0 cs)" using Cons.prems(2) by (simp add: f)
  from on_track_data[OF Cons.prems(1) this assms(3) Cons.prems(3) lim, of t] obtain e n b1 where
    b1: "on_data p d t b = Some (e, n, b1)" "on_track cs (insert (p, d) got) b1" "consumed b1 = consumed b" "room b1 = room b"
    by blast
  from on_track_drain[OF b1(2) assms(6,3)] obtain d1 b2 where
    b2: "drain regions mark fuel b1 = Some (d1, b2)" "on_track cs (insert (p, d) got) b2" "room b2 = room b1"
      "take (consumed b1) (concat cs) @ d1 = take (consumed b2) (concat cs)" "buffered b2 (consumed b2) = None" by blast
  have "room b2 = room b" using b1 b2 by simp
  with Cons.prems have r: "length (concat cs) \<le> room b2" "length (concat cs) + room b2 < maxOffset" by simp_all
  have "\<forall>(p, d, t) \<in> set fs. (p, d) \<in> set (pieces 0 cs)" using Cons.prems(2) by simp
  from Cons.IH[OF b2(2) this r] obtain d2 b3 where
    b3: "receive_all on_data regions mark fuel fs b2 = Some (d2, b3)"
      "on_track cs (insert (p, d) got \<union> (\<lambda>(p, d, t). (p, d)) ` set fs) b3"
      "take (consumed b2) (concat cs) @ d2 = take (consumed b3) (concat cs)"
      "fs \<noteq> [] \<longrightarrow> buffered b3 (consumed b3) = None" by blast
  have "buffered b3 (consumed b3) = None"
    using b3(4) b3(1) b2(5) by (cases fs) auto
  moreover have "take (consumed b) (concat cs) @ d1 @ d2 = take (consumed b3) (concat cs)"
    using b1(3) b2(4) b3(3) by (metis append_assoc)
  moreover have "insert (p, d) got \<union> (\<lambda>(p, d, t). (p, d)) ` set fs = got \<union> (\<lambda>(p, d, t). (p, d)) ` set (f # fs)"
    by (auto simp: f)
  ultimately show ?case using b1(1) b2(1) b3(1,2) by (auto simp: f)
qed

lemma on_track_complete:
  assumes tr: "on_track cs got b" and "set (pieces 0 cs) \<subseteq> got" and "buffered b (consumed b) = None"
  shows "consumed b = length (concat cs)"
proof (rule ccontr)
  assume "consumed b \<noteq> length (concat cs)"
  then have "consumed b < 0 + length (concat cs)" using on_trackD(2)[OF tr] by simp
  then obtain p d where q: "(p, d) \<in> set (pieces 0 cs)" "p \<le> consumed b" "consumed b < p + length d"
    using pieces_cover[of 0 "consumed b" cs] by auto
  with assms(2) have "held p d b" using on_trackD(4)[OF tr q(1)] by blast
  with q assms(3) show False by (auto simp: held_def)
qed

text \<open>
  A stream cut into frames, received in any order and with any repetitions: once every frame has
  arrived, the reader has got exactly the stream.
\<close>

lemma any_order:
  assumes "inv b" and "consumed b = 0" and "buffered b = Map.empty" and "[] \<notin> set cs" and "cs \<noteq> []"
    and "(\<lambda>(p, d, t). (p, d)) ` set fs = set (pieces 0 cs)"
    and "length (concat cs) \<le> room b" and "length (concat cs) + room b < maxOffset" and "length (concat cs) < fuel"
  shows "\<exists>b'. receive_all on_data regions mark fuel fs b = Some (concat cs, b')
     \<and> consumed b' = length (concat cs) \<and> buffered b' = Map.empty"
proof -
  have start: "on_track cs {} b"
    using assms(1-3) by (simp add: on_track_def absent_def)
  have "\<forall>(p, d, t) \<in> set fs. (p, d) \<in> set (pieces 0 cs)"
    using assms(6) by force
  from receive_run[OF start this assms(4,7,8,9)] obtain d b' where
    r: "receive_all on_data regions mark fuel fs b = Some (d, b')"
      "on_track cs ({} \<union> (\<lambda>(p, d, t). (p, d)) ` set fs) b'"
      "take (consumed b) (concat cs) @ d = take (consumed b') (concat cs)"
      "fs \<noteq> [] \<longrightarrow> buffered b' (consumed b') = None" by blast
  have "pieces 0 cs \<noteq> []" using assms(5) by (cases cs) auto
  then have "fs \<noteq> []" using assms(6) by auto
  with r have all: "consumed b' = length (concat cs)"
    using on_track_complete[OF r(2)] assms(6) by simp
  have "buffered b' = Map.empty"
  proof
    fix k
    show "buffered b' k = None"
      using on_trackD(1,3)[OF r(2)] held_ahead[of b' k] all by (cases "buffered b' k") fastforce+
  qed
  with r all assms(2) show ?thesis by simp
qed

end

end
