(* ===== verification/SequencerBuffer.thy ===== *)
theory SequencerBuffer
  imports ReceiveBuffer
begin

text \<open>
  \<open>StreamSequencerBuffer\<close> (\<open>quicrepack/src/net/quic/stream_sequencer_buffer.{h,cc}\<close>), the store the
  streams of the SDK use: a ring of blocks of 8 kB, allocated when bytes arrive for them, and the
  list of the gaps in the received data. Offsets are \<open>uint64_t\<close>: sums wrap around.
\<close>

subsection \<open>State\<close>

definition kBlockSizeBytes :: nat where "kBlockSizeBytes = 8192"

type_synonym gap = "nat \<times> nat" \<comment> \<open>the first offset missing, the first offset after the gap\<close>

record sequencer_buffer =
  max_buffer_capacity_bytes :: nat
  blocks_count :: nat
  total_bytes_read :: nat
  blocks :: "nat \<Rightarrow> (nat \<Rightarrow> char) option" \<comment> \<open>\<open>None\<close>: a null pointer\<close>
  num_bytes_buffered :: nat
  gaps :: "gap list"
  frame_arrival_time_map :: "(nat \<times> nat \<times> int) list" \<comment> \<open>offset, length and time, by offset\<close>

definition StreamSequencerBuffer_new :: "nat \<Rightarrow> sequencer_buffer" where
  "StreamSequencerBuffer_new max_capacity_bytes =
     \<lparr>max_buffer_capacity_bytes = max_capacity_bytes,
      blocks_count = (max_capacity_bytes + kBlockSizeBytes - 1) div kBlockSizeBytes,
      total_bytes_read = 0, blocks = (\<lambda>_. None), num_bytes_buffered = 0,
      gaps = [(0, maxOffset)], frame_arrival_time_map = []\<rparr>"

definition Clear :: "sequencer_buffer \<Rightarrow> sequencer_buffer" where
  "Clear b = b\<lparr>blocks := (\<lambda>i. if i < blocks_count b then None else blocks b i), num_bytes_buffered := 0,
     gaps := [(total_bytes_read b, maxOffset)], frame_arrival_time_map := []\<rparr>"

definition RetireBlock :: "nat \<Rightarrow> sequencer_buffer \<Rightarrow> sequencer_buffer" where
  "RetireBlock idx b = b\<lparr>blocks := (blocks b)(idx := None)\<rparr>"

subsection \<open>Offsets and blocks\<close>

definition GetBlockIndex :: "nat \<Rightarrow> sequencer_buffer \<Rightarrow> nat" where
  "GetBlockIndex offset b = (offset mod max_buffer_capacity_bytes b) div kBlockSizeBytes"

definition GetInBlockOffset :: "nat \<Rightarrow> sequencer_buffer \<Rightarrow> nat" where
  "GetInBlockOffset offset b = (offset mod max_buffer_capacity_bytes b) mod kBlockSizeBytes"

definition ReadOffset :: "sequencer_buffer \<Rightarrow> nat" where
  "ReadOffset b = GetInBlockOffset (total_bytes_read b) b"

definition NextBlockToRead :: "sequencer_buffer \<Rightarrow> nat" where
  "NextBlockToRead b = GetBlockIndex (total_bytes_read b) b"

definition GetBlockCapacity :: "nat \<Rightarrow> sequencer_buffer \<Rightarrow> nat" where
  "GetBlockCapacity block_index b =
     (if block_index + 1 = blocks_count b
      then let result = max_buffer_capacity_bytes b mod kBlockSizeBytes
           in if result = 0 then kBlockSizeBytes else result
      else kBlockSizeBytes)"

definition ReadableBytes :: "sequencer_buffer \<Rightarrow> nat" where
  "ReadableBytes b = u64_sub (fst (hd (gaps b))) (total_bytes_read b)"

definition HasBytesToRead :: "sequencer_buffer \<Rightarrow> bool" where
  "HasBytesToRead b \<longleftrightarrow> 0 < ReadableBytes b"

definition BytesConsumed :: "sequencer_buffer \<Rightarrow> nat" where
  "BytesConsumed b = total_bytes_read b"

definition BytesBuffered :: "sequencer_buffer \<Rightarrow> nat" where
  "BytesBuffered b = num_bytes_buffered b"

definition Empty :: "sequencer_buffer \<Rightarrow> bool" where
  "Empty b \<longleftrightarrow> length (gaps b) = 1 \<and> fst (hd (gaps b)) = total_bytes_read b"

subsection \<open>Data arrives\<close>

definition copy_in :: "nat \<Rightarrow> nat \<Rightarrow> string \<Rightarrow> sequencer_buffer \<Rightarrow> sequencer_buffer" where
  "copy_in idx at_offset bytes b =
     b\<lparr>blocks := (blocks b)(idx := Some (\<lambda>i.
        if at_offset \<le> i \<and> i < at_offset + length bytes then bytes ! (i - at_offset)
        else case blocks b idx of None \<Rightarrow> CHR 0x00 | Some blk \<Rightarrow> blk i))\<rparr>"

text \<open>The copying loop of \<open>OnStreamData\<close>; \<open>None\<close> when a round copies nothing.\<close>

function write_blocks :: "nat \<Rightarrow> string \<Rightarrow> sequencer_buffer \<Rightarrow> sequencer_buffer option" where
  "write_blocks offset source b =
     (if source = [] then Some b else
      let idx = GetBlockIndex offset b;
          write_block_offset = GetInBlockOffset offset b;
          avail = GetBlockCapacity idx b - write_block_offset;
          limit = u64 (total_bytes_read b + max_buffer_capacity_bytes b);
          bytes_avail = (if limit < u64 (offset + avail) then u64_sub limit offset else avail);
          n = min bytes_avail (length source)
      in if n = 0 then None
         else write_blocks (u64 (offset + n)) (drop n source) (copy_in idx write_block_offset (take n source) b))"
  by pat_completeness auto
termination by (relation "measure (\<lambda>(offset, source, b). length source)") auto

text \<open>The gap the data falls into, with the ones before it.\<close>

definition gaps_before :: "nat \<Rightarrow> gap list \<Rightarrow> gap list" where
  "gaps_before offset gs = takeWhile (\<lambda>(_, e). e \<le> offset) gs"

definition gaps_from :: "nat \<Rightarrow> gap list \<Rightarrow> gap list" where
  "gaps_from offset gs = dropWhile (\<lambda>(_, e). e \<le> offset) gs"

definition UpdateGapList :: "nat \<Rightarrow> nat \<Rightarrow> gap \<Rightarrow> gap list" where
  "UpdateGapList start_offset bytes_written g =
     (let (begin_offset, end_offset) = g; stop = u64 (start_offset + bytes_written) in
      if begin_offset = start_offset \<and> stop < end_offset then [(stop, end_offset)]
      else if begin_offset < start_offset \<and> end_offset = stop then [(begin_offset, start_offset)]
      else if begin_offset < start_offset \<and> stop < end_offset
      then [(begin_offset, start_offset), (stop, end_offset)]
      else if begin_offset = start_offset \<and> end_offset = stop then []
      else [g])"

fun arrival_insert :: "nat \<Rightarrow> nat \<times> int \<Rightarrow> (nat \<times> nat \<times> int) list \<Rightarrow> (nat \<times> nat \<times> int) list" where
  "arrival_insert off v [] = [(off, v)]"
| "arrival_insert off v ((k, w) # m) =
     (if off < k then (off, v) # (k, w) # m
      else if off = k then (k, w) # m
      else (k, w) # arrival_insert off v m)"

definition OnStreamData ::
  "nat \<Rightarrow> string \<Rightarrow> int \<Rightarrow> sequencer_buffer \<Rightarrow> (quic_error \<times> nat \<times> sequencer_buffer) option" where
  "OnStreamData starting_offset data timestamp b =
     (if data = [] then Some (QUIC_INVALID_STREAM_FRAME, 0, b)
      else case gaps_from starting_offset (gaps b) of [] \<Rightarrow> None
      | (begin_offset, end_offset) # after \<Rightarrow>
        let stop = u64 (starting_offset + length data) in
        if starting_offset < begin_offset \<and> stop \<le> begin_offset then Some (QUIC_NO_ERROR, 0, b)
        else if starting_offset < begin_offset \<and> begin_offset < stop then Some (QUIC_INVALID_STREAM_DATA, 0, b)
        else if end_offset < stop then Some (QUIC_INVALID_STREAM_DATA, 0, b)
        else if u64 (total_bytes_read b + max_buffer_capacity_bytes b) < stop
        then Some (QUIC_INTERNAL_ERROR, 0, b)
        else (case write_blocks starting_offset data b of None \<Rightarrow> None
          | Some b1 \<Rightarrow> Some (QUIC_NO_ERROR, length data,
              b1\<lparr>gaps := gaps_before starting_offset (gaps b)
                        @ UpdateGapList starting_offset (length data) (begin_offset, end_offset) @ after,
                 frame_arrival_time_map :=
                   arrival_insert starting_offset (length data, timestamp) (frame_arrival_time_map b1),
                 num_bytes_buffered := u64 (num_bytes_buffered b1 + length data)\<rparr>)))"

subsection \<open>Data is read\<close>

definition RetireBlockIfEmpty :: "nat \<Rightarrow> sequencer_buffer \<Rightarrow> sequencer_buffer" where
  "RetireBlockIfEmpty block_index b =
     (if Empty b then RetireBlock block_index b
      else if GetBlockIndex (u64_sub (fst (last (gaps b))) 1) b = block_index then b
      else if NextBlockToRead b = block_index
        \<and> (snd (hd (gaps b)) \<noteq> maxOffset \<or> GetBlockIndex (snd (hd (gaps b))) b = block_index) then b
      else RetireBlock block_index b)"

text \<open>The erasing loop over the frames that start at or before \<open>offset\<close>; what is left of a frame
  read in part is inserted again.\<close>

fun erase_read :: "nat \<Rightarrow> (nat \<times> nat \<times> int) list \<Rightarrow> (nat \<times> nat \<times> int) list \<Rightarrow> (nat \<times> nat \<times> int) list" where
  "erase_read offset [] m = m"
| "erase_read offset ((k, len, t) # rs) m =
     erase_read offset rs
       (if offset < u64 (k + len) \<and> offset \<notin> fst ` set rs
        then arrival_insert offset (u64 (k + len) - offset, t) m else m)"

definition UpdateFrameArrivalMap :: "nat \<Rightarrow> sequencer_buffer \<Rightarrow> sequencer_buffer" where
  "UpdateFrameArrivalMap offset b =
     (let m = frame_arrival_time_map b
      in b\<lparr>frame_arrival_time_map :=
             erase_read offset (takeWhile (\<lambda>(k, _). k \<le> offset) m) (dropWhile (\<lambda>(k, _). k \<le> offset) m)\<rparr>)"

function mark_blocks :: "nat \<Rightarrow> sequencer_buffer \<Rightarrow> sequencer_buffer option" where
  "mark_blocks bytes_to_consume b =
     (if bytes_to_consume = 0 then Some b else
      let block_idx = NextBlockToRead b;
          bytes_available = min (ReadableBytes b) (GetBlockCapacity block_idx b - ReadOffset b);
          bytes_read = min bytes_to_consume bytes_available;
          b1 = b\<lparr>total_bytes_read := u64 (total_bytes_read b + bytes_read),
                 num_bytes_buffered := u64_sub (num_bytes_buffered b) bytes_read\<rparr>
      in if bytes_read = 0 then None
         else mark_blocks (bytes_to_consume - bytes_read)
                (if bytes_available = bytes_read then RetireBlockIfEmpty block_idx b1 else b1))"
  by pat_completeness auto
termination by (relation "measure fst") auto

definition MarkConsumed :: "nat \<Rightarrow> sequencer_buffer \<Rightarrow> (bool \<times> sequencer_buffer) option" where
  "MarkConsumed bytes_used b =
     (if ReadableBytes b < bytes_used then Some (False, b)
      else map_option (\<lambda>b1. (True, if 0 < bytes_used then UpdateFrameArrivalMap (total_bytes_read b1) b1 else b1))
             (mark_blocks bytes_used b))"

definition block_bytes :: "nat \<Rightarrow> nat \<Rightarrow> nat \<Rightarrow> sequencer_buffer \<Rightarrow> string option" where
  "block_bytes idx off len b = map_option (\<lambda>blk. map blk [off ..< off + len]) (blocks b idx)"

text \<open>The whole blocks between the first and the last readable one, as far as the vector reaches.\<close>

fun middle_blocks :: "nat \<Rightarrow> nat \<Rightarrow> nat \<Rightarrow> sequencer_buffer \<Rightarrow> string option list \<times> nat" where
  "middle_blocks 0 idx end_idx b = ([], 0)"
| "middle_blocks (Suc left) idx end_idx b =
     (if idx = end_idx then ([], Suc left)
      else let (rs, l) = middle_blocks left ((idx + 1) mod blocks_count b) end_idx b
           in (block_bytes idx 0 (GetBlockCapacity idx b) b # rs, l))"

definition GetReadableRegions :: "nat \<Rightarrow> sequencer_buffer \<Rightarrow> string list option" where
  "GetReadableRegions iov_count b =
     (if ReadableBytes b = 0 then Some [] else
      let start_idx = NextBlockToRead b;
          readable_offset_end = u64_sub (fst (hd (gaps b))) 1;
          end_block_offset = GetInBlockOffset readable_offset_end b;
          end_idx = GetBlockIndex readable_offset_end b
      in if start_idx = end_idx \<and> ReadOffset b \<le> end_block_offset
         then those [block_bytes start_idx (ReadOffset b) (ReadableBytes b) b]
         else
           let first = block_bytes start_idx (ReadOffset b) (GetBlockCapacity start_idx b - ReadOffset b) b;
               (mid, left) = middle_blocks (iov_count - 1) ((start_idx + 1) mod blocks_count b) end_idx b;
               final = (if 0 < left then [block_bytes end_idx 0 (end_block_offset + 1) b] else [])
           in those (first # mid @ final))"

text \<open>The copying read: the inner loop fills one destination of \<open>dest_remaining\<close> bytes.\<close>

function read_blocks :: "nat \<Rightarrow> sequencer_buffer \<Rightarrow> (string \<times> sequencer_buffer) option" where
  "read_blocks dest_remaining b =
     (if dest_remaining = 0 \<or> ReadableBytes b = 0 then Some ([], b) else
      let block_idx = NextBlockToRead b;
          bytes_available = min (ReadableBytes b) (GetBlockCapacity block_idx b - ReadOffset b);
          bytes_to_copy = min bytes_available dest_remaining;
          b1 = b\<lparr>total_bytes_read := u64 (total_bytes_read b + bytes_to_copy),
                 num_bytes_buffered := u64_sub (num_bytes_buffered b) bytes_to_copy\<rparr>
      in if bytes_to_copy = 0 then None
         else case block_bytes block_idx (ReadOffset b) bytes_to_copy b of None \<Rightarrow> None
         | Some bytes \<Rightarrow> map_option (\<lambda>(d, b'). (bytes @ d, b'))
             (read_blocks (dest_remaining - bytes_to_copy)
                (if bytes_to_copy = bytes_available then RetireBlockIfEmpty block_idx b1 else b1)))"
  by pat_completeness auto
termination by (relation "measure fst") auto

fun read_iovs :: "nat list \<Rightarrow> sequencer_buffer \<Rightarrow> (string list \<times> sequencer_buffer) option" where
  "read_iovs [] b = Some ([], b)"
| "read_iovs (len # lens) b =
     (if ReadableBytes b = 0 then Some ([], b)
      else case read_blocks len b of None \<Rightarrow> None
      | Some (d, b1) \<Rightarrow> map_option (\<lambda>(ds, b2). (d # ds, b2)) (read_iovs lens b1))"

definition Readv :: "nat list \<Rightarrow> sequencer_buffer \<Rightarrow> (string list \<times> sequencer_buffer) option" where
  "Readv dest_lens b =
     map_option (\<lambda>(ds, b1). (ds, if 0 < length (concat ds) then UpdateFrameArrivalMap (total_bytes_read b1) b1 else b1))
       (read_iovs dest_lens b)"

text \<open>The bytes of the first block that arrived at the same time as the next byte. The inner \<open>None\<close>
  stands for \<open>false\<close>: nothing to read.\<close>

fun region_frames :: "nat \<Rightarrow> int \<Rightarrow> nat \<Rightarrow> (nat \<times> nat \<times> int) list \<Rightarrow> nat" where
  "region_frames readable ts region_len [] = readable"
| "region_frames readable ts region_len ((_, len, t) # m) =
     (if region_len + len \<le> readable
      then if t \<noteq> ts then region_len else region_frames readable ts (region_len + len) m
      else if t = ts then readable else region_len)"

definition GetReadableRegion :: "sequencer_buffer \<Rightarrow> (string \<times> int) option option" where
  "GetReadableRegion b =
     (if ReadableBytes b = 0 then Some None
      else case frame_arrival_time_map b of [] \<Rightarrow> None
      | (_, _, timestamp) # _ \<Rightarrow>
        let readable = min (GetBlockCapacity (NextBlockToRead b) b - ReadOffset b) (ReadableBytes b)
        in map_option (\<lambda>r. Some (r, timestamp))
             (block_bytes (NextBlockToRead b) (ReadOffset b)
                (region_frames readable timestamp 0 (frame_arrival_time_map b)) b))"

definition FlushBufferedFrames :: "sequencer_buffer \<Rightarrow> nat \<times> sequencer_buffer" where
  "FlushBufferedFrames b =
     (let b1 = Clear (b\<lparr>total_bytes_read := fst (last (gaps b))\<rparr>)
      in (u64_sub (total_bytes_read b1) (total_bytes_read b), b1))"

declare write_blocks.simps [simp del] mark_blocks.simps [simp del] read_blocks.simps [simp del]

subsection \<open>Positions in the ring\<close>

definition ring_shape :: "sequencer_buffer \<Rightarrow> bool" where
  "ring_shape b \<longleftrightarrow> 0 < max_buffer_capacity_bytes b
     \<and> blocks_count b = (max_buffer_capacity_bytes b + kBlockSizeBytes - 1) div kBlockSizeBytes"

definition cell :: "sequencer_buffer \<Rightarrow> nat \<Rightarrow> char option" where
  "cell b k = map_option (\<lambda>blk. blk (GetInBlockOffset k b)) (blocks b (GetBlockIndex k b))"

lemma block_arith:
  fixes p c K :: nat
  assumes p: "p < c" and K: "0 < K"
    and cap: "cap = (if p div K + 1 = (c + K - 1) div K then if c mod K = 0 then K else c mod K else K)"
  shows "p mod K < cap" and "p + (cap - p mod K) \<le> c"
proof -
  have pe: "p = p div K * K + p mod K" and ce: "c = c div K * K + c mod K" by simp_all
  have rK: "p mod K < K" using K by simp
  have le: "p div K \<le> c div K" using p by (simp add: div_le_mono)
  have n: "(c + K - 1) div K = (if c mod K = 0 then c div K else c div K + 1)"
  proof (cases "c mod K = 0")
    case True
    then have "c + K - 1 = c div K * K + (K - 1)" using K ce by simp
    then have "(c + K - 1) div K = c div K"
      using K by (intro div_nat_eqI) (simp_all add: algebra_simps)
    then show ?thesis using True by simp
  next
    case False
    then have "c + K - 1 = (c div K + 1) * K + (c mod K - 1)" using K ce add_mult_distrib[of "c div K" 1 K] by linarith
    then have "(c + K - 1) div K = c div K + 1"
      using K by (intro div_nat_eqI) (simp_all add: algebra_simps less_imp_diff_less)
    then show ?thesis using False by simp
  qed
  have "p mod K < cap \<and> p + (cap - p mod K) \<le> c"
  proof (cases "p div K = c div K")
    case True
    have "p mod K < c mod K" using p pe[unfolded True] ce by linarith
    moreover have "cap = c mod K" using True cap n rK calculation by (auto split: if_splits)
    ultimately show ?thesis using pe[unfolded True] ce by linarith
  next
    case False
    then have "p div K + 1 \<le> c div K" using le by simp
    then have "(p div K + 1) * K \<le> c div K * K" by (rule mult_le_mono1)
    then have "p div K * K + K \<le> c div K * K" by (simp only: add_mult_distrib mult_1)
    then have "p + (K - p mod K) \<le> c" using pe ce rK by linarith
    moreover have "cap = K" using cap n False by (auto split: if_splits)
    ultimately show ?thesis using rK by simp
  qed
  then show "p mod K < cap" and "p + (cap - p mod K) \<le> c" by blast+
qed

lemma in_block:
  fixes p i K :: nat
  assumes "p mod K + i < K"
  shows "(p + i) div K = p div K" and "(p + i) mod K = p mod K + i"
proof -
  have "p + i = p div K * K + (p mod K + i)" by simp
  moreover have "(p div K * K + (p mod K + i)) div K = p div K"
  proof (rule div_nat_eqI)
    show "K * (p div K) \<le> p div K * K + (p mod K + i)" by (metis le_add1 mult.commute)
    show "p div K * K + (p mod K + i) < K * Suc (p div K)"
    proof -
      have "K * Suc (p div K) = p div K * K + K" by simp
      with assms show ?thesis by linarith
    qed
  qed
  moreover have "(p div K * K + (p mod K + i)) mod K = p mod K + i"
    using mod_mult_self3[of "p div K" K "p mod K + i"] mod_less[OF assms] by metis
  ultimately show "(p + i) div K = p div K" and "(p + i) mod K = p mod K + i" by metis+
qed

lemma mod_window:
  fixes j k c t :: nat
  assumes "t \<le> j" "j < t + c" "t \<le> k" "k < t + c" and "j mod c = k mod c"
  shows "j = k"
proof -
  have "j = k" if "j \<le> k" "t \<le> j" "k < t + c" "j mod c = k mod c" for j k
  proof -
    have "k mod c = j mod c" using that by simp
    then have "c dvd k - j" using that(1) by (simp add: mod_eq_dvd_iff_nat)
    moreover have "k - j < c" using that by linarith
    ultimately have "k - j = 0" using nat_dvd_not_less by blast
    with that show ?thesis by simp
  qed
  from this[of j k] this[of k j] assms show ?thesis by (metis nat_le_linear)
qed

lemma kBlockSizeBytes_pos [simp]: "0 < kBlockSizeBytes"
  by (simp add: kBlockSizeBytes_def)

lemma block_room:
  assumes "ring_shape b"
  shows "GetInBlockOffset k b < GetBlockCapacity (GetBlockIndex k b) b"
    and "k mod max_buffer_capacity_bytes b + (GetBlockCapacity (GetBlockIndex k b) b - GetInBlockOffset k b)
           \<le> max_buffer_capacity_bytes b"
proof -
  have p: "k mod max_buffer_capacity_bytes b < max_buffer_capacity_bytes b"
    and n: "blocks_count b = (max_buffer_capacity_bytes b + kBlockSizeBytes - 1) div kBlockSizeBytes"
    using assms by (simp_all add: ring_shape_def)
  note arith = block_arith[OF p kBlockSizeBytes_pos refl]
  show "GetInBlockOffset k b < GetBlockCapacity (GetBlockIndex k b) b"
    using arith(1) unfolding GetInBlockOffset_def GetBlockIndex_def GetBlockCapacity_def Let_def n .
  show "k mod max_buffer_capacity_bytes b + (GetBlockCapacity (GetBlockIndex k b) b - GetInBlockOffset k b)
           \<le> max_buffer_capacity_bytes b"
    using arith(2) unfolding GetInBlockOffset_def GetBlockIndex_def GetBlockCapacity_def Let_def n .
qed

lemma block_capacity_le: "GetBlockCapacity idx b \<le> kBlockSizeBytes"
  by (simp add: GetBlockCapacity_def Let_def)

text \<open>Within a block, offsets advance one by one.\<close>

lemma within_block:
  assumes "ring_shape b" and "i < GetBlockCapacity (GetBlockIndex k b) b - GetInBlockOffset k b"
  shows "GetBlockIndex (k + i) b = GetBlockIndex k b" and "GetInBlockOffset (k + i) b = GetInBlockOffset k b + i"
proof -
  let ?c = "max_buffer_capacity_bytes b" and ?p = "k mod max_buffer_capacity_bytes b"
  have "?p + i < ?c" using block_room(2)[OF assms(1), of k] assms(2) by linarith
  then have m: "(k + i) mod ?c = ?p + i" by (metis mod_add_left_eq mod_less)
  have "?p mod kBlockSizeBytes + i < kBlockSizeBytes"
    using assms(2) block_capacity_le[of "GetBlockIndex k b" b] unfolding GetInBlockOffset_def by linarith
  note in_block[OF this]
  then show "GetBlockIndex (k + i) b = GetBlockIndex k b"
    and "GetInBlockOffset (k + i) b = GetInBlockOffset k b + i"
    unfolding GetBlockIndex_def GetInBlockOffset_def m by simp_all
qed

text \<open>Two offsets of one window have different places.\<close>

lemma place_inj:
  assumes "t \<le> j" "j < t + max_buffer_capacity_bytes b" "t \<le> k" "k < t + max_buffer_capacity_bytes b"
    and "GetBlockIndex j b = GetBlockIndex k b" and "GetInBlockOffset j b = GetInBlockOffset k b"
  shows "j = k"
proof -
  have "j mod max_buffer_capacity_bytes b = k mod max_buffer_capacity_bytes b"
    using assms(5,6) unfolding GetBlockIndex_def GetInBlockOffset_def by (metis div_mult_mod_eq)
  from mod_window[OF assms(1-4) this] show ?thesis .
qed

subsection \<open>The copying loop\<close>

lemma copy_in_fields [frames]:
  "max_buffer_capacity_bytes (copy_in idx w bs b) = max_buffer_capacity_bytes b"
  "blocks_count (copy_in idx w bs b) = blocks_count b"
  "total_bytes_read (copy_in idx w bs b) = total_bytes_read b"
  "gaps (copy_in idx w bs b) = gaps b"
  "num_bytes_buffered (copy_in idx w bs b) = num_bytes_buffered b"
  "frame_arrival_time_map (copy_in idx w bs b) = frame_arrival_time_map b"
  by (simp_all add: copy_in_def)

lemma place_fields:
  assumes "max_buffer_capacity_bytes b' = max_buffer_capacity_bytes b"
  shows "GetBlockIndex k b' = GetBlockIndex k b" and "GetInBlockOffset k b' = GetInBlockOffset k b"
  using assms by (simp_all add: GetBlockIndex_def GetInBlockOffset_def)

lemma copy_in_blocks:
  "blocks (copy_in idx w bs b) = (blocks b)(idx := Some (\<lambda>i.
     if w \<le> i \<and> i < w + length bs then bs ! (i - w)
     else case blocks b idx of None \<Rightarrow> CHR 0x00 | Some blk \<Rightarrow> blk i))"
  by (simp add: copy_in_def)

lemma copy_in_cell:
  assumes shape: "ring_shape b" and win: "t \<le> off" "off + length bs \<le> t + max_buffer_capacity_bytes b"
    and fit: "length bs \<le> GetBlockCapacity (GetBlockIndex off b) b - GetInBlockOffset off b"
    and k: "t \<le> k" "k < t + max_buffer_capacity_bytes b"
  defines "b' \<equiv> copy_in (GetBlockIndex off b) (GetInBlockOffset off b) bs b"
  shows "off \<le> k \<and> k < off + length bs \<Longrightarrow> cell b' k = Some (bs ! (k - off))"
    and "\<not> (off \<le> k \<and> k < off + length bs) \<Longrightarrow> cell b k \<noteq> None \<Longrightarrow> cell b' k = cell b k"
proof -
  have "max_buffer_capacity_bytes b' = max_buffer_capacity_bytes b" by (simp add: b'_def frames)
  note pl = place_fields[OF this, of k]
  show "cell b' k = Some (bs ! (k - off))" if r: "off \<le> k \<and> k < off + length bs"
  proof -
    have "k - off < GetBlockCapacity (GetBlockIndex off b) b - GetInBlockOffset off b" using fit r by linarith
    from within_block[OF shape this] r
    have "GetBlockIndex k b = GetBlockIndex off b" "GetInBlockOffset k b = GetInBlockOffset off b + (k - off)"
      by simp_all
    with r show ?thesis unfolding cell_def pl by (auto simp: b'_def copy_in_blocks)
  qed
  show "cell b' k = cell b k" if r: "\<not> (off \<le> k \<and> k < off + length bs)" and c: "cell b k \<noteq> None"
  proof -
    have "\<not> (GetInBlockOffset off b \<le> GetInBlockOffset k b \<and> GetInBlockOffset k b < GetInBlockOffset off b + length bs)"
      if idx: "GetBlockIndex k b = GetBlockIndex off b"
    proof
      assume a: "GetInBlockOffset off b \<le> GetInBlockOffset k b \<and> GetInBlockOffset k b < GetInBlockOffset off b + length bs"
      define i where "i = GetInBlockOffset k b - GetInBlockOffset off b"
      have i: "i < length bs" using a by (simp add: i_def less_diff_conv2)
      then have "i < GetBlockCapacity (GetBlockIndex off b) b - GetInBlockOffset off b" using fit by linarith
      note wb = within_block[OF shape this]
      have "GetInBlockOffset off b + i = GetInBlockOffset k b" using a by (simp add: i_def)
      with wb idx have pl: "GetBlockIndex (off + i) b = GetBlockIndex k b" "GetInBlockOffset (off + i) b = GetInBlockOffset k b"
        by simp_all
      have "t \<le> off + i" "off + i < t + max_buffer_capacity_bytes b" using win i by linarith+
      from place_inj[OF this k pl] have "off + i = k" .
      with r i show False by linarith
    qed
    with c show ?thesis unfolding cell_def pl
      by (auto simp: b'_def copy_in_blocks split: option.splits)
  qed
qed

lemma write_blocks_run:
  assumes "ring_shape b" and "total_bytes_read b \<le> off"
    and "off + length source \<le> total_bytes_read b + max_buffer_capacity_bytes b"
    and "total_bytes_read b + max_buffer_capacity_bytes b < 2 ^ 64"
  shows "\<exists>bl. write_blocks off source b = Some (b\<lparr>blocks := bl\<rparr>)
     \<and> (\<forall>k. total_bytes_read b \<le> k \<and> k < total_bytes_read b + max_buffer_capacity_bytes b \<longrightarrow>
         (if off \<le> k \<and> k < off + length source then cell (b\<lparr>blocks := bl\<rparr>) k = Some (source ! (k - off))
          else cell b k \<noteq> None \<longrightarrow> cell (b\<lparr>blocks := bl\<rparr>) k = cell b k))"
  using assms
proof (induction "length source" arbitrary: off source b rule: less_induct)
  case (less source off b)
  let ?t = "total_bytes_read b" and ?c = "max_buffer_capacity_bytes b"
  show ?case
  proof (cases "source = []")
    case True
    then have "write_blocks off source b = Some (b\<lparr>blocks := blocks b\<rparr>)" by (simp add: write_blocks.simps[of off "[]" b])
    moreover have "b\<lparr>blocks := blocks b\<rparr> = b" by simp
    ultimately show ?thesis using True by (intro exI[of _ "blocks b"]) auto
  next
    case False
    define idx w avail where "idx = GetBlockIndex off b" and "w = GetInBlockOffset off b"
      and "avail = GetBlockCapacity idx b - w"
    define n where "n = min (if u64 (?t + ?c) < u64 (off + avail) then u64_sub (u64 (?t + ?c)) off else avail) (length source)"
    define b1 where "b1 = copy_in idx w (take n source) b"
    have avail: "0 < avail" using block_room(1)[OF less.prems(1), of off] by (simp add: avail_def idx_def w_def)
    have len: "0 < length source" using False by simp
    have lim: "u64 (?t + ?c) = ?t + ?c" "u64_sub (?t + ?c) off = ?t + ?c - off"
      using less.prems by simp_all
    have "off < ?t + ?c" using len less.prems(3) by linarith
    then have n0: "n \<noteq> 0" using avail len unfolding n_def lim by simp
    have nle1: "n \<le> length source" unfolding n_def by simp
    have nle2: "n \<le> avail"
    proof (cases "?t + ?c < u64 (off + avail)")
      case True
      then have "?t + ?c < off + avail" using u64_le[of "off + avail"] by (rule less_le_trans)
      then have "?t + ?c - off \<le> avail" by linarith
      with True show ?thesis unfolding n_def lim by (simp add: min.coboundedI1)
    next
      case False
      then show ?thesis unfolding n_def lim by simp
    qed
    note nle = nle1 nle2
    have f: "ring_shape b1" "total_bytes_read b1 = ?t" "max_buffer_capacity_bytes b1 = ?c"
      using less.prems(1) by (simp_all add: b1_def ring_shape_def frames)
    have "write_blocks off source b = (if n = 0 then None else write_blocks (u64 (off + n)) (drop n source) b1)"
      unfolding write_blocks.simps[of off source b] Let_def b1_def n_def avail_def w_def idx_def
      using False by (simp only: if_False)
    moreover have "off + n < 2 ^ 64" using nle1 less.prems(3,4) by linarith
    ultimately have rec: "write_blocks off source b = write_blocks (off + n) (drop n source) b1"
      using n0 by simp
    have shorter: "length (drop n source) < length source" using n0 len by simp
    have pre: "off + n + length (drop n source) = off + length source" using nle1 by simp
    have "\<exists>bl. write_blocks (off + n) (drop n source) b1 = Some (b1\<lparr>blocks := bl\<rparr>)
     \<and> (\<forall>k. total_bytes_read b1 \<le> k \<and> k < total_bytes_read b1 + max_buffer_capacity_bytes b1 \<longrightarrow>
         (if off + n \<le> k \<and> k < off + n + length (drop n source)
          then cell (b1\<lparr>blocks := bl\<rparr>) k = Some (drop n source ! (k - (off + n)))
          else cell b1 k \<noteq> None \<longrightarrow> cell (b1\<lparr>blocks := bl\<rparr>) k = cell b1 k))"
      by (rule less.hyps[OF shorter]) (use less.prems f pre in linarith)+
    then obtain bl where bl: "write_blocks (off + n) (drop n source) b1 = Some (b1\<lparr>blocks := bl\<rparr>)"
      and fin: "\<And>k. ?t \<le> k \<Longrightarrow> k < ?t + ?c \<Longrightarrow>
         (if off + n \<le> k \<and> k < off + length source
          then cell (b1\<lparr>blocks := bl\<rparr>) k = Some (drop n source ! (k - (off + n)))
          else cell b1 k \<noteq> None \<longrightarrow> cell (b1\<lparr>blocks := bl\<rparr>) k = cell b1 k)"
      using nle by (auto simp: f)
    have same: "b1\<lparr>blocks := bl\<rparr> = b\<lparr>blocks := bl\<rparr>" by (simp add: b1_def copy_in_def)
    have step: "off \<le> k \<and> k < off + n \<Longrightarrow> cell b1 k = Some (source ! (k - off))"
      "\<not> (off \<le> k \<and> k < off + n) \<Longrightarrow> cell b k \<noteq> None \<Longrightarrow> cell b1 k = cell b k"
      if "?t \<le> k" "k < ?t + ?c" for k
      using copy_in_cell[OF less.prems(1), of ?t off "take n source" k] that less.prems(2,3) nle
      by (auto simp: b1_def idx_def w_def avail_def)
    have "if off \<le> k \<and> k < off + length source then cell (b\<lparr>blocks := bl\<rparr>) k = Some (source ! (k - off))
          else cell b k \<noteq> None \<longrightarrow> cell (b\<lparr>blocks := bl\<rparr>) k = cell b k"
      if k: "?t \<le> k" "k < ?t + ?c" for k
    proof -
      consider "off \<le> k \<and> k < off + n" | "off + n \<le> k \<and> k < off + length source"
        | "\<not> (off \<le> k \<and> k < off + length source)" by linarith
      then show ?thesis
      proof cases
        case 1
        with step(1)[OF k] fin[OF k] nle show ?thesis by (auto simp: same)
      next
        case 2
        then have "off + n + (k - (off + n)) = k" "n + (k - (off + n)) = k - off" by simp_all
        with 2 fin[OF k] n0 show ?thesis by (auto simp: same)
      next
        case 3
        with step(2)[OF k] fin[OF k] nle show ?thesis by (auto simp: same)
      qed
    qed
    with rec bl same show ?thesis by auto
  qed
qed

subsection \<open>Gaps\<close>

definition missing :: "gap list \<Rightarrow> nat \<Rightarrow> bool" where
  "missing gs k \<longleftrightarrow> (\<exists>(b, e) \<in> set gs. b \<le> k \<and> k < e)"

definition gaps_ok :: "nat \<Rightarrow> gap list \<Rightarrow> bool" where
  "gaps_ok lo gs \<longleftrightarrow> gs \<noteq> [] \<and> snd (last gs) = maxOffset \<and> (\<forall>(b, e) \<in> set gs. lo \<le> b \<and> b < e)
     \<and> sorted_wrt (\<lambda>(b, e) (b', e'). e < b') gs"

lemma missing_simps [simp]:
  "missing [] k = False"
  "missing ((b, e) # gs) k \<longleftrightarrow> b \<le> k \<and> k < e \<or> missing gs k"
  "missing (xs @ ys) k \<longleftrightarrow> missing xs k \<or> missing ys k"
  by (auto simp: missing_def)

lemma gaps_ok_bounds:
  assumes "gaps_ok lo gs" and "(b, e) \<in> set gs"
  shows "lo \<le> b" and "b < e" and "e \<le> maxOffset" and "fst (hd gs) \<le> b" and "b \<le> fst (last gs)"
proof -
  show "lo \<le> b" "b < e" using assms by (auto simp: gaps_ok_def)
  obtain xs ys where gs: "gs = xs @ (b, e) # ys" using assms(2) by (metis split_list)
  have pos: "c < d" if "(c, d) \<in> set gs" for c d using assms(1) that by (auto simp: gaps_ok_def)
  show "e \<le> maxOffset"
  proof (cases ys rule: rev_cases)
    case Nil
    then show ?thesis using assms(1) by (simp add: gaps_ok_def gs)
  next
    case (snoc zs z)
    then have "e < fst z" "snd z = maxOffset" "fst z < snd z"
      using assms(1) pos[of "fst z" "snd z"] by (auto simp: gaps_ok_def gs sorted_wrt_append split: prod.splits)
    then show ?thesis by linarith
  qed
  show "fst (hd gs) \<le> b"
  proof (cases xs)
    case (Cons z zs)
    then have "snd z < b" "fst z < snd z"
      using assms(1) pos[of "fst z" "snd z"] by (auto simp: gaps_ok_def gs sorted_wrt_append split: prod.splits)
    then show ?thesis by (simp add: gs Cons)
  qed (simp add: gs)
  show "b \<le> fst (last gs)"
  proof (cases ys rule: rev_cases)
    case (snoc zs z)
    then have "e < fst z" using assms(1) by (auto simp: gaps_ok_def gs sorted_wrt_append split: prod.splits)
    with snoc pos[OF assms(2)] show ?thesis by (simp add: gs)
  qed (simp add: gs)
qed

lemma gaps_ok_hd: "gaps_ok lo gs \<Longrightarrow> lo \<le> fst (hd gs) \<and> fst (hd gs) < maxOffset \<and> missing gs (fst (hd gs))"
  using gaps_ok_bounds[of lo gs "fst (hd gs)" "snd (hd gs)"]
  by (cases gs) (auto simp: gaps_ok_def)

lemma gaps_ok_last: "gaps_ok lo gs \<Longrightarrow> lo \<le> fst (last gs) \<and> fst (last gs) < maxOffset"
  using gaps_ok_bounds[of lo gs "fst (last gs)" "snd (last gs)"]
  by (cases gs rule: rev_cases) (auto simp: gaps_ok_def)

lemma not_missing_first: "gaps_ok lo gs \<Longrightarrow> k < fst (hd gs) \<Longrightarrow> \<not> missing gs k"
  unfolding missing_def using gaps_ok_bounds(4) by fastforce

lemma missing_beyond: "gaps_ok lo gs \<Longrightarrow> fst (last gs) \<le> k \<Longrightarrow> k < maxOffset \<Longrightarrow> missing gs k"
  unfolding missing_def gaps_ok_def by (intro bexI[of _ "last gs"]) (auto split: prod.splits)

text \<open>The gap found for an offset.\<close>

lemma gap_found:
  assumes ok: "gaps_ok lo gs" and off: "off < maxOffset"
  shows "\<exists>B E ys. gaps_from off gs = (B, E) # ys \<and> gs = gaps_before off gs @ (B, E) # ys \<and> off < E
     \<and> (\<forall>(b, e) \<in> set (gaps_before off gs). e \<le> off)"
proof -
  have "gaps_from off gs \<noteq> []"
    using ok off by (auto simp: gaps_from_def gaps_ok_def dropWhile_eq_Nil_conv intro!: bexI[of _ "last gs"] split: prod.splits)
  then obtain g ys where g: "gaps_from off gs = g # ys" by (cases "gaps_from off gs") auto
  then have "\<not> (\<lambda>(_, e). e \<le> off) g"
    unfolding gaps_from_def by (metis hd_dropWhile list.sel(1) list.distinct(1))
  moreover have "gs = gaps_before off gs @ g # ys"
    using g unfolding gaps_before_def gaps_from_def by (metis takeWhile_dropWhile_id)
  moreover have "\<forall>(b, e) \<in> set (gaps_before off gs). e \<le> off"
    unfolding gaps_before_def using set_takeWhileD by fastforce
  ultimately show ?thesis using g by (cases g) (auto simp: not_le)
qed

lemma UpdateGapList_ok:
  assumes ok: "gaps_ok lo (xs @ (B, E) # ys)" and r: "B \<le> off" "off < stop" "stop \<le> E" "stop < maxOffset"
    and stop: "stop = off + n"
  defines "gs' \<equiv> xs @ UpdateGapList off n (B, E) @ ys"
  shows "gaps_ok lo gs'" and "missing gs' k \<longleftrightarrow> missing (xs @ (B, E) # ys) k \<and> \<not> (off \<le> k \<and> k < stop)"
    and "fst (last gs') = fst (last (xs @ (B, E) # ys)) \<or> fst (last gs') = stop"
proof -
  have u: "u64 (off + n) = stop" using r stop by (simp add: maxOffset_def)
  have sep: "(\<forall>(b, e) \<in> set xs. e < B)" "(\<forall>(b, e) \<in> set ys. E < b)"
    using ok by (auto simp: gaps_ok_def sorted_wrt_append)
  have lst: "ys = [] \<Longrightarrow> E = maxOffset" using ok by (simp add: gaps_ok_def)
  have cases: "UpdateGapList off n (B, E) =
     (if B = off then if stop = E then [] else [(stop, E)]
      else if stop = E then [(B, off)] else [(B, off), (stop, E)])"
    using r by (auto simp: UpdateGapList_def u Let_def)
  show "gaps_ok lo gs'"
    using ok sep lst r unfolding gs'_def cases gaps_ok_def
    by (auto simp: sorted_wrt_append split: if_splits)
  show "missing gs' k \<longleftrightarrow> missing (xs @ (B, E) # ys) k \<and> \<not> (off \<le> k \<and> k < stop)"
    using sep r unfolding gs'_def cases by (auto simp: missing_def split: if_splits)
  show "fst (last gs') = fst (last (xs @ (B, E) # ys)) \<or> fst (last gs') = stop"
    using lst r unfolding gs'_def cases by (auto split: if_splits)
qed

subsection \<open>The abstraction\<close>

definition ring_buffered :: "sequencer_buffer \<Rightarrow> nat \<rightharpoonup> char" where
  "ring_buffered b k =
     (if total_bytes_read b \<le> k \<and> k < fst (last (gaps b)) \<and> \<not> missing (gaps b) k then cell b k else None)"

definition ring_inv :: "sequencer_buffer \<Rightarrow> bool" where
  "ring_inv b \<longleftrightarrow> ring_shape b \<and> gaps_ok (total_bytes_read b) (gaps b)
     \<and> fst (last (gaps b)) \<le> total_bytes_read b + max_buffer_capacity_bytes b
     \<and> (\<forall>k. total_bytes_read b \<le> k \<and> k < fst (last (gaps b)) \<and> \<not> missing (gaps b) k \<longrightarrow> cell b k \<noteq> None)"

lemma ring_invD:
  assumes "ring_inv b"
  shows "ring_shape b" and "gaps_ok (total_bytes_read b) (gaps b)"
    and "fst (last (gaps b)) \<le> total_bytes_read b + max_buffer_capacity_bytes b"
    and "total_bytes_read b \<le> k \<Longrightarrow> k < fst (last (gaps b)) \<Longrightarrow> \<not> missing (gaps b) k \<Longrightarrow> cell b k \<noteq> None"
  using assms by (auto simp: ring_inv_def)

lemma ring_free_missing:
  assumes "ring_inv b" and "ring_buffered b k = None" and "total_bytes_read b \<le> k" and "k < maxOffset"
  shows "missing (gaps b) k"
proof (cases "k < fst (last (gaps b))")
  case True
  with assms ring_invD(4)[OF assms(1), of k] show ?thesis by (auto simp: ring_buffered_def split: if_splits)
next
  case False
  with missing_beyond[OF ring_invD(2)[OF assms(1)] _ assms(4)] show ?thesis by simp
qed

lemma ring_buffered_iff:
  "ring_inv b \<Longrightarrow> ring_buffered b k \<noteq> None \<longleftrightarrow>
     total_bytes_read b \<le> k \<and> k < fst (last (gaps b)) \<and> \<not> missing (gaps b) k"
  using ring_invD(4)[of b k] by (auto simp: ring_buffered_def)

text \<open>Data that lies in a gap is stored, and nothing else changes.\<close>

lemma OnStreamData_stores:
  assumes inv: "ring_inv b" and data: "data \<noteq> []" and lim: "total_bytes_read b + max_buffer_capacity_bytes b < maxOffset"
    and found: "gaps_from off (gaps b) = (B, E) # ys" "gaps b = gaps_before off (gaps b) @ (B, E) # ys"
    and fit: "B \<le> off" "off + length data \<le> E" "off + length data \<le> total_bytes_read b + max_buffer_capacity_bytes b"
  shows "\<exists>b'. OnStreamData off data t b = Some (QUIC_NO_ERROR, length data, b') \<and> ring_inv b'
     \<and> total_bytes_read b' = total_bytes_read b \<and> max_buffer_capacity_bytes b' = max_buffer_capacity_bytes b
     \<and> total_bytes_read b \<le> off \<and> ring_buffered b' = ring_buffered b ++ slice off data"
proof -
  let ?t = "total_bytes_read b" and ?c = "max_buffer_capacity_bytes b"
  let ?stop = "off + length data"
  have len: "0 < length data" using data by simp
  note ok = ring_invD(2)[OF inv]
  have lo: "?t \<le> off" using gaps_ok_bounds(1)[OF ok, of B E] found(2) fit(1) by (metis in_set_conv_decomp le_trans)
  have cap: "?stop < maxOffset" using fit(3) lim by linarith
  have u: "u64 ?stop = ?stop" "u64 (?t + ?c) = ?t + ?c" using cap lim by (simp_all add: maxOffset_def)
  have "?t + ?c < 2 ^ 64" using lim by (simp add: maxOffset_def)
  from write_blocks_run[OF ring_invD(1)[OF inv] lo fit(3) this] obtain bl where
    w: "write_blocks off data b = Some (b\<lparr>blocks := bl\<rparr>)"
    and cells: "\<And>k. ?t \<le> k \<Longrightarrow> k < ?t + ?c \<Longrightarrow>
         (if off \<le> k \<and> k < ?stop then cell (b\<lparr>blocks := bl\<rparr>) k = Some (data ! (k - off))
          else cell b k \<noteq> None \<longrightarrow> cell (b\<lparr>blocks := bl\<rparr>) k = cell b k)"
    by blast
  obtain xs where xs: "gaps_before off (gaps b) = xs" by blast
  have gb: "gaps b = xs @ (B, E) # ys" using found(2) unfolding xs .
  define gs where "gs = xs @ UpdateGapList off (length data) (B, E) @ ys"
  define b' where "b' = b\<lparr>blocks := bl, num_bytes_buffered := u64 (num_bytes_buffered b + length data), gaps := gs,
     frame_arrival_time_map := arrival_insert off (length data, t) (frame_arrival_time_map b)\<rparr>"
  have res: "OnStreamData off data t b = Some (QUIC_NO_ERROR, length data, b')"
    using data found(1) fit u w by (simp add: OnStreamData_def Let_def b'_def gs_def xs)
  have f: "total_bytes_read b' = ?t" "max_buffer_capacity_bytes b' = ?c" "gaps b' = gs" "ring_shape b'"
    using ring_invD(1)[OF inv] by (simp_all add: b'_def ring_shape_def)
  have cell': "cell b' k = cell (b\<lparr>blocks := bl\<rparr>) k" for k
    by (simp add: cell_def b'_def GetBlockIndex_def GetInBlockOffset_def)
  have "off < ?stop" using len by simp
  note upd = UpdateGapList_ok[OF ok[unfolded gb] fit(1) this fit(2) cap refl, folded gs_def gb]
  have lst: "fst (last gs) \<le> ?t + ?c" using upd(3) ring_invD(3)[OF inv] fit(3) by auto
  have lst2: "k < fst (last (gaps b)) \<or> off \<le> k \<and> k < ?stop" if "k < fst (last gs)" "\<not> missing gs k" for k
  proof (rule disjCI)
    assume n: "\<not> (off \<le> k \<and> k < ?stop)"
    show "k < fst (last (gaps b))"
    proof (rule ccontr)
      assume "\<not> k < fst (last (gaps b))"
      moreover have "k < maxOffset" using that(1) gaps_ok_last[OF upd(1)] by simp
      ultimately have "missing (gaps b) k" using missing_beyond[OF ok] by simp
      with upd(2)[of k] n that(2) show False by simp
    qed
  qed
  have held: "cell b' k \<noteq> None" if k: "?t \<le> k" "k < fst (last gs)" "\<not> missing gs k" for k
  proof -
    have kc: "k < ?t + ?c" using k(2) lst by simp
    show ?thesis
    proof (cases "off \<le> k \<and> k < ?stop")
      case True
      with cells[OF k(1) kc] show ?thesis by (simp add: cell')
    next
      case False
      with lst2[OF k(2,3)] upd(2)[of k] k(3) have "k < fst (last (gaps b))" "\<not> missing (gaps b) k" by auto
      from ring_invD(4)[OF inv k(1) this] cells[OF k(1) kc] False show ?thesis by (auto simp: cell')
    qed
  qed
  have "ring_inv b'"
    using f upd(1) lst held by (simp add: ring_inv_def)
  moreover have "ring_buffered b' = ring_buffered b ++ slice off data"
  proof
    fix k
    show "ring_buffered b' k = (ring_buffered b ++ slice off data) k"
    proof (cases "off \<le> k \<and> k < ?stop")
      case True
      then have k: "?t \<le> k" "k < ?t + ?c" using lo fit(3) by linarith+
      have nm: "\<not> missing gs k" using upd(2)[of k] True by simp
      have "k < fst (last gs)"
      proof (rule ccontr)
        assume "\<not> k < fst (last gs)"
        moreover have "k < maxOffset" using True cap by linarith
        ultimately show False using missing_beyond[OF upd(1)] nm by simp
      qed
      with True k nm cells[OF k] show ?thesis by (simp add: ring_buffered_def f cell' slice_def map_add_def)
    next
      case False
      have sl: "slice off data k = None" using False by (auto simp: slice_def)
      have mis: "missing gs k = missing (gaps b) k" using upd(2)[of k] False by auto
      have "k < fst (last gs) \<and> \<not> missing gs k \<longleftrightarrow> k < fst (last (gaps b)) \<and> \<not> missing (gaps b) k"
      proof
        assume "k < fst (last gs) \<and> \<not> missing gs k"
        with lst2[of k] mis False show "k < fst (last (gaps b)) \<and> \<not> missing (gaps b) k" by auto
      next
        assume a: "k < fst (last (gaps b)) \<and> \<not> missing (gaps b) k"
        then have "k < maxOffset" using gaps_ok_last[OF ok] by simp
        with missing_beyond[OF upd(1), of k] a mis show "k < fst (last gs) \<and> \<not> missing gs k"
          by (meson not_le_imp_less)
      qed
      moreover have "cell b' k = cell b k" if "?t \<le> k" "k < fst (last (gaps b)) \<and> \<not> missing (gaps b) k"
      proof -
        have "k < ?t + ?c" using that(2) ring_invD(3)[OF inv] by linarith
        from cells[OF that(1) this] False ring_invD(4)[OF inv that(1)] that(2) show ?thesis by (auto simp: cell')
      qed
      ultimately show ?thesis using sl by (auto simp: ring_buffered_def f map_add_def)
    qed
  qed
  ultimately show ?thesis using res f lo by blast
qed

lemma OnStreamData_law:
  assumes inv: "ring_inv b" and data: "data \<noteq> []" and off: "off + length data < 2 ^ 64"
    and lim: "total_bytes_read b + max_buffer_capacity_bytes b < maxOffset"
  shows "\<exists>e n b'. OnStreamData off data t b = Some (e, n, b') \<and> ring_inv b'
     \<and> total_bytes_read b' = total_bytes_read b \<and> max_buffer_capacity_bytes b' = max_buffer_capacity_bytes b
     \<and> (n = 0 \<and> ring_buffered b' = ring_buffered b
        \<or> e = QUIC_NO_ERROR \<and> n = length data \<and> total_bytes_read b \<le> off
          \<and> ring_buffered b' = ring_buffered b ++ slice off data)"
proof -
  have "off < maxOffset" using off data by (cases data) (auto simp: maxOffset_def)
  from gap_found[OF ring_invD(2)[OF inv] this] obtain B E ys where
    g: "gaps_from off (gaps b) = (B, E) # ys" "gaps b = gaps_before off (gaps b) @ (B, E) # ys" by blast
  have u: "u64 (off + length data) = off + length data"
    "u64 (total_bytes_read b + max_buffer_capacity_bytes b) = total_bytes_read b + max_buffer_capacity_bytes b"
    using off lim by (simp_all add: maxOffset_def)
  show ?thesis
  proof (cases "B \<le> off \<and> off + length data \<le> E \<and> off + length data \<le> total_bytes_read b + max_buffer_capacity_bytes b")
    case True
    then show ?thesis using OnStreamData_stores[OF inv data lim g, of t] by blast
  next
    case False
    then have "\<exists>e. OnStreamData off data t b = Some (e, 0, b)"
      using data g(1) by (auto simp: OnStreamData_def Let_def u)
    with inv show ?thesis by auto
  qed
qed

lemma OnStreamData_accepts:
  assumes inv: "ring_inv b" and data: "data \<noteq> []" and lo: "total_bytes_read b \<le> off"
    and fit: "off + length data \<le> total_bytes_read b + max_buffer_capacity_bytes b"
    and lim: "total_bytes_read b + max_buffer_capacity_bytes b < maxOffset"
    and free: "\<And>k. off \<le> k \<Longrightarrow> k < off + length data \<Longrightarrow> ring_buffered b k = None"
  shows "\<exists>b'. OnStreamData off data t b = Some (QUIC_NO_ERROR, length data, b')"
proof -
  note ok = ring_invD(2)[OF inv]
  have len: "0 < length data" using data by simp
  have miss: "missing (gaps b) k" if "off \<le> k" "k < off + length data" for k
  proof (rule ring_free_missing[OF inv free[OF that]])
    show "total_bytes_read b \<le> k" using lo that by linarith
    show "k < maxOffset" using that fit lim by linarith
  qed
  have "off < maxOffset" using len fit lim by linarith
  from gap_found[OF ok this] obtain B E ys where
    g: "gaps_from off (gaps b) = (B, E) # ys" "gaps b = gaps_before off (gaps b) @ (B, E) # ys" "off < E"
      "\<forall>(c, e) \<in> set (gaps_before off (gaps b)). e \<le> off" by blast
  obtain xs where xs: "gaps_before off (gaps b) = xs" by blast
  have gb: "gaps b = xs @ (B, E) # ys" using g(2) unfolding xs .
  have sep: "E < c" if "(c, e) \<in> set ys" for c e
    using ok that unfolding gb by (auto simp: gaps_ok_def sorted_wrt_append)
  have inside: "B \<le> k \<and> k < E" if k: "off \<le> k" "k < off + length data" "k \<le> E" for k
  proof -
    from miss[OF k(1,2)] obtain c e where ce: "(c, e) \<in> set (gaps b)" "c \<le> k" "k < e" by (auto simp: missing_def)
    then have "(c, e) \<in> set xs \<or> (c, e) = (B, E) \<or> (c, e) \<in> set ys"
      unfolding gb by auto
    then show ?thesis using ce k g(4) sep[of c e] unfolding xs by fastforce
  qed
  have "B \<le> off" using inside[of off] len g(3) by simp
  moreover have "off + length data \<le> E"
  proof (rule ccontr)
    assume "\<not> off + length data \<le> E"
    then show False using inside[of E] g(3) by simp
  qed
  ultimately show ?thesis using OnStreamData_stores[OF inv data lim g(1,2) _ _ fit, of t] by blast
qed

subsection \<open>Reading\<close>

lemma ReadableBytes_eq: "ring_inv b \<Longrightarrow> ReadableBytes b = fst (hd (gaps b)) - total_bytes_read b"
  using gaps_ok_hd[OF ring_invD(2)] by (simp add: ReadableBytes_def)

lemma first_le_last: "gaps_ok lo gs \<Longrightarrow> fst (hd gs) \<le> fst (last gs)"
  using gaps_ok_bounds(4)[of lo gs "fst (last gs)" "snd (last gs)"] last_in_set[of gs]
  by (metis gaps_ok_def prod.collapse)

lemma readable_iff:
  assumes "ring_inv b"
  shows "i < ReadableBytes b \<Longrightarrow> ring_buffered b (total_bytes_read b + i) = cell b (total_bytes_read b + i)"
    and "i < ReadableBytes b \<Longrightarrow> cell b (total_bytes_read b + i) \<noteq> None"
    and "ring_buffered b (total_bytes_read b + ReadableBytes b) = None"
proof -
  note ok = ring_invD(2)[OF assms]
  have r: "total_bytes_read b + ReadableBytes b = fst (hd (gaps b))"
    using gaps_ok_hd[OF ok] by (simp add: ReadableBytes_eq[OF assms])
  show "ring_buffered b (total_bytes_read b + ReadableBytes b) = None"
    using gaps_ok_hd[OF ok] unfolding r by (simp add: ring_buffered_def)
  show "ring_buffered b (total_bytes_read b + i) = cell b (total_bytes_read b + i)"
    and "cell b (total_bytes_read b + i) \<noteq> None" if "i < ReadableBytes b"
  proof -
    have k: "total_bytes_read b + i < fst (hd (gaps b))" using that r by linarith
    then have "\<not> missing (gaps b) (total_bytes_read b + i)" by (rule not_missing_first[OF ok])
    moreover have "total_bytes_read b + i < fst (last (gaps b))" using k first_le_last[OF ok] by linarith
    ultimately show "ring_buffered b (total_bytes_read b + i) = cell b (total_bytes_read b + i)"
      and "cell b (total_bytes_read b + i) \<noteq> None"
      using ring_invD(4)[OF assms, of "total_bytes_read b + i"] by (simp_all add: ring_buffered_def)
  qed
qed

lemma block_bytes_run:
  assumes "ring_shape b" and "0 < len" and "len \<le> GetBlockCapacity (GetBlockIndex k b) b - GetInBlockOffset k b"
    and "\<And>i. i < len \<Longrightarrow> cell b (k + i) \<noteq> None"
  shows "\<exists>r. block_bytes (GetBlockIndex k b) (GetInBlockOffset k b) len b = Some r
     \<and> length r = len \<and> (\<forall>i < len. cell b (k + i) = Some (r ! i))"
proof -
  from assms(4)[of 0] assms(2) obtain blk where blk: "blocks b (GetBlockIndex k b) = Some blk"
    by (auto simp: cell_def)
  have "cell b (k + i) = Some (blk (GetInBlockOffset k b + i))" if "i < len" for i
  proof -
    have "i < GetBlockCapacity (GetBlockIndex k b) b - GetInBlockOffset k b" using that assms(3) by linarith
    from within_block[OF assms(1) this] show ?thesis by (simp add: cell_def blk)
  qed
  then show ?thesis by (auto simp: block_bytes_def blk)
qed

text \<open>With one region asked for, the readable part of the first block is given.\<close>

lemma GetReadableRegions_one:
  assumes inv: "ring_inv b"
  shows "\<exists>rs. GetReadableRegions 1 b = Some rs
     \<and> (if ring_buffered b (total_bytes_read b) = None then rs = []
        else \<exists>r. rs = [r] \<and> r \<noteq> [] \<and> (\<forall>i < length r. ring_buffered b (total_bytes_read b + i) = Some (r ! i)))"
proof (cases "ReadableBytes b = 0")
  case True
  then show ?thesis using readable_iff(3)[OF inv] by (simp add: GetReadableRegions_def)
next
  case False
  let ?t = "total_bytes_read b"
  note shape = ring_invD(1)[OF inv] and ok = ring_invD(2)[OF inv]
  define E where "E = fst (hd (gaps b)) - 1"
  have fst: "?t < fst (hd (gaps b))" using False by (simp add: ReadableBytes_eq[OF inv])
  then have E: "?t \<le> E" "u64_sub (fst (hd (gaps b))) 1 = E" "ReadableBytes b = E - ?t + 1"
    by (auto simp: E_def ReadableBytes_eq[OF inv])
  define room where "room = GetBlockCapacity (NextBlockToRead b) b - ReadOffset b"
  have room: "0 < room" using block_room(1)[OF shape, of ?t] by (simp add: room_def ReadOffset_def NextBlockToRead_def)
  have Ec: "E < ?t + max_buffer_capacity_bytes b"
    using fst first_le_last[OF ok] ring_invD(3)[OF inv] by (simp add: E_def)
  have some: "ring_buffered b ?t \<noteq> None" using readable_iff(1,2)[OF inv, of 0] False by simp
  have one: "\<exists>r. block_bytes (NextBlockToRead b) (ReadOffset b) len b = Some r \<and> r \<noteq> []
      \<and> (\<forall>i < length r. ring_buffered b (?t + i) = Some (r ! i))"
    if "0 < len" "len \<le> room" "len \<le> ReadableBytes b" for len
  proof -
    have "\<And>i. i < len \<Longrightarrow> cell b (?t + i) \<noteq> None" using readable_iff(2)[OF inv] that(3) by fastforce
    from block_bytes_run[OF shape that(1) that(2)[unfolded room_def NextBlockToRead_def ReadOffset_def] this]
    obtain r where r: "block_bytes (NextBlockToRead b) (ReadOffset b) len b = Some r" "length r = len"
      "\<forall>i < len. cell b (?t + i) = Some (r ! i)" by (auto simp: NextBlockToRead_def ReadOffset_def)
    have "\<forall>i < length r. ring_buffered b (?t + i) = Some (r ! i)"
      using r(2,3) readable_iff(1)[OF inv] that(3) by simp
    with r that(1) show ?thesis by auto
  qed
  show ?thesis
  proof (cases "NextBlockToRead b = GetBlockIndex E b \<and> ReadOffset b \<le> GetInBlockOffset E b")
    case True
    define d where "d = GetInBlockOffset E b - GetInBlockOffset ?t b"
    have "GetInBlockOffset E b < GetBlockCapacity (NextBlockToRead b) b"
      using block_room(1)[OF shape, of E] True by simp
    then have d: "d < room" using True unfolding d_def room_def ReadOffset_def by linarith
    have "d < max_buffer_capacity_bytes b"
      using d block_room(2)[OF shape, of ?t] unfolding room_def ReadOffset_def NextBlockToRead_def by linarith
    moreover note wb = within_block[OF shape d[unfolded room_def NextBlockToRead_def ReadOffset_def]]
    moreover have "GetInBlockOffset ?t b + d = GetInBlockOffset E b" using True by (simp add: d_def ReadOffset_def)
    ultimately have "?t + d = E"
      using True E(1) Ec by (intro place_inj[of ?t "?t + d" b E]) (simp_all add: NextBlockToRead_def)
    with d E(3) have "ReadableBytes b \<le> room" by linarith
    from one[OF _ this] False True E(2) some show ?thesis
      by (auto simp: GetReadableRegions_def Let_def)
  next
    case b: False
    have "room \<le> ReadableBytes b"
    proof (rule ccontr)
      assume "\<not> room \<le> ReadableBytes b"
      then have d: "E - ?t < room" using E(3) by linarith
      from within_block[OF shape d[unfolded room_def NextBlockToRead_def ReadOffset_def]] E(1) b
      show False by (simp add: NextBlockToRead_def ReadOffset_def)
    qed
    from one[OF room _ this] b False E(2) some show ?thesis
      by (auto simp: GetReadableRegions_def Let_def room_def)
  qed
qed

text \<open>
  The reader moves on by \<open>n\<close> readable bytes inside the block it reads; retiring that block when
  its end or a gap is reached drops no byte that is still held.
\<close>

definition advance :: "nat \<Rightarrow> sequencer_buffer \<Rightarrow> sequencer_buffer" where
  "advance n b = b\<lparr>total_bytes_read := u64 (total_bytes_read b + n),
                   num_bytes_buffered := u64_sub (num_bytes_buffered b) n\<rparr>"

lemma ring_reach: "ring_inv b \<Longrightarrow> n \<le> ReadableBytes b \<Longrightarrow> total_bytes_read b + n \<le> fst (hd (gaps b))"
  using gaps_ok_hd[OF ring_invD(2), of b] ReadableBytes_eq[of b] by linarith

lemma ring_lt64:
  assumes "ring_inv b" and "n \<le> ReadableBytes b"
  shows "total_bytes_read b + n < 2 ^ 64"
proof -
  have "fst (hd (gaps b)) < 2 ^ 64" using gaps_ok_hd[OF ring_invD(2)[OF assms(1)]] by (simp add: maxOffset_def)
  with ring_reach[OF assms] show ?thesis by (rule le_less_trans)
qed

lemma advance_fields:
  assumes "ring_inv b" and "n \<le> ReadableBytes b"
  shows "total_bytes_read (advance n b) = total_bytes_read b + n"
    and "gaps (advance n b) = gaps b" and "blocks (advance n b) = blocks b"
    and "max_buffer_capacity_bytes (advance n b) = max_buffer_capacity_bytes b"
    and "blocks_count (advance n b) = blocks_count b"
    and "cell (advance n b) k = cell b k"
  using ring_lt64[OF assms]
  by (simp_all add: advance_def cell_def GetBlockIndex_def GetInBlockOffset_def)

lemma gaps_ok_raise: "gaps_ok lo gs \<Longrightarrow> lo' \<le> fst (hd gs) \<Longrightarrow> gaps_ok lo' gs"
  using gaps_ok_bounds(4)[of lo gs] unfolding gaps_ok_def by fastforce

lemma advance_inv:
  assumes "ring_inv b" and "n \<le> ReadableBytes b"
  shows "ring_inv (advance n b)"
    and "ring_buffered (advance n b) = from_offset (total_bytes_read b + n) (ring_buffered b)"
proof -
  note f = advance_fields[OF assms]
  from gaps_ok_raise[OF ring_invD(2)[OF assms(1)] ring_reach[OF assms]] show "ring_inv (advance n b)"
    using ring_invD[OF assms(1)] by (simp add: ring_inv_def ring_shape_def f)
  show "ring_buffered (advance n b) = from_offset (total_bytes_read b + n) (ring_buffered b)"
    by (rule ext) (simp add: ring_buffered_def from_offset_def f)
qed

lemma retire_keeps:
  assumes inv: "ring_inv b" and free: "\<And>k. ring_buffered b k \<noteq> None \<Longrightarrow> GetBlockIndex k b \<noteq> idx"
  shows "ring_inv (RetireBlock idx b)" and "ring_buffered (RetireBlock idx b) = ring_buffered b"
proof -
  have f: "total_bytes_read (RetireBlock idx b) = total_bytes_read b" "gaps (RetireBlock idx b) = gaps b"
    "max_buffer_capacity_bytes (RetireBlock idx b) = max_buffer_capacity_bytes b"
    "blocks_count (RetireBlock idx b) = blocks_count b"
    by (simp_all add: RetireBlock_def)
  have c: "cell (RetireBlock idx b) k = cell b k" if "ring_buffered b k \<noteq> None" for k
    using free[OF that] place_fields[OF f(3), of k] by (simp add: cell_def RetireBlock_def)
  show "ring_buffered (RetireBlock idx b) = ring_buffered b"
  proof
    fix k show "ring_buffered (RetireBlock idx b) k = ring_buffered b k"
      using c[of k] ring_buffered_iff[OF inv, of k] by (auto simp: ring_buffered_def f)
  qed
  show "ring_inv (RetireBlock idx b)"
    using ring_invD[OF inv] c ring_buffered_iff[OF inv] by (simp add: ring_inv_def ring_shape_def f)
qed

text \<open>In a window of one capacity that starts on a block boundary, the block before the start is the
  last one.\<close>

lemma block_before:
  assumes shape: "ring_shape b" and pos: "0 < t" and new: "GetBlockIndex t b \<noteq> GetBlockIndex (t - 1) b"
    and k: "t \<le> k" "k \<le> j" "j < t + max_buffer_capacity_bytes b"
    and idx: "GetBlockIndex k b = GetBlockIndex (t - 1) b"
  shows "GetBlockIndex j b = GetBlockIndex (t - 1) b"
proof -
  let ?c = "max_buffer_capacity_bytes b"
  define e where "e = t - 1 + ?c"
  have c: "0 < ?c" using shape by (simp add: ring_shape_def)
  have e: "GetBlockIndex e b = GetBlockIndex (t - 1) b" "GetInBlockOffset e b = GetInBlockOffset (t - 1) b"
    by (simp_all add: e_def GetBlockIndex_def GetInBlockOffset_def)
  have last: "GetInBlockOffset (t - 1) b + 1 = GetBlockCapacity (GetBlockIndex (t - 1) b) b"
  proof (rule ccontr)
    assume "\<not> ?thesis"
    then have "1 < GetBlockCapacity (GetBlockIndex (t - 1) b) b - GetInBlockOffset (t - 1) b"
      using block_room(1)[OF shape, of "t - 1"] by linarith
    from within_block(1)[OF shape this] pos new show False by simp
  qed
  have rest: "GetInBlockOffset k b + (e - k) < GetBlockCapacity (GetBlockIndex k b) b"
  proof -
    define d where "d = GetInBlockOffset e b - GetInBlockOffset k b"
    have le: "GetInBlockOffset k b \<le> GetInBlockOffset e b"
      using block_room(1)[OF shape, of k] last idx e by simp
    have d: "d < GetBlockCapacity (GetBlockIndex k b) b - GetInBlockOffset k b"
      using last le unfolding d_def idx e(2) by linarith
    have dc: "d < ?c" using d block_room(2)[OF shape, of k] by linarith
    note wb = within_block[OF shape d]
    have "GetBlockIndex (k + d) b = GetBlockIndex e b" "GetInBlockOffset (k + d) b = GetInBlockOffset e b"
      using wb idx e le by (simp_all add: d_def)
    then have m: "(k + d) mod ?c = e mod ?c"
      unfolding GetBlockIndex_def GetInBlockOffset_def by (metis div_mult_mod_eq)
    have ek: "k \<le> e" "e < k + ?c" using k pos c unfolding e_def by linarith+
    have "k + d = e" by (rule mod_window[of k _ ?c, OF _ _ ek m]) (use dc in simp_all)
    with d show ?thesis by simp
  qed
  have "j - k < GetBlockCapacity (GetBlockIndex k b) b - GetInBlockOffset k b"
    using rest k by (simp add: e_def)
  from within_block(1)[OF shape this] k(2) idx show ?thesis by simp
qed

lemma RetireBlockIfEmpty_keeps:
  assumes inv: "ring_inv b" and pos: "0 < total_bytes_read b"
    and reached: "GetBlockIndex (total_bytes_read b) b = GetBlockIndex (total_bytes_read b - 1) b
       \<Longrightarrow> fst (hd (gaps b)) = total_bytes_read b
           \<or> GetBlockIndex (fst (last (gaps b)) - 1) b = GetBlockIndex (total_bytes_read b - 1) b"
  defines "b' \<equiv> RetireBlockIfEmpty (GetBlockIndex (total_bytes_read b - 1) b) b"
  shows "ring_inv b' \<and> ring_buffered b' = ring_buffered b"
proof -
  let ?t = "total_bytes_read b" and ?idx = "GetBlockIndex (total_bytes_read b - 1) b"
  note ok = ring_invD(2)[OF inv] and shape = ring_invD(1)[OF inv]
  have lst: "u64_sub (fst (last (gaps b))) 1 = fst (last (gaps b)) - 1"
    using pos gaps_ok_last[OF ok] by simp
  show ?thesis
  proof (cases "Empty b")
    case True
    then have "gaps b = [hd (gaps b)]" "fst (hd (gaps b)) = ?t" by (auto simp: Empty_def length_Suc_conv)
    then have "fst (last (gaps b)) = ?t" by (metis last_ConsL)
    then have "ring_buffered b k = None" for k by (auto simp: ring_buffered_def)
    then have "ring_inv (RetireBlock ?idx b) \<and> ring_buffered (RetireBlock ?idx b) = ring_buffered b"
      using retire_keeps[OF inv, of ?idx] by simp
    with True show ?thesis by (simp add: b'_def RetireBlockIfEmpty_def)
  next
    case notempty: False
    show ?thesis
    proof (cases "b' = RetireBlock ?idx b")
      case False
      then have "b' = b" using notempty by (auto simp: b'_def RetireBlockIfEmpty_def split: if_splits)
      with inv show ?thesis by simp
    next
      case retired: True
      show ?thesis
      proof (cases "b' = b")
        case True
        with inv show ?thesis by simp
      next
        case False
        then have end_idx: "GetBlockIndex (fst (last (gaps b)) - 1) b \<noteq> ?idx"
          and stay: "\<not> (NextBlockToRead b = ?idx \<and> snd (hd (gaps b)) \<noteq> maxOffset)"
          using notempty by (auto simp: b'_def RetireBlockIfEmpty_def lst[unfolded One_nat_def] split: if_splits)
        have new: "GetBlockIndex ?t b \<noteq> ?idx"
        proof
          assume same: "GetBlockIndex ?t b = ?idx"
          with reached end_idx have "fst (hd (gaps b)) = ?t" by blast
          with notempty have "length (gaps b) \<noteq> 1" by (simp add: Empty_def)
          moreover have "gaps b \<noteq> []" using ok by (simp add: gaps_ok_def)
          ultimately obtain g g2 gs where gs: "gaps b = g # g2 # gs" by (metis length_0_conv length_Suc_conv One_nat_def neq_Nil_conv)
          then have "snd g < fst g2" "fst g2 < snd g2" "snd g2 \<le> maxOffset"
            using ok gaps_ok_bounds(3)[OF ok, of "fst g2" "snd g2"] by (auto simp: gaps_ok_def split: prod.splits)
          with stay same gs show False by (simp add: NextBlockToRead_def)
        qed
        have "GetBlockIndex k b \<noteq> ?idx" if h: "ring_buffered b k \<noteq> None" for k
        proof
          assume idx: "GetBlockIndex k b = ?idx"
          have k: "?t \<le> k" "k < fst (last (gaps b))" using h ring_buffered_iff[OF inv] by auto
          have "GetBlockIndex (fst (last (gaps b)) - 1) b = ?idx"
            using k ring_invD(3)[OF inv] by (intro block_before[OF shape pos new _ _ _ idx]) auto
          with end_idx show False by simp
        qed
        from retire_keeps[OF inv this] show ?thesis by (simp add: retired)
      qed
    qed
  qed
qed

text \<open>Passing the end of a block and staying in it: the ring is that one block.\<close>

lemma single_block:
  assumes shape: "ring_shape b" and pos: "0 < t" and stay: "GetBlockIndex t b = GetBlockIndex (t - 1) b"
    and end_: "GetInBlockOffset (t - 1) b + 1 = GetBlockCapacity (GetBlockIndex (t - 1) b) b"
  shows "GetBlockIndex k b = GetBlockIndex t b"
proof -
  let ?c = "max_buffer_capacity_bytes b" and ?cap = "GetBlockCapacity (GetBlockIndex t b) b"
  have c: "0 < ?c" using shape by (simp add: ring_shape_def)
  define d where "d = ?cap - 1 - GetInBlockOffset t b"
  have cap: "GetInBlockOffset t b < ?cap" using block_room(1)[OF shape] .
  then have d: "d < ?cap - GetInBlockOffset t b" by (simp add: d_def)
  have "GetInBlockOffset t b + d = GetInBlockOffset (t - 1) b"
    using cap end_ by (simp add: d_def stay)
  with within_block[OF shape d] stay
  have "GetBlockIndex (t + d) b = GetBlockIndex (t - 1) b" "GetInBlockOffset (t + d) b = GetInBlockOffset (t - 1) b"
    by simp_all
  then have m: "(t - 1) mod ?c = (t + d) mod ?c"
    unfolding GetBlockIndex_def GetInBlockOffset_def by (metis div_mult_mod_eq)
  have room: "t mod ?c + (?cap - GetInBlockOffset t b) \<le> ?c" using block_room(2)[OF shape] .
  have full: "?c \<le> ?cap - GetInBlockOffset t b"
  proof (rule ccontr)
    assume "\<not> ?thesis"
    then have "t - 1 \<le> t + d" "t + d < t - 1 + ?c" using d pos by linarith+
    moreover have "t - 1 < t - 1 + ?c" using c by linarith
    ultimately have "t - 1 = t + d" using mod_window[OF order_refl _ _ _ m] by blast
    with pos show False by linarith
  qed
  with room have t0: "t mod ?c = 0" by simp
  have "k mod ?c < ?cap - GetInBlockOffset t b" using full mod_less_divisor[OF c, of k] by linarith
  from within_block(1)[OF shape this] have "GetBlockIndex (t + k mod ?c) b = GetBlockIndex t b" .
  moreover have "(t + k mod ?c) mod ?c = k mod ?c" using t0 by (metis add_0 mod_add_left_eq mod_mod_trivial)
  ultimately show ?thesis by (simp add: GetBlockIndex_def)
qed

text \<open>One round of a reading loop.\<close>

definition available :: "sequencer_buffer \<Rightarrow> nat" where
  "available b = min (ReadableBytes b) (GetBlockCapacity (NextBlockToRead b) b - ReadOffset b)"

definition read_step :: "nat \<Rightarrow> sequencer_buffer \<Rightarrow> sequencer_buffer" where
  "read_step m b = (if available b = m then RetireBlockIfEmpty (NextBlockToRead b) (advance m b) else advance m b)"

lemma available_pos: "ring_inv b \<Longrightarrow> 0 < ReadableBytes b \<Longrightarrow> 0 < available b"
  using block_room(1)[OF ring_invD(1), of b "total_bytes_read b"]
  by (simp add: available_def NextBlockToRead_def ReadOffset_def)

lemma read_step_keeps:
  assumes inv: "ring_inv b" and m: "0 < m" "m \<le> available b"
  shows "ring_inv (read_step m b)" and "ring_buffered (read_step m b) = from_offset (total_bytes_read b + m) (ring_buffered b)"
    and "total_bytes_read (read_step m b) = total_bytes_read b + m"
    and "max_buffer_capacity_bytes (read_step m b) = max_buffer_capacity_bytes b"
    and "ReadableBytes (read_step m b) = ReadableBytes b - m"
proof -
  let ?t = "total_bytes_read b"
  note shape = ring_invD(1)[OF inv]
  have mR: "m \<le> ReadableBytes b" using m(2) by (simp add: available_def)
  define b1 where "b1 = advance m b"
  note f = advance_fields[OF inv mR, folded b1_def] and a = advance_inv[OF inv mR, folded b1_def]
  define b2 where "b2 = read_step m b"
  have b2_eq: "b2 = (if available b = m then RetireBlockIfEmpty (NextBlockToRead b) b1 else b1)"
    by (simp add: b2_def read_step_def b1_def)
  have blk: "GetBlockIndex (total_bytes_read b1 - 1) b1 = NextBlockToRead b"
  proof -
    have "m - 1 < GetBlockCapacity (GetBlockIndex ?t b) b - GetInBlockOffset ?t b"
      using m unfolding available_def NextBlockToRead_def ReadOffset_def by linarith
    from within_block(1)[OF shape this] m(1) show ?thesis
      by (simp add: f place_fields[OF f(4)] NextBlockToRead_def)
  qed
  have b2: "ring_inv b2 \<and> ring_buffered b2 = ring_buffered b1"
  proof (cases "available b = m")
    case False
    with a(1) show ?thesis by (simp add: b2_eq)
  next
    case True
    have "fst (hd (gaps b1)) = total_bytes_read b1
       \<or> GetBlockIndex (fst (last (gaps b1)) - 1) b1 = GetBlockIndex (total_bytes_read b1 - 1) b1"
      if stay: "GetBlockIndex (total_bytes_read b1) b1 = GetBlockIndex (total_bytes_read b1 - 1) b1"
    proof (cases "m = ReadableBytes b")
      case True
      then show ?thesis using ReadableBytes_eq[OF inv] gaps_ok_hd[OF ring_invD(2)[OF inv]] by (simp add: f)
    next
      case False
      with \<open>available b = m\<close> have me: "m = GetBlockCapacity (NextBlockToRead b) b - ReadOffset b"
        unfolding available_def by linarith
      have "m - 1 < GetBlockCapacity (GetBlockIndex ?t b) b - GetInBlockOffset ?t b"
        using m(1) me unfolding NextBlockToRead_def ReadOffset_def by linarith
      from within_block(2)[OF shape this]
      have "GetInBlockOffset (?t + m - 1) b = ReadOffset b + (m - 1)"
        using m(1) by (simp add: ReadOffset_def)
      then have off: "GetInBlockOffset (?t + m - 1) b + 1 = GetBlockCapacity (NextBlockToRead b) b"
        using m(1) me by linarith
      have pl: "GetBlockIndex k b1 = GetBlockIndex k b" for k by (rule place_fields(1)[OF f(4)])
      have st: "GetBlockIndex (?t + m) b = GetBlockIndex (?t + m - 1) b" using stay by (simp add: pl f(1))
      have nx: "GetBlockIndex (?t + m - 1) b = NextBlockToRead b" using blk by (simp add: pl f(1))
      have "0 < ?t + m" using m(1) by simp
      from single_block[OF shape this st] off nx
      have "GetBlockIndex k b = GetBlockIndex (?t + m - 1) b" for k using st by simp
      then show ?thesis unfolding pl by metis
    qed
    moreover have "0 < total_bytes_read b1" using m(1) by (simp add: f(1))
    ultimately show ?thesis using RetireBlockIfEmpty_keeps[OF a(1)] True unfolding b2_eq blk by simp
  qed
  have g: "total_bytes_read b2 = ?t + m" "gaps b2 = gaps b" "max_buffer_capacity_bytes b2 = max_buffer_capacity_bytes b"
    using f by (simp_all add: b2_eq RetireBlockIfEmpty_def RetireBlock_def)
  show "ring_inv (read_step m b)" and "ring_buffered (read_step m b) = from_offset (?t + m) (ring_buffered b)"
    using b2 a(2) by (simp_all add: b2_def)
  show "total_bytes_read (read_step m b) = ?t + m"
    and "max_buffer_capacity_bytes (read_step m b) = max_buffer_capacity_bytes b"
    using g by (simp_all add: b2_def)
  show "ReadableBytes (read_step m b) = ReadableBytes b - m"
    using ReadableBytes_eq[OF inv] ReadableBytes_eq[OF conjunct1[OF b2]] unfolding b2_def[symmetric] by (simp add: g)
qed

lemma mark_blocks_step:
  assumes "m = min n (available b)"
  shows "mark_blocks n b = (if n = 0 then Some b else if m = 0 then None else mark_blocks (n - m) (read_step m b))"
  unfolding assms mark_blocks.simps[of n b] Let_def read_step_def advance_def available_def by (rule refl)

lemma mark_blocks_run:
  assumes "ring_inv b" and "n \<le> ReadableBytes b"
  shows "\<exists>b'. mark_blocks n b = Some b' \<and> ring_inv b' \<and> total_bytes_read b' = total_bytes_read b + n
     \<and> max_buffer_capacity_bytes b' = max_buffer_capacity_bytes b
     \<and> ring_buffered b' = from_offset (total_bytes_read b + n) (ring_buffered b)"
  using assms
proof (induction n arbitrary: b rule: less_induct)
  case (less n)
  have same: "ring_buffered b = from_offset (total_bytes_read b) (ring_buffered b)"
    by (rule ext) (simp add: from_offset_def ring_buffered_def)
  show ?case
  proof (cases "n = 0")
    case True
    with less.prems(1) same show ?thesis by (simp add: mark_blocks.simps[of 0 b])
  next
    case False
    define m where "m = min n (available b)"
    have m: "0 < m" "m \<le> available b" "m \<le> n" "m \<le> ReadableBytes b"
      using False less.prems available_pos[OF less.prems(1)] by (auto simp: m_def available_def)
    have unfolded: "mark_blocks n b = mark_blocks (n - m) (read_step m b)"
      using mark_blocks_step[OF m_def] False m(1) by simp
    note k = read_step_keeps[OF less.prems(1) m(1,2)]
    have "n - m \<le> ReadableBytes (read_step m b)" "n - m < n" using less.prems(2) m k(5) by simp_all
    from less.IH[OF this(2) k(1) this(1)] m(3) show ?thesis
      unfolding unfolded k by (auto simp: from_offset_def fun_eq_iff)
  qed
qed

text \<open>A copying read gives what a look at the regions and a mark give.\<close>

lemma read_blocks_run:
  assumes "ring_inv b"
  shows "\<exists>d b'. read_blocks n b = Some (d, b') \<and> mark_blocks (length d) b = Some b' \<and> length d = min n (ReadableBytes b)
     \<and> ring_inv b' \<and> ReadableBytes b' = ReadableBytes b - length d \<and> total_bytes_read b' = total_bytes_read b + length d
     \<and> ring_buffered b' = from_offset (total_bytes_read b + length d) (ring_buffered b)
     \<and> (\<forall>i < length d. ring_buffered b (total_bytes_read b + i) = Some (d ! i))"
  using assms
proof (induction n arbitrary: b rule: less_induct)
  case (less n)
  let ?t = "total_bytes_read b"
  have same: "ring_buffered b = from_offset ?t (ring_buffered b)"
    by (rule ext) (simp add: from_offset_def ring_buffered_def)
  show ?case
  proof (cases "n = 0 \<or> ReadableBytes b = 0")
    case True
    with less.prems same show ?thesis by (auto simp: mark_blocks.simps[of 0 b] read_blocks.simps[of n b])
  next
    case False
    define m where "m = min (available b) n"
    have m: "0 < m" "m \<le> available b" "m \<le> n" "m \<le> ReadableBytes b"
      "m \<le> GetBlockCapacity (NextBlockToRead b) b - ReadOffset b"
      using False available_pos[OF less.prems(1)] by (auto simp: m_def available_def)
    note k = read_step_keeps[OF less.prems(1) m(1,2)]
    have "\<And>i. i < m \<Longrightarrow> cell b (?t + i) \<noteq> None" using readable_iff(2)[OF less.prems] m(4) by fastforce
    from block_bytes_run[OF ring_invD(1)[OF less.prems] m(1) m(5)[unfolded NextBlockToRead_def ReadOffset_def] this]
    obtain r where r: "block_bytes (NextBlockToRead b) (ReadOffset b) m b = Some r" "length r = m"
      "\<forall>i < m. cell b (?t + i) = Some (r ! i)" by (auto simp: NextBlockToRead_def ReadOffset_def)
    have rb: "\<forall>i < m. ring_buffered b (?t + i) = Some (r ! i)"
      using r(3) readable_iff(1)[OF less.prems] m(4) by simp
    have "n - m < n" using m by simp
    from less.IH[OF this k(1)] obtain d b' where d: "read_blocks (n - m) (read_step m b) = Some (d, b')"
      "mark_blocks (length d) (read_step m b) = Some b'" "length d = min (n - m) (ReadableBytes b - m)" "ring_inv b'"
      "ReadableBytes b' = ReadableBytes b - m - length d" "total_bytes_read b' = ?t + m + length d"
      "ring_buffered b' = from_offset (?t + m + length d) (from_offset (?t + m) (ring_buffered b))"
      "\<forall>i < length d. from_offset (?t + m) (ring_buffered b) (?t + m + i) = Some (d ! i)"
      unfolding k by blast
    have "read_blocks n b = (if n = 0 \<or> ReadableBytes b = 0 then Some ([], b) else if m = 0 then None
       else case block_bytes (NextBlockToRead b) (ReadOffset b) m b of None \<Rightarrow> None
         | Some bytes \<Rightarrow> map_option (\<lambda>(d, b'). (bytes @ d, b')) (read_blocks (n - m) (read_step m b)))"
      unfolding read_blocks.simps[of n b] Let_def read_step_def advance_def m_def available_def eq_commute[of "min _ n"]
      by (rule refl)
    then have run: "read_blocks n b = Some (r @ d, b')" using False m(1) d(1) r(1) by simp
    let ?l = "length (r @ d)"
    have len: "?l = min n (ReadableBytes b)" using r(2) d(3) m(3,4) by simp
    have "m = min ?l (available b)" unfolding len m_def available_def by linarith
    from mark_blocks_step[OF this] have mark: "mark_blocks ?l b = Some b'" using m(1) r(2) d(2) by simp
    have "ring_buffered b (?t + i) = Some ((r @ d) ! i)" if "i < ?l" for i
    proof (cases "i < m")
      case True
      with rb r(2) show ?thesis by (simp add: nth_append)
    next
      case False
      then obtain j where j: "i = m + j" by (metis le_add_diff_inverse not_less)
      then show ?thesis using d(8) that r(2) by (auto simp: nth_append from_offset_def add.assoc)
    qed
    moreover have "ring_buffered b' = from_offset (?t + ?l) (ring_buffered b)"
      using d(7) r(2) by (auto simp: from_offset_def fun_eq_iff)
    ultimately show ?thesis using run mark len d(4,5,6) r(2) by auto
  qed
qed

lemma read_iovs_run:
  assumes "ring_inv b"
  shows "\<exists>ds b'. read_iovs lens b = Some (ds, b') \<and> length (concat ds) = min (sum_list lens) (ReadableBytes b)
     \<and> ring_inv b' \<and> total_bytes_read b' = total_bytes_read b + length (concat ds)
     \<and> ring_buffered b' = from_offset (total_bytes_read b + length (concat ds)) (ring_buffered b)
     \<and> (\<forall>i < length (concat ds). ring_buffered b (total_bytes_read b + i) = Some (concat ds ! i))"
  using assms
proof (induction lens arbitrary: b)
  case Nil
  have "ring_buffered b = from_offset (total_bytes_read b) (ring_buffered b)"
    by (rule ext) (simp add: from_offset_def ring_buffered_def)
  with Nil show ?case by simp
next
  case (Cons len lens)
  have same: "ring_buffered b = from_offset (total_bytes_read b) (ring_buffered b)"
    by (rule ext) (simp add: from_offset_def ring_buffered_def)
  show ?case
  proof (cases "ReadableBytes b = 0")
    case True
    with Cons.prems same show ?thesis by simp
  next
    case False
    from read_blocks_run[OF Cons.prems, of len] obtain d b1 where d: "read_blocks len b = Some (d, b1)"
      "length d = min len (ReadableBytes b)" "ring_inv b1" "ReadableBytes b1 = ReadableBytes b - length d"
      "total_bytes_read b1 = total_bytes_read b + length d"
      "ring_buffered b1 = from_offset (total_bytes_read b + length d) (ring_buffered b)"
      "\<forall>i < length d. ring_buffered b (total_bytes_read b + i) = Some (d ! i)" by blast
    from Cons.IH[OF d(3)] obtain ds b' where e: "read_iovs lens b1 = Some (ds, b')"
      "length (concat ds) = min (sum_list lens) (ReadableBytes b1)" "ring_inv b'"
      "total_bytes_read b' = total_bytes_read b1 + length (concat ds)"
      "ring_buffered b' = from_offset (total_bytes_read b1 + length (concat ds)) (ring_buffered b1)"
      "\<forall>i < length (concat ds). ring_buffered b1 (total_bytes_read b1 + i) = Some (concat ds ! i)" by blast
    have "ring_buffered b (total_bytes_read b + i) = Some ((d @ concat ds) ! i)" if "i < length (d @ concat ds)" for i
    proof (cases "i < length d")
      case True
      with d(7) show ?thesis by (simp add: nth_append)
    next
      case False
      then obtain j where "i = length d + j" by (metis le_add_diff_inverse not_less)
      then show ?thesis using e(6) that by (auto simp: d(5,6) nth_append from_offset_def add.assoc)
    qed
    moreover have "ring_buffered b' = from_offset (total_bytes_read b + length (d @ concat ds)) (ring_buffered b)"
      using e(5) by (auto simp: d(5,6) from_offset_def fun_eq_iff)
    moreover have "length (d @ concat ds) = min (sum_list (len # lens)) (ReadableBytes b)"
      unfolding length_append e(2) d(4) d(2) sum_list.Cons by linarith
    ultimately show ?thesis using False d(1,5) e(1,3,4) by simp
  qed
qed

lemma UpdateFrameArrivalMap_keeps:
  "ring_inv (UpdateFrameArrivalMap off b) = ring_inv b" "ring_buffered (UpdateFrameArrivalMap off b) = ring_buffered b"
  "total_bytes_read (UpdateFrameArrivalMap off b) = total_bytes_read b"
  "max_buffer_capacity_bytes (UpdateFrameArrivalMap off b) = max_buffer_capacity_bytes b"
  by (simp_all add: UpdateFrameArrivalMap_def Let_def ring_inv_def ring_shape_def ring_buffered_def fun_eq_iff
      cell_def GetBlockIndex_def GetInBlockOffset_def)

lemma MarkConsumed_run:
  assumes "ring_inv b" and "n \<le> ReadableBytes b"
  shows "\<exists>b'. MarkConsumed n b = Some (True, b') \<and> ring_inv b' \<and> total_bytes_read b' = total_bytes_read b + n
     \<and> max_buffer_capacity_bytes b' = max_buffer_capacity_bytes b
     \<and> ring_buffered b' = from_offset (total_bytes_read b + n) (ring_buffered b)"
proof -
  from mark_blocks_run[OF assms] obtain b1 where "mark_blocks n b = Some b1" "ring_inv b1"
    "total_bytes_read b1 = total_bytes_read b + n" "max_buffer_capacity_bytes b1 = max_buffer_capacity_bytes b"
    "ring_buffered b1 = from_offset (total_bytes_read b + n) (ring_buffered b)" by blast
  with assms(2) show ?thesis
    by (cases "0 < n") (simp_all add: MarkConsumed_def UpdateFrameArrivalMap_keeps)
qed

lemma Readv_run:
  assumes "ring_inv b"
  shows "\<exists>ds b'. Readv lens b = Some (ds, b') \<and> length (concat ds) = min (sum_list lens) (ReadableBytes b)
     \<and> ring_inv b' \<and> total_bytes_read b' = total_bytes_read b + length (concat ds)
     \<and> ring_buffered b' = from_offset (total_bytes_read b + length (concat ds)) (ring_buffered b)
     \<and> (\<forall>i < length (concat ds). ring_buffered b (total_bytes_read b + i) = Some (concat ds ! i))"
proof -
  from read_iovs_run[OF assms, of lens] obtain ds b1 where r: "read_iovs lens b = Some (ds, b1)"
    "length (concat ds) = min (sum_list lens) (ReadableBytes b)" "ring_inv b1"
    "total_bytes_read b1 = total_bytes_read b + length (concat ds)"
    "ring_buffered b1 = from_offset (total_bytes_read b + length (concat ds)) (ring_buffered b)"
    "\<forall>i < length (concat ds). ring_buffered b (total_bytes_read b + i) = Some (concat ds ! i)" by blast
  define b2 where "b2 = (if 0 < length (concat ds) then UpdateFrameArrivalMap (total_bytes_read b1) b1 else b1)"
  have "ring_inv b2 = ring_inv b1" "total_bytes_read b2 = total_bytes_read b1" "ring_buffered b2 = ring_buffered b1"
    by (simp_all add: b2_def UpdateFrameArrivalMap_keeps)
  moreover have "Readv lens b = Some (ds, b2)" by (simp add: Readv_def r(1) b2_def)
  ultimately show ?thesis using r(2-6) by (intro exI[of _ ds] exI[of _ b2]) simp
qed

subsection \<open>The interface\<close>

lemma ring_finite: "finite (dom (ring_buffered b))"
  by (rule finite_subset[of _ "{..< fst (last (gaps b))}"]) (auto simp: ring_buffered_def split: if_splits)

lemma ring_readable_le:
  assumes "ring_inv b" and "\<And>i. i < n \<Longrightarrow> ring_buffered b (total_bytes_read b + i) \<noteq> None"
  shows "n \<le> ReadableBytes b"
  using assms(2)[of "ReadableBytes b"] readable_iff(3)[OF assms(1)] by fastforce

interpretation sb: receive_buffer ring_inv ring_buffered total_bytes_read max_buffer_capacity_bytes
  OnStreamData "GetReadableRegions 1" MarkConsumed
proof unfold_locales
  fix b :: sequencer_buffer and data :: string and off n k :: nat and t :: int
  show "finite (dom (ring_buffered b))" by (rule ring_finite)
  show "ring_inv b \<Longrightarrow> ring_buffered b k \<noteq> None \<Longrightarrow> total_bytes_read b \<le> k"
    using ring_buffered_iff[of b k] by blast
  show "\<lbrakk>ring_inv b; data \<noteq> []; off + length data < 2 ^ 64;
         total_bytes_read b + max_buffer_capacity_bytes b < maxOffset\<rbrakk> \<Longrightarrow>
      \<exists>e n b'. OnStreamData off data t b = Some (e, n, b') \<and> ring_inv b' \<and> total_bytes_read b' = total_bytes_read b
        \<and> max_buffer_capacity_bytes b' = max_buffer_capacity_bytes b
        \<and> (n = 0 \<and> ring_buffered b' = ring_buffered b
           \<or> e = QUIC_NO_ERROR \<and> n = length data \<and> total_bytes_read b \<le> off
             \<and> ring_buffered b' = ring_buffered b ++ slice off data)"
    by (rule OnStreamData_law)
  show "\<lbrakk>ring_inv b; data \<noteq> []; total_bytes_read b \<le> off;
         off + length data \<le> total_bytes_read b + max_buffer_capacity_bytes b;
         total_bytes_read b + max_buffer_capacity_bytes b < maxOffset;
         \<And>k. off \<le> k \<Longrightarrow> k < off + length data \<Longrightarrow> ring_buffered b k = None\<rbrakk> \<Longrightarrow>
      \<exists>b'. OnStreamData off data t b = Some (QUIC_NO_ERROR, length data, b')"
    by (rule OnStreamData_accepts)
  show "ring_inv b \<Longrightarrow> \<exists>rs. GetReadableRegions 1 b = Some rs
        \<and> (if ring_buffered b (total_bytes_read b) = None then rs = []
           else \<exists>r. rs = [r] \<and> r \<noteq> [] \<and> (\<forall>i < length r. ring_buffered b (total_bytes_read b + i) = Some (r ! i)))"
    by (rule GetReadableRegions_one)
  show "\<lbrakk>ring_inv b; \<And>i. i < n \<Longrightarrow> ring_buffered b (total_bytes_read b + i) \<noteq> None\<rbrakk> \<Longrightarrow>
      \<exists>b'. MarkConsumed n b = Some (True, b') \<and> ring_inv b' \<and> total_bytes_read b' = total_bytes_read b + n
        \<and> max_buffer_capacity_bytes b' = max_buffer_capacity_bytes b
        \<and> ring_buffered b' = from_offset (total_bytes_read b + n) (ring_buffered b)"
    by (rule MarkConsumed_run[OF _ ring_readable_le])
qed

lemma StreamSequencerBuffer_new_inv:
  assumes "0 < c" and "c < maxOffset"
  shows "ring_inv (StreamSequencerBuffer_new c)" and "ring_buffered (StreamSequencerBuffer_new c) = Map.empty"
  using assms by (auto simp: ring_inv_def ring_shape_def StreamSequencerBuffer_new_def gaps_ok_def
      ring_buffered_def maxOffset_def fun_eq_iff)

end
