(* ===== verification/FrameList.thy ===== *)
theory FrameList
  imports ReceiveBuffer
begin

text \<open>
  \<open>QuicFrameList\<close> (\<open>quicrepack/src/net/quic/quic_frame_list.{h,cc}\<close>), the other implementation of the
  receive buffer: the frames that arrived, ordered by offset. Its fields have the names of the
  ring's, here with the prefix \<open>fl_\<close>. Both classes satisfy the contract \<open>receive_buffer\<close>, and so both
  hand a reader the bytes of the stream whatever the order of the frames.
\<close>

record frame_data =
  fd_offset :: nat
  fd_segment :: string
  fd_timestamp :: int

record frame_list =
  fl_frame_list :: "frame_data list"
  fl_num_bytes_buffered :: nat
  fl_total_bytes_read :: nat

definition QuicFrameList_new :: frame_list where
  "QuicFrameList_new = \<lparr>fl_frame_list = [], fl_num_bytes_buffered = 0, fl_total_bytes_read = 0\<rparr>"

definition fl_Clear :: "frame_list \<Rightarrow> frame_list" where
  "fl_Clear b = b\<lparr>fl_frame_list := [], fl_num_bytes_buffered := 0\<rparr>"

definition fl_Empty :: "frame_list \<Rightarrow> bool" where
  "fl_Empty b \<longleftrightarrow> fl_frame_list b = []"

definition fd_end :: "frame_data \<Rightarrow> nat" where
  "fd_end f = u64 (fd_offset f + length (fd_segment f))"

text \<open>The insertion point is given by the frames before it and those from it on.\<close>

definition FindInsertionPoint :: "nat \<Rightarrow> frame_list \<Rightarrow> frame_data list \<times> frame_data list" where
  "FindInsertionPoint offset b =
     (let fs = fl_frame_list b in
      if fs = [] then ([], [])
      else if fd_end (last fs) \<le> offset then (fs, [])
      else (takeWhile (\<lambda>f. fd_end f \<le> offset) fs, dropWhile (\<lambda>f. fd_end f \<le> offset) fs))"

definition IsDuplicate :: "nat \<Rightarrow> frame_data list \<Rightarrow> frame_list \<Rightarrow> bool" where
  "IsDuplicate offset insertion_point b \<longleftrightarrow>
     offset < fl_total_bytes_read b
     \<or> (case insertion_point of [] \<Rightarrow> False | f # _ \<Rightarrow> offset = fd_offset f)"

definition FrameOverlapsBufferedData :: "nat \<Rightarrow> nat \<Rightarrow> frame_data list \<Rightarrow> frame_list \<Rightarrow> bool" where
  "FrameOverlapsBufferedData offset data_len insertion_point b \<longleftrightarrow>
     (case insertion_point of [] \<Rightarrow> False
      | f # _ \<Rightarrow> offset < fd_offset f \<and> fd_offset f < u64 (offset + data_len)
                \<or> fd_offset f \<le> offset \<and> offset < fd_end f)"

definition fl_OnStreamData ::
  "nat \<Rightarrow> string \<Rightarrow> int \<Rightarrow> frame_list \<Rightarrow> (quic_error \<times> nat \<times> frame_list) option" where
  "fl_OnStreamData offset data timestamp b =
     Some (let (before, from_here) = FindInsertionPoint offset b in
      if IsDuplicate offset from_here b then (QUIC_NO_ERROR, 0, b)
      else if FrameOverlapsBufferedData offset (length data) from_here b then (QUIC_INVALID_STREAM_DATA, 0, b)
      else (QUIC_NO_ERROR, length data,
            b\<lparr>fl_frame_list := before @ \<lparr>fd_offset = offset, fd_segment = data, fd_timestamp = timestamp\<rparr> # from_here,
              fl_num_bytes_buffered := u64 (fl_num_bytes_buffered b + length data)\<rparr>))"

fun regions_from :: "nat \<Rightarrow> nat \<Rightarrow> frame_data list \<Rightarrow> string list" where
  "regions_from offset 0 fs = []"
| "regions_from offset (Suc n) [] = []"
| "regions_from offset (Suc n) (f # fs) =
     (if fd_offset f \<noteq> offset then []
      else fd_segment f # regions_from (u64 (offset + length (fd_segment f))) n fs)"

definition fl_GetReadableRegions :: "nat \<Rightarrow> frame_list \<Rightarrow> string list" where
  "fl_GetReadableRegions iov_len b = regions_from (fl_total_bytes_read b) iov_len (fl_frame_list b)"

definition fl_GetReadableRegion :: "frame_list \<Rightarrow> (string \<times> int) option" where
  "fl_GetReadableRegion b =
     (case fl_frame_list b of [] \<Rightarrow> None
      | f # _ \<Rightarrow> if fd_offset f \<noteq> fl_total_bytes_read b then None else Some (fd_segment f, fd_timestamp f))"

text \<open>The loop of \<open>MarkConsumed\<close> over the frames; the result is the answer, the new total, the bytes
  still buffered, and the frames left.\<close>

fun consume_frames :: "nat \<Rightarrow> nat \<Rightarrow> nat \<Rightarrow> frame_data list \<Rightarrow> bool \<times> nat \<times> nat \<times> frame_data list" where
  "consume_frames end_offset total_read num [] = (True, total_read, num, [])"
| "consume_frames end_offset total_read num (f # fs) =
     (if end_offset = total_read then (True, total_read, num, f # fs)
      else if fd_offset f \<noteq> total_read then (False, total_read, num, f # fs)
      else if fd_end f \<le> end_offset
      then consume_frames end_offset (u64 (total_read + length (fd_segment f)))
             (u64_sub num (length (fd_segment f))) fs
      else let delta = u64_sub end_offset (fd_offset f); t = u64 (total_read + delta)
           in (True, t, u64_sub num delta,
               \<lparr>fd_offset = t, fd_segment = drop delta (fd_segment f), fd_timestamp = fd_timestamp f\<rparr> # fs))"

definition fl_MarkConsumed :: "nat \<Rightarrow> frame_list \<Rightarrow> (bool \<times> frame_list) option" where
  "fl_MarkConsumed bytes_used b =
     (let (ok, t, num, fs) = consume_frames (u64 (fl_total_bytes_read b + bytes_used)) (fl_total_bytes_read b)
                               (fl_num_bytes_buffered b) (fl_frame_list b)
      in Some (ok, b\<lparr>fl_total_bytes_read := t, fl_num_bytes_buffered := num, fl_frame_list := fs\<rparr>))"

text \<open>The copying read: \<open>iovs\<close> are the bytes left in each destination, \<open>frame_offset\<close> what was copied of
  the first frame.\<close>

function fl_read :: "nat list \<Rightarrow> nat \<Rightarrow> frame_list \<Rightarrow> string \<times> nat \<times> frame_list" where
  "fl_read iovs frame_offset b =
     (case (iovs, fl_frame_list b) of
        (r # rs, f # fs) \<Rightarrow>
          if fd_offset f \<noteq> fl_total_bytes_read b then ([], frame_offset, b) else
          let len = length (fd_segment f);
              bytes_to_read = min r (len - frame_offset);
              bytes = take bytes_to_read (drop frame_offset (fd_segment f));
              iovs' = (if r = bytes_to_read then rs else (r - bytes_to_read) # rs);
              (frame_offset', b') =
                (if len \<le> frame_offset + bytes_to_read
                 then (0, b\<lparr>fl_total_bytes_read := u64 (fl_total_bytes_read b + len),
                           fl_num_bytes_buffered := u64_sub (fl_num_bytes_buffered b) len, fl_frame_list := fs\<rparr>)
                 else (frame_offset + bytes_to_read, b));
              (d, rest) = fl_read iovs' frame_offset' b'
          in (bytes @ d, rest)
      | _ \<Rightarrow> ([], frame_offset, b))"
  by pat_completeness auto
termination
  by (relation "measure (\<lambda>(iovs, _, b). length iovs + length (fl_frame_list b))")
     (auto split: if_splits simp: min_def dest: arg_cong[of "_ # _" _ length])

definition fl_Readv :: "nat list \<Rightarrow> frame_list \<Rightarrow> string \<times> frame_list" where
  "fl_Readv iov b =
     (case fl_read iov 0 b of (d, frame_offset, b1) \<Rightarrow>
       (d, if frame_offset = 0 then b1
           else case fl_frame_list b1 of [] \<Rightarrow> b1
           | f # fs \<Rightarrow> b1\<lparr>fl_frame_list := \<lparr>fd_offset = u64 (fd_offset f + frame_offset),
                        fd_segment = drop frame_offset (fd_segment f), fd_timestamp = fd_timestamp f\<rparr> # fs,
                      fl_total_bytes_read := u64 (fl_total_bytes_read b1 + frame_offset),
                      fl_num_bytes_buffered := u64_sub (fl_num_bytes_buffered b1) frame_offset\<rparr>))"

declare fl_read.simps [simp del]

lemma fl_Readv_example:
  "fl_Readv [3, 4] \<lparr>fl_frame_list = [\<lparr>fd_offset = 0, fd_segment = ''ab'', fd_timestamp = 1\<rparr>,
      \<lparr>fd_offset = 2, fd_segment = ''cdefghi'', fd_timestamp = 2\<rparr>], fl_num_bytes_buffered = 9, fl_total_bytes_read = 0\<rparr>
   = (''abcdefg'', \<lparr>fl_frame_list = [\<lparr>fd_offset = 7, fd_segment = ''hi'', fd_timestamp = 2\<rparr>],
      fl_num_bytes_buffered = 2, fl_total_bytes_read = 7\<rparr>)"
  unfolding fl_Readv_def by (simp add: fl_read.simps u64_sub_def)

definition fl_FlushBufferedFrames :: "frame_list \<Rightarrow> nat \<times> frame_list" where
  "fl_FlushBufferedFrames b =
     (if fl_frame_list b = [] then (0, b)
      else let t = fd_end (last (fl_frame_list b))
           in (u64_sub t (fl_total_bytes_read b), b\<lparr>fl_total_bytes_read := t, fl_frame_list := []\<rparr>))"

definition fl_HasBytesToRead :: "frame_list \<Rightarrow> bool" where
  "fl_HasBytesToRead b \<longleftrightarrow> fl_frame_list b \<noteq> [] \<and> fd_offset (hd (fl_frame_list b)) = fl_total_bytes_read b"

definition fl_BytesConsumed :: "frame_list \<Rightarrow> nat" where
  "fl_BytesConsumed b = fl_total_bytes_read b"

definition fl_BytesBuffered :: "frame_list \<Rightarrow> nat" where
  "fl_BytesBuffered b = fl_num_bytes_buffered b"

subsection \<open>The abstraction\<close>

definition stop_of :: "frame_data \<Rightarrow> nat" where
  "stop_of f = fd_offset f + length (fd_segment f)"

text \<open>What the frames hold.\<close>

definition holds :: "frame_data list \<Rightarrow> nat \<rightharpoonup> char" where
  "holds fs = foldr (\<lambda>f m. m ++ slice (fd_offset f) (fd_segment f)) fs Map.empty"

definition fl_buffered :: "frame_list \<Rightarrow> nat \<rightharpoonup> char" where
  "fl_buffered b = holds (fl_frame_list b)"

definition fl_inv :: "frame_list \<Rightarrow> bool" where
  "fl_inv b \<longleftrightarrow> fl_total_bytes_read b < 2 ^ 64 \<and> (\<forall>f \<in> set (fl_frame_list b). fl_total_bytes_read b \<le> fd_offset f \<and> fd_segment f \<noteq> [] \<and> stop_of f < 2 ^ 64)
     \<and> sorted_wrt (\<lambda>f g. stop_of f \<le> fd_offset g) (fl_frame_list b)"

definition fl_window :: "frame_list \<Rightarrow> nat" where
  "fl_window b = kStreamReceiveWindowLimit"

lemma holds_simps [simp]:
  "holds [] = Map.empty"
  "holds (f # fs) = holds fs ++ slice (fd_offset f) (fd_segment f)"
  by (simp_all add: holds_def)

lemma holds_append: "holds (xs @ ys) = holds ys ++ holds xs"
  by (induction xs) auto

lemma slice_dom: "dom (slice off d) = {off ..< off + length d}"
  by (auto simp: slice_def split: if_splits)

lemma holds_dom: "k \<in> dom (holds fs) \<longleftrightarrow> (\<exists>f \<in> set fs. fd_offset f \<le> k \<and> k < stop_of f)"
  by (induction fs) (auto simp: slice_dom stop_of_def)

lemma holds_None: "holds fs k = None \<longleftrightarrow> (\<forall>f \<in> set fs. k < fd_offset f \<or> stop_of f \<le> k)"
  using holds_dom[of k fs] by (auto simp: domIff not_less not_le)

lemma fl_invD:
  assumes "fl_inv b" and "f \<in> set (fl_frame_list b)"
  shows "fl_total_bytes_read b \<le> fd_offset f" and "fd_segment f \<noteq> []" and "fd_end f = stop_of f"
    and "fd_offset f < stop_of f"
  using assms by (auto simp: fl_inv_def fd_end_def stop_of_def)

lemma fl_buffered_holds: "fl_buffered b = holds (fl_frame_list b)"
  by (rule fl_buffered_def)

text \<open>The insertion point splits the frames at the offset.\<close>

lemma insertion_point:
  assumes "fl_inv b"
  shows "\<exists>xs ys. FindInsertionPoint off b = (xs, ys) \<and> fl_frame_list b = xs @ ys
     \<and> (\<forall>f \<in> set xs. stop_of f \<le> off) \<and> (\<forall>f ys'. ys = f # ys' \<longrightarrow> off < stop_of f)"
proof -
  let ?fs = "fl_frame_list b" and ?P = "\<lambda>f. fd_end f \<le> off"
  have stop: "?P f \<longleftrightarrow> stop_of f \<le> off" if "f \<in> set ?fs" for f
    using fl_invD(3)[OF assms that] by simp
  have all: "takeWhile ?P ?fs = ?fs \<and> dropWhile ?P ?fs = []" if "?fs \<noteq> []" "?P (last ?fs)"
  proof -
    have "?P f" if f: "f \<in> set ?fs" for f
    proof -
      have "f = last ?fs \<or> stop_of f \<le> fd_offset (last ?fs)"
        using f assms \<open>?fs \<noteq> []\<close>
        by (cases ?fs rule: rev_cases) (auto simp: fl_inv_def sorted_wrt_append)
      moreover have "fd_offset (last ?fs) < stop_of (last ?fs)" using fl_invD(4)[OF assms] that(1) \<open>?fs \<noteq> []\<close> last_in_set by blast
      ultimately show ?thesis using stop[of "last ?fs"] stop[OF f] \<open>?P (last ?fs)\<close> \<open>?fs \<noteq> []\<close> by auto
    qed
    then show ?thesis by (simp add: takeWhile_eq_all_conv dropWhile_eq_Nil_conv)
  qed
  have "FindInsertionPoint off b = (takeWhile ?P ?fs, dropWhile ?P ?fs)"
  proof (cases "?fs \<noteq> [] \<and> ?P (last ?fs)")
    case True
    then have w: "takeWhile ?P ?fs = ?fs" "dropWhile ?P ?fs = []" using all by blast+
    show ?thesis unfolding w using True by (simp add: FindInsertionPoint_def)
  qed (auto simp: FindInsertionPoint_def Let_def)
  moreover have "stop_of f \<le> off" if "f \<in> set (takeWhile ?P ?fs)" for f
    using set_takeWhileD[OF that] stop by blast
  moreover have "off < stop_of f" if d: "dropWhile ?P ?fs = f # ys'" for f ys'
  proof -
    have "f \<in> set ?fs" by (metis d list.set_intros(1) set_dropWhileD)
    moreover have "\<not> ?P f" by (metis d hd_dropWhile list.distinct(1) list.sel(1))
    ultimately show ?thesis using stop by simp
  qed
  ultimately show ?thesis by (metis takeWhile_dropWhile_id)
qed

lemma fl_OnStreamData_law:
  assumes inv: "fl_inv b" and data: "data \<noteq> []" and off: "off + length data < 2 ^ 64"
  shows "\<exists>e n b'. fl_OnStreamData off data t b = Some (e, n, b') \<and> fl_inv b'
     \<and> fl_total_bytes_read b' = fl_total_bytes_read b
     \<and> (n = 0 \<and> fl_buffered b' = fl_buffered b
        \<or> e = QUIC_NO_ERROR \<and> n = length data \<and> fl_total_bytes_read b \<le> off
          \<and> fl_buffered b' = fl_buffered b ++ slice off data)"
    and "fl_total_bytes_read b \<le> off \<Longrightarrow> (\<And>k. off \<le> k \<Longrightarrow> k < off + length data \<Longrightarrow> fl_buffered b k = None) \<Longrightarrow>
      \<exists>b'. fl_OnStreamData off data t b = Some (QUIC_NO_ERROR, length data, b')"
proof -
  obtain xs ys where xy: "FindInsertionPoint off b = (xs, ys)" "fl_frame_list b = xs @ ys"
    "\<forall>f \<in> set xs. stop_of f \<le> off" "\<And>f ys'. ys = f # ys' \<Longrightarrow> off < stop_of f"
    using insertion_point[OF inv, of off] by blast
  have u: "u64 (off + length data) = off + length data" using off by simp
  have len: "0 < length data" using data by simp
  define new where "new = \<lparr>fd_offset = off, fd_segment = data, fd_timestamp = t\<rparr>"
  define b1 where "b1 = b\<lparr>fl_frame_list := xs @ new # ys, fl_num_bytes_buffered := u64 (fl_num_bytes_buffered b + length data)\<rparr>"
  define stored where "stored \<longleftrightarrow> \<not> IsDuplicate off ys b \<and> \<not> FrameOverlapsBufferedData off (length data) ys b"
  have res: "fl_OnStreamData off data t b = Some (if IsDuplicate off ys b then (QUIC_NO_ERROR, 0, b)
       else if FrameOverlapsBufferedData off (length data) ys b then (QUIC_INVALID_STREAM_DATA, 0, b)
       else (QUIC_NO_ERROR, length data, b1))"
    by (simp add: fl_OnStreamData_def xy(1) b1_def new_def)
  have later: "off + length data \<le> fd_offset f" if s: stored and f: "f \<in> set ys" for f
  proof -
    obtain g gs where g: "ys = g # gs" using f by (cases ys) auto
    have "g \<in> set (fl_frame_list b)" by (simp add: xy(2) g)
    note gi = fl_invD[OF inv this]
    have "off + length data \<le> fd_offset g"
      using s xy(4)[OF g] gi(3)
      unfolding stored_def g IsDuplicate_def FrameOverlapsBufferedData_def u by auto
    moreover have "f = g \<or> stop_of g \<le> fd_offset f"
      using inv f by (auto simp: fl_inv_def xy(2) g sorted_wrt_append)
    ultimately show ?thesis using gi(4) by auto
  qed
  have lo: "fl_total_bytes_read b \<le> off" if stored using that by (auto simp: stored_def IsDuplicate_def)
  have st: "stop_of new = off + length data" by (simp add: new_def stop_of_def)
  have b1: "fl_inv b1 \<and> fl_buffered b1 = fl_buffered b ++ slice off data" if s: stored
  proof
    show "fl_inv b1"
      using inv xy(3) later[OF s] lo[OF s] data off
      by (auto simp: fl_inv_def b1_def xy(2) sorted_wrt_append st) (auto simp: new_def)
    have "holds xs ++ slice off data = slice off data ++ holds xs"
    proof (rule map_add_comm)
      show "dom (holds xs) \<inter> dom (slice off data) = {}"
      proof (rule ccontr)
        assume "\<not> ?thesis"
        then obtain k where "k \<in> dom (holds xs)" "off \<le> k"
          unfolding slice_dom by (metis IntE all_not_in_conv atLeastLessThan_iff)
        with xy(3) show False by (auto simp only: holds_dom)
      qed
    qed
    then show "fl_buffered b1 = fl_buffered b ++ slice off data"
      by (simp add: fl_buffered_holds b1_def xy(2) holds_append new_def) (simp flip: map_add_assoc)
  qed
  show "\<exists>e n b'. fl_OnStreamData off data t b = Some (e, n, b') \<and> fl_inv b'
     \<and> fl_total_bytes_read b' = fl_total_bytes_read b
     \<and> (n = 0 \<and> fl_buffered b' = fl_buffered b
        \<or> e = QUIC_NO_ERROR \<and> n = length data \<and> fl_total_bytes_read b \<le> off
          \<and> fl_buffered b' = fl_buffered b ++ slice off data)"
  proof (cases stored)
    case True
    then have "fl_OnStreamData off data t b = Some (QUIC_NO_ERROR, length data, b1)"
      by (simp add: res stored_def)
    with b1[OF True] lo[OF True] show ?thesis by (auto simp: b1_def)
  next
    case False
    then have "\<exists>e. fl_OnStreamData off data t b = Some (e, 0, b)"
      unfolding res stored_def by (cases "IsDuplicate off ys b") simp_all
    with inv show ?thesis by auto
  qed
  show "\<exists>b'. fl_OnStreamData off data t b = Some (QUIC_NO_ERROR, length data, b')"
    if "fl_total_bytes_read b \<le> off" and free: "\<And>k. off \<le> k \<Longrightarrow> k < off + length data \<Longrightarrow> fl_buffered b k = None"
  proof -
    have behind: "off + length data \<le> fd_offset g" if g: "ys = g # gs" for g gs
    proof (rule ccontr)
      assume n: "\<not> ?thesis"
      define k where "k = max off (fd_offset g)"
      have gm: "g \<in> set (fl_frame_list b)" by (simp add: xy(2) g)
      have "off \<le> k" "k < off + length data" "fd_offset g \<le> k" "k < stop_of g"
        using n len xy(4)[OF g] fl_invD(4)[OF inv gm] by (auto simp: k_def)
      with free[of k] gm show False unfolding fl_buffered_holds holds_None by fastforce
    qed
    have stored
    proof (cases ys)
      case Nil
      with that(1) show ?thesis by (simp add: stored_def IsDuplicate_def FrameOverlapsBufferedData_def)
    next
      case (Cons g gs)
      have "off < fd_offset g" using behind[OF Cons] len by linarith
      with behind[OF Cons] that(1) show ?thesis
        by (simp add: stored_def IsDuplicate_def FrameOverlapsBufferedData_def Cons u)
    qed
    then show ?thesis by (simp add: res stored_def)
  qed
qed

subsection \<open>Reading\<close>

lemma from_offset_holds: "(\<And>f. f \<in> set fs \<Longrightarrow> c \<le> fd_offset f) \<Longrightarrow> from_offset c (holds fs) = holds fs"
proof
  fix k
  assume "\<And>f. f \<in> set fs \<Longrightarrow> c \<le> fd_offset f"
  then have "k < c \<Longrightarrow> holds fs k = None" unfolding holds_None by fastforce
  then show "from_offset c (holds fs) k = holds fs k" by (simp add: from_offset_def)
qed

definition frames_ok :: "nat \<Rightarrow> frame_data list \<Rightarrow> bool" where
  "frames_ok t fs \<longleftrightarrow> (\<forall>f \<in> set fs. t \<le> fd_offset f \<and> fd_segment f \<noteq> [] \<and> stop_of f < 2 ^ 64)
     \<and> sorted_wrt (\<lambda>f g. stop_of f \<le> fd_offset g) fs"

lemma fl_inv_frames: "fl_inv b \<longleftrightarrow> fl_total_bytes_read b < 2 ^ 64 \<and> frames_ok (fl_total_bytes_read b) (fl_frame_list b)"
  by (simp add: fl_inv_def frames_ok_def)

lemma frames_ok_Cons:
  "frames_ok t (f # fs) \<longleftrightarrow> t \<le> fd_offset f \<and> fd_segment f \<noteq> [] \<and> stop_of f < 2 ^ 64
     \<and> (\<forall>g \<in> set fs. stop_of f \<le> fd_offset g) \<and> frames_ok t fs"
  by (auto simp: frames_ok_def)

lemma frames_ok_raise: "frames_ok t fs \<Longrightarrow> (\<And>f. f \<in> set fs \<Longrightarrow> t' \<le> fd_offset f) \<Longrightarrow> frames_ok t' fs"
  by (auto simp: frames_ok_def)

text \<open>If the next byte is held, the first frame starts with it.\<close>

lemma first_frame:
  assumes "frames_ok t (f # fs)" and "holds (f # fs) t \<noteq> None"
  shows "fd_offset f = t"
proof -
  obtain g where g: "g \<in> set (f # fs)" "fd_offset g \<le> t" "t < stop_of g"
    using assms(2) unfolding holds_None by (auto simp: not_less not_le)
  have f: "t \<le> fd_offset f" "fd_offset f < stop_of f" using assms(1) by (auto simp: frames_ok_Cons stop_of_def)
  show ?thesis
  proof (cases "g = f")
    case True
    with g f show ?thesis by simp
  next
    case False
    with g(1) assms(1) have "stop_of f \<le> fd_offset g" by (auto simp: frames_ok_Cons)
    with g f show ?thesis by simp
  qed
qed

lemma consume_frames_run:
  assumes "frames_ok t fs" and "t \<le> e" and "\<And>k. t \<le> k \<Longrightarrow> k < e \<Longrightarrow> holds fs k \<noteq> None"
  shows "\<exists>num' fs'. consume_frames e t num fs = (True, e, num', fs') \<and> frames_ok e fs'
     \<and> holds fs' = from_offset e (holds fs)"
  using assms
proof (induction fs arbitrary: t num)
  case Nil
  then have "t = e" using Nil.prems(3)[of t] by (cases "t < e") auto
  then show ?case by (auto simp: frames_ok_def from_offset_def fun_eq_iff)
next
  case (Cons f fs)
  have fr: "t \<le> fd_offset f" "fd_segment f \<noteq> []" "stop_of f < 2 ^ 64" "\<And>g. g \<in> set fs \<Longrightarrow> stop_of f \<le> fd_offset g"
    "frames_ok t fs" using Cons.prems(1) by (auto simp: frames_ok_Cons)
  show ?case
  proof (cases "e = t")
    case True
    have "from_offset t (holds (f # fs)) = holds (f # fs)"
      by (rule from_offset_holds) (use Cons.prems(1) in \<open>auto simp: frames_ok_def\<close>)
    with True Cons.prems(1) show ?thesis by (simp del: holds_simps)
  next
    case False
    then have "t < e" using Cons.prems(2) by simp
    then have off: "fd_offset f = t" using first_frame[OF Cons.prems(1)] Cons.prems(3)[of t] by simp
    have stop: "stop_of f = t + length (fd_segment f)" "fd_end f = stop_of f" "u64 (t + length (fd_segment f)) = stop_of f"
      using fr(3) off by (simp_all add: stop_of_def fd_end_def)
    show ?thesis
    proof (cases "stop_of f \<le> e")
      case True
      have "holds fs k \<noteq> None" if "stop_of f \<le> k" "k < e" for k
        using Cons.prems(3)[of k] that stop(1) off by (auto simp: map_add_def slice_def split: if_splits)
      from Cons.IH[OF frames_ok_raise[OF fr(5) fr(4)] True this, of "u64_sub num (length (fd_segment f))"]
      obtain num' fs' where r: "consume_frames e (stop_of f) (u64_sub num (length (fd_segment f))) fs = (True, e, num', fs')"
        "frames_ok e fs'" "holds fs' = from_offset e (holds fs)" by blast
      have "from_offset e (holds fs) = from_offset e (holds (f # fs))"
        using True stop(1) off by (auto simp: from_offset_def map_add_def slice_def fun_eq_iff)
      with r False off True stop show ?thesis by auto
    next
      case part: False
      define f' where "f' = \<lparr>fd_offset = e, fd_segment = drop (e - t) (fd_segment f), fd_timestamp = fd_timestamp f\<rparr>"
      have e64: "u64 (t + (e - t)) = e" using part fr(3) \<open>t < e\<close> by simp
      have res: "consume_frames e t num (f # fs) = (True, e, u64_sub num (e - t), f' # fs)"
        using False off part stop \<open>t < e\<close> e64 by (simp add: f'_def Let_def)
      have st': "stop_of f' = stop_of f" using part stop(1) \<open>t < e\<close> by (simp add: f'_def stop_of_def)
      have ok: "frames_ok e (f' # fs)"
      proof -
        have "frames_ok e fs" by (rule frames_ok_raise[OF fr(5)]) (use part fr(4) in force)
        moreover have "fd_segment f' \<noteq> []" using part stop(1) \<open>t < e\<close> by (simp add: f'_def)
        ultimately show ?thesis using fr st' by (simp add: frames_ok_Cons) (simp add: f'_def)
      qed
      have "holds fs k = None" if "k < stop_of f" for k
        using fr(4) that by (fastforce simp: holds_None)
      then have "holds (f' # fs) = from_offset e (holds (f # fs))"
        using part stop(1) off \<open>t < e\<close>
        by (auto simp: from_offset_def map_add_def slice_def f'_def fun_eq_iff add_diff_assoc2)
      with res ok show ?thesis by blast
    qed
  qed
qed

interpretation fl: receive_buffer fl_inv fl_buffered fl_total_bytes_read fl_window
  fl_OnStreamData "\<lambda>b. Some (fl_GetReadableRegions 1 b)" fl_MarkConsumed
proof unfold_locales
  fix b :: frame_list and data :: string and off n k :: nat and t :: int
  show "finite (dom (fl_buffered b))"
  proof -
    have "dom (holds fs) \<subseteq> (\<Union>f \<in> set fs. {fd_offset f ..< stop_of f})" for fs
    proof
      fix k assume "k \<in> dom (holds fs)"
      then obtain f where "f \<in> set fs" "fd_offset f \<le> k" "k < stop_of f" unfolding holds_dom by blast
      then show "k \<in> (\<Union>f \<in> set fs. {fd_offset f ..< stop_of f})" by auto
    qed
    then show ?thesis unfolding fl_buffered_holds by (rule finite_subset) simp
  qed
  show "fl_total_bytes_read b \<le> k" if "fl_inv b" "fl_buffered b k \<noteq> None"
    using that unfolding fl_buffered_holds holds_None fl_inv_def by fastforce
  show "\<lbrakk>fl_inv b; data \<noteq> []; off + length data < 2 ^ 64; fl_total_bytes_read b + fl_window b < maxOffset\<rbrakk> \<Longrightarrow>
      \<exists>e n b'. fl_OnStreamData off data t b = Some (e, n, b') \<and> fl_inv b'
        \<and> fl_total_bytes_read b' = fl_total_bytes_read b \<and> fl_window b' = fl_window b
        \<and> (n = 0 \<and> fl_buffered b' = fl_buffered b
           \<or> e = QUIC_NO_ERROR \<and> n = length data \<and> fl_total_bytes_read b \<le> off
             \<and> fl_buffered b' = fl_buffered b ++ slice off data)"
    using fl_OnStreamData_law(1)[of b data off t] by (simp add: fl_window_def)
  show "\<exists>b'. fl_OnStreamData off data t b = Some (QUIC_NO_ERROR, length data, b')"
    if "fl_inv b" "data \<noteq> []" "fl_total_bytes_read b \<le> off" "off + length data \<le> fl_total_bytes_read b + fl_window b"
      "fl_total_bytes_read b + fl_window b < maxOffset"
      "\<And>k. off \<le> k \<Longrightarrow> k < off + length data \<Longrightarrow> fl_buffered b k = None"
  proof -
    have "off + length data < 2 ^ 64" using that(4,5) by (simp add: maxOffset_def)
    from fl_OnStreamData_law(2)[OF that(1,2) this that(3,6)] show ?thesis by blast
  qed
  show "\<exists>rs. Some (fl_GetReadableRegions 1 b) = Some rs
        \<and> (if fl_buffered b (fl_total_bytes_read b) = None then rs = []
           else \<exists>r. rs = [r] \<and> r \<noteq> [] \<and> (\<forall>i < length r. fl_buffered b (fl_total_bytes_read b + i) = Some (r ! i)))"
    if inv: "fl_inv b"
  proof (cases "fl_frame_list b")
    case Nil
    then show ?thesis by (simp add: fl_GetReadableRegions_def fl_buffered_holds)
  next
    case (Cons f fs)
    have ok: "frames_ok (fl_total_bytes_read b) (f # fs)" using inv by (simp add: fl_inv_frames Cons)
    show ?thesis
    proof (cases "fd_offset f = fl_total_bytes_read b")
      case True
      then have "fl_GetReadableRegions 1 b = [fd_segment f]" "fd_segment f \<noteq> []"
        using ok by (simp_all add: fl_GetReadableRegions_def Cons frames_ok_Cons)
      moreover have "fl_buffered b (fl_total_bytes_read b + i) = Some (fd_segment f ! i)" if "i < length (fd_segment f)" for i
        using True that by (simp add: fl_buffered_holds Cons slice_def)
      ultimately show ?thesis using that by (metis add_0_right length_greater_0_conv option.distinct(1))
    next
      case False
      then have "fl_buffered b (fl_total_bytes_read b) = None"
        using first_frame[OF ok] unfolding fl_buffered_holds Cons by blast
      with False show ?thesis by (simp add: fl_GetReadableRegions_def Cons)
    qed
  qed
  show "\<exists>b'. fl_MarkConsumed n b = Some (True, b') \<and> fl_inv b' \<and> fl_total_bytes_read b' = fl_total_bytes_read b + n
        \<and> fl_window b' = fl_window b \<and> fl_buffered b' = from_offset (fl_total_bytes_read b + n) (fl_buffered b)"
    if inv: "fl_inv b" and held: "\<And>i. i < n \<Longrightarrow> fl_buffered b (fl_total_bytes_read b + i) \<noteq> None"
  proof -
    let ?t = "fl_total_bytes_read b"
    have all: "holds (fl_frame_list b) k \<noteq> None" if "?t \<le> k" "k < ?t + n" for k
      using held[of "k - ?t"] that by (simp add: fl_buffered_holds)
    have lt: "?t + n < 2 ^ 64"
    proof (cases "n = 0")
      case True
      with inv show ?thesis by (simp add: fl_inv_def)
    next
      case False
      then have "holds (fl_frame_list b) (?t + n - 1) \<noteq> None" using all[of "?t + n - 1"] by simp
      then obtain f where f: "f \<in> set (fl_frame_list b)" "?t + n - 1 < stop_of f" by (auto simp: holds_None not_less not_le)
      then have "stop_of f < 2 ^ 64" using inv by (auto simp: fl_inv_def)
      with f(2) False show ?thesis by linarith
    qed
    from consume_frames_run[of ?t "fl_frame_list b" "?t + n" "fl_num_bytes_buffered b"] inv all
    obtain num' fs' where r: "consume_frames (?t + n) ?t (fl_num_bytes_buffered b) (fl_frame_list b) = (True, ?t + n, num', fs')"
      "frames_ok (?t + n) fs'" "holds fs' = from_offset (?t + n) (holds (fl_frame_list b))"
      by (auto simp: fl_inv_frames)
    with lt show ?thesis
      by (simp add: fl_MarkConsumed_def fl_inv_frames fl_buffered_holds fl_window_def)
  qed
qed

end
