(* ===== verification/FlowControl.thy ===== *)
theory FlowControl
  imports ReceiveBuffer
begin

text \<open>
  \<open>QuicFlowController\<close> (\<open>quicrepack/src/net/quic/quic_flow_controller.{h,cc}\<close>): how far the two sides of a
  stream, or of the whole connection, may run ahead of each other. Offsets and sizes are \<open>uint64_t\<close>
  and wrap around; times are microseconds. The flag \<open>quic_auto_tune_receive_window\<close> has its value
  in \<open>quic_flags.cc\<close>, true. What the controller asks of the connection is a list of effects.
\<close>

definition kConnectionLevelId :: nat where "kConnectionLevelId = 0"
definition kSessionReceiveWindowLimit :: nat where "kSessionReceiveWindowLimit = 24 * 1024 * 1024"

record flow_controller =
  fc_id :: nat
  fc_bytes_sent :: nat
  send_window_offset :: nat
  fc_bytes_consumed :: nat
  highest_received_byte_offset :: nat
  receive_window_offset :: nat
  receive_window_size :: nat
  receive_window_size_limit :: nat
  auto_tune_receive_window :: bool
  last_blocked_send_window_offset :: nat
  prev_window_update_time :: int \<comment> \<open>0: not initialized\<close>

datatype flow_effect =
    SendWindowUpdate nat nat \<comment> \<open>stream, new offset\<close>
  | SendBlocked nat
  | CloseSentTooMuch

definition QuicFlowController_new :: "nat \<Rightarrow> nat \<Rightarrow> nat \<Rightarrow> bool \<Rightarrow> flow_controller" where
  "QuicFlowController_new stream_id send_offset receive_offset tune =
     \<lparr>fc_id = stream_id, fc_bytes_sent = 0, send_window_offset = send_offset, fc_bytes_consumed = 0,
      highest_received_byte_offset = 0, receive_window_offset = receive_offset,
      receive_window_size = receive_offset,
      receive_window_size_limit =
        (if stream_id = kConnectionLevelId then kSessionReceiveWindowLimit else kStreamReceiveWindowLimit),
      auto_tune_receive_window = tune, last_blocked_send_window_offset = 0, prev_window_update_time = 0\<rparr>"

subsection \<open>Receiving\<close>

definition UpdateHighestReceivedOffset :: "nat \<Rightarrow> flow_controller \<Rightarrow> bool \<times> flow_controller" where
  "UpdateHighestReceivedOffset new_offset fc =
     (if new_offset \<le> highest_received_byte_offset fc then (False, fc)
      else (True, fc\<lparr>highest_received_byte_offset := new_offset\<rparr>))"

definition FlowControlViolation :: "flow_controller \<Rightarrow> bool" where
  "FlowControlViolation fc \<longleftrightarrow> receive_window_offset fc < highest_received_byte_offset fc"

text \<open>\<open>now\<close> is the clock of the connection and \<open>rtt\<close> its smoothed round-trip time.\<close>

definition MaybeIncreaseMaxWindowSize :: "int \<Rightarrow> int \<Rightarrow> flow_controller \<Rightarrow> flow_controller" where
  "MaybeIncreaseMaxWindowSize now rtt fc =
     (let prev = prev_window_update_time fc; fc1 = fc\<lparr>prev_window_update_time := now\<rparr> in
      if prev = 0 then fc1
      else if \<not> auto_tune_receive_window fc then fc1
      else if rtt = 0 then fc1
      else if 2 * rtt \<le> now - prev then fc1
      else fc1\<lparr>receive_window_size := min (u64 (receive_window_size fc * 2)) (receive_window_size_limit fc)\<rparr>)"

definition WindowUpdateThreshold :: "flow_controller \<Rightarrow> nat" where
  "WindowUpdateThreshold fc = receive_window_size fc div 2"

definition MaybeSendWindowUpdate :: "int \<Rightarrow> int \<Rightarrow> flow_controller \<Rightarrow> flow_controller \<times> flow_effect list" where
  "MaybeSendWindowUpdate now rtt fc =
     (let available_window = u64_sub (receive_window_offset fc) (fc_bytes_consumed fc) in
      if WindowUpdateThreshold fc \<le> available_window then (fc, [])
      else let fc1 = MaybeIncreaseMaxWindowSize now rtt fc;
               offset = u64 (receive_window_offset fc + u64_sub (receive_window_size fc1) available_window)
           in (fc1\<lparr>receive_window_offset := offset\<rparr>, [SendWindowUpdate (fc_id fc) offset]))"

definition fc_AddBytesConsumed :: "int \<Rightarrow> int \<Rightarrow> nat \<Rightarrow> flow_controller \<Rightarrow> flow_controller \<times> flow_effect list" where
  "fc_AddBytesConsumed now rtt n fc =
     MaybeSendWindowUpdate now rtt (fc\<lparr>fc_bytes_consumed := u64 (fc_bytes_consumed fc + n)\<rparr>)"

definition UpdateReceiveWindowSize :: "nat \<Rightarrow> flow_controller \<Rightarrow> flow_controller" where
  "UpdateReceiveWindowSize n fc =
     (if receive_window_size fc \<noteq> receive_window_offset fc then fc
      else fc\<lparr>receive_window_size := n, receive_window_offset := n\<rparr>)"

subsection \<open>Sending\<close>

definition SendWindowSize :: "flow_controller \<Rightarrow> nat" where
  "SendWindowSize fc =
     (if send_window_offset fc < fc_bytes_sent fc then 0 else send_window_offset fc - fc_bytes_sent fc)"

definition IsBlocked :: "flow_controller \<Rightarrow> bool" where
  "IsBlocked fc \<longleftrightarrow> SendWindowSize fc = 0"

definition fc_AddBytesSent :: "nat \<Rightarrow> flow_controller \<Rightarrow> flow_controller \<times> flow_effect list" where
  "fc_AddBytesSent n fc =
     (if send_window_offset fc < u64 (fc_bytes_sent fc + n)
      then (fc\<lparr>fc_bytes_sent := send_window_offset fc\<rparr>, [CloseSentTooMuch])
      else (fc\<lparr>fc_bytes_sent := u64 (fc_bytes_sent fc + n)\<rparr>, []))"

definition fc_MaybeSendBlocked :: "flow_controller \<Rightarrow> flow_controller \<times> flow_effect list" where
  "fc_MaybeSendBlocked fc =
     (if SendWindowSize fc = 0 \<and> last_blocked_send_window_offset fc < send_window_offset fc
      then (fc\<lparr>last_blocked_send_window_offset := send_window_offset fc\<rparr>, [SendBlocked (fc_id fc)])
      else (fc, []))"

definition UpdateSendWindowOffset :: "nat \<Rightarrow> flow_controller \<Rightarrow> bool \<times> flow_controller" where
  "UpdateSendWindowOffset new_offset fc =
     (if new_offset \<le> send_window_offset fc then (False, fc)
      else (IsBlocked fc, fc\<lparr>send_window_offset := new_offset\<rparr>))"

lemmas flow_ops [step_defs] =
  UpdateHighestReceivedOffset_def MaybeIncreaseMaxWindowSize_def WindowUpdateThreshold_def
  MaybeSendWindowUpdate_def fc_AddBytesConsumed_def fc_AddBytesSent_def fc_MaybeSendBlocked_def
  UpdateSendWindowOffset_def SendWindowSize_def IsBlocked_def

subsection \<open>The receive window\<close>

text \<open>
  The window granted to the peer, ahead of what was consumed, stays between half of the window
  size and the window size, and the size below its limit.
\<close>

definition granted :: "flow_controller \<Rightarrow> nat" where
  "granted fc = receive_window_offset fc - fc_bytes_consumed fc"

definition window_ok :: "flow_controller \<Rightarrow> bool" where
  "window_ok fc \<longleftrightarrow> fc_bytes_consumed fc \<le> receive_window_offset fc
     \<and> granted fc \<le> receive_window_size fc \<and> receive_window_size fc \<le> receive_window_size_limit fc
     \<and> receive_window_size fc div 2 \<le> granted fc"

text \<open>What the peer and the reader may do to a controller; what is consumed was received within the
  window.\<close>

inductive fc_reach :: "nat \<Rightarrow> flow_controller \<Rightarrow> flow_controller \<Rightarrow> bool"
  for horizon :: nat where
  start: "fc_reach horizon fc fc"
| consume: "\<lbrakk>fc_reach horizon fc0 fc; fc_bytes_consumed fc + n \<le> receive_window_offset fc;
     fc_bytes_consumed fc + n \<le> horizon; fc_AddBytesConsumed now rtt n fc = (fc', fx)\<rbrakk> \<Longrightarrow>
     fc_reach horizon fc0 fc'"
| receive: "\<lbrakk>fc_reach horizon fc0 fc; UpdateHighestReceivedOffset new fc = (r, fc')\<rbrakk> \<Longrightarrow>
     fc_reach horizon fc0 fc'"
| sent: "\<lbrakk>fc_reach horizon fc0 fc; fc_AddBytesSent n fc = (fc', fx)\<rbrakk> \<Longrightarrow> fc_reach horizon fc0 fc'"
| blocked: "\<lbrakk>fc_reach horizon fc0 fc; fc_MaybeSendBlocked fc = (fc', fx)\<rbrakk> \<Longrightarrow> fc_reach horizon fc0 fc'"
| update: "\<lbrakk>fc_reach horizon fc0 fc; UpdateSendWindowOffset new fc = (r, fc')\<rbrakk> \<Longrightarrow>
     fc_reach horizon fc0 fc'"

lemma consume_window:
  assumes ok: "window_ok fc" and n: "fc_bytes_consumed fc + n \<le> receive_window_offset fc"
    and lim: "fc_bytes_consumed fc + n + 2 * receive_window_size_limit fc < 2 ^ 64"
    and step: "fc_AddBytesConsumed now rtt n fc = (fc', fx)"
  shows "window_ok fc' \<and> fc_bytes_consumed fc' = fc_bytes_consumed fc + n
     \<and> receive_window_size_limit fc' = receive_window_size_limit fc
     \<and> receive_window_offset fc \<le> receive_window_offset fc'
     \<and> fx = (if receive_window_offset fc' = receive_window_offset fc then []
             else [SendWindowUpdate (fc_id fc) (receive_window_offset fc')])"
proof -
  let ?c = "fc_bytes_consumed fc + n" and ?w = "receive_window_offset fc"
  have c: "u64 ?c = ?c" using lim by simp
  show ?thesis
  proof (cases "receive_window_size fc div 2 \<le> ?w - ?c")
    case True
    with step n ok show ?thesis
      by (auto simp: fc_AddBytesConsumed_def MaybeSendWindowUpdate_def WindowUpdateThreshold_def c window_ok_def granted_def Let_def)
  next
    case False
    define fc1 where "fc1 = MaybeIncreaseMaxWindowSize now rtt (fc\<lparr>fc_bytes_consumed := ?c\<rparr>)"
    have dbl: "u64 (receive_window_size fc * 2) = receive_window_size fc * 2"
      using lim ok by (intro u64_id) (auto simp: window_ok_def)
    have f: "receive_window_size fc \<le> receive_window_size fc1" "receive_window_size fc1 \<le> receive_window_size_limit fc"
      "receive_window_size_limit fc1 = receive_window_size_limit fc" "fc_bytes_consumed fc1 = ?c"
      using ok by (auto simp: fc1_def MaybeIncreaseMaxWindowSize_def Let_def dbl window_ok_def)
    have av: "?w - ?c < receive_window_size fc1" using False f(1) by linarith
    have "?w + (receive_window_size fc1 - (?w - ?c)) = ?c + receive_window_size fc1" using n av by linarith
    moreover have "?c + receive_window_size fc1 < 2 ^ 64" using lim f(2) by linarith
    ultimately have fc': "fc' = fc1\<lparr>receive_window_offset := ?c + receive_window_size fc1\<rparr>"
      "fx = [SendWindowUpdate (fc_id fc) (?c + receive_window_size fc1)]"
      using step n av False
      by (auto simp: fc_AddBytesConsumed_def MaybeSendWindowUpdate_def WindowUpdateThreshold_def c Let_def fc1_def)
    have "?w < ?c + receive_window_size fc1" using av n by linarith
    then show ?thesis using f by (simp add: fc' window_ok_def granted_def)
  qed
qed

lemma other_steps_window:
  assumes "window_ok fc"
  shows "UpdateHighestReceivedOffset new fc = (r, fc') \<Longrightarrow> window_ok fc' \<and> receive_window_size_limit fc' = receive_window_size_limit fc"
    and "fc_AddBytesSent n fc = (fc', fx) \<Longrightarrow> window_ok fc' \<and> receive_window_size_limit fc' = receive_window_size_limit fc"
    and "fc_MaybeSendBlocked fc = (fc', fx) \<Longrightarrow> window_ok fc' \<and> receive_window_size_limit fc' = receive_window_size_limit fc"
    and "UpdateSendWindowOffset new fc = (r, fc') \<Longrightarrow> window_ok fc' \<and> receive_window_size_limit fc' = receive_window_size_limit fc"
  using assms
  by (auto simp: UpdateHighestReceivedOffset_def fc_AddBytesSent_def fc_MaybeSendBlocked_def
      UpdateSendWindowOffset_def window_ok_def granted_def split: if_splits)

text \<open>
  Property C21. The peer is never shut out and never granted too much: from a controller set up
  with a window within its limit, whatever is received, consumed and sent, at least half of the
  window lies open ahead of the consumed bytes, at most the window, and the window, which
  auto-tuning may double, never exceeds its limit.
\<close>

theorem window_kept_open:
  assumes "fc_reach horizon fc0 fc"
    and "fc0 = QuicFlowController_new sid send_offset receive_offset tune"
    and "receive_offset \<le> receive_window_size_limit fc0" and "horizon + 2 * receive_window_size_limit fc0 < 2 ^ 64"
  shows "fc_bytes_consumed fc + receive_window_size fc div 2 \<le> receive_window_offset fc
     \<and> receive_window_offset fc \<le> fc_bytes_consumed fc + receive_window_size fc
     \<and> receive_window_size fc \<le> (if sid = kConnectionLevelId then kSessionReceiveWindowLimit else kStreamReceiveWindowLimit)"
proof -
  have start: "window_ok fc0 \<and> receive_window_size_limit fc0 = receive_window_size_limit fc0"
    using assms(2,3) by (auto simp: window_ok_def granted_def QuicFlowController_new_def)
  have "window_ok fc \<and> receive_window_size_limit fc = receive_window_size_limit fc0"
    using assms(1) start assms(4)
  proof (induction rule: fc_reach.induct)
    case (consume fc0 fc n now rtt fc' fx)
    then have ih: "window_ok fc" "receive_window_size_limit fc = receive_window_size_limit fc0" by auto
    have "fc_bytes_consumed fc + n + 2 * receive_window_size_limit fc < 2 ^ 64"
      using consume.hyps(3) consume.prems(2) ih(2) by linarith
    from consume_window[OF ih(1) consume.hyps(2) this consume.hyps(4)] ih(2) show ?case by simp
  qed (use other_steps_window in \<open>metis+\<close>)
  then show ?thesis
    using assms(2) by (auto simp: window_ok_def granted_def QuicFlowController_new_def)
qed

theorem window_kept_open_witness:
  "let fc0 = QuicFlowController_new 5 16384 100 True; fc = fst (fc_AddBytesConsumed 1 0 60 fc0)
   in receive_window_offset fc = 160 \<and> fc_bytes_consumed fc + 50 \<le> receive_window_offset fc"
proof -
  define fc0 where "fc0 = QuicFlowController_new 5 16384 100 True"
  obtain fc fx where fc: "fc_AddBytesConsumed 1 0 60 fc0 = (fc, fx)" by fastforce
  have "fc_reach 60 fc0 fc"
    by (rule fc_reach.consume[OF fc_reach.start _ _ fc]) (simp_all add: fc0_def QuicFlowController_new_def)
  moreover have "100 \<le> receive_window_size_limit fc0" "60 + 2 * receive_window_size_limit fc0 < 2 ^ 64"
    by (simp_all add: fc0_def QuicFlowController_new_def kConnectionLevelId_def kStreamReceiveWindowLimit_def)
  ultimately have "fc_bytes_consumed fc + receive_window_size fc div 2 \<le> receive_window_offset fc"
    using window_kept_open[of 60 fc0 fc 5 16384 100 True] by (simp add: fc0_def)
  moreover have "fc = fst (fc_AddBytesConsumed 1 0 60 fc0)" using fc by simp
  ultimately show ?thesis
    by (simp add: fc0_def step_defs QuicFlowController_new_def Let_def)
qed

end
