(* ===== verification/StreamDelivery.thy ===== *)
theory StreamDelivery
  imports SequencerBuffer FrameList FlowControl
begin

text \<open>
  What the two receive buffers promise a stream, from their contract \<open>receive_buffer\<close>: the ring
  refines a map of held bytes, and both buffers hand the reader the bytes that were sent, in order,
  however the network reorders and repeats the frames. Offsets beyond \<open>2\<^sup>6\<^sup>4\<close> break the promise.
\<close>

subsection \<open>The ring refines a map\<close>

definition fits_free :: "nat \<Rightarrow> string \<Rightarrow> sequencer_buffer \<Rightarrow> bool" where
  "fits_free off data b \<longleftrightarrow> total_bytes_read b \<le> off
     \<and> off + length data \<le> total_bytes_read b + max_buffer_capacity_bytes b
     \<and> (\<forall>k. off \<le> k \<longrightarrow> k < off + length data \<longrightarrow> ring_buffered b k = None)"

lemma OnStreamData_refused:
  assumes inv: "ring_inv b" and data: "data \<noteq> []" and off: "off + length data < 2 ^ 64"
    and lim: "total_bytes_read b + max_buffer_capacity_bytes b < maxOffset" and no: "\<not> fits_free off data b"
  shows "\<exists>e. OnStreamData off data t b = Some (e, 0, b)"
proof -
  have "off < maxOffset" using off data by (cases data) (auto simp: maxOffset_def)
  from gap_found[OF ring_invD(2)[OF inv] this] obtain B E ys where
    g: "gaps_from off (gaps b) = (B, E) # ys" "gaps b = gaps_before off (gaps b) @ (B, E) # ys" by blast
  then have in_gap: "(B, E) \<in> set (gaps b)" by (metis in_set_conv_decomp)
  have u: "u64 (off + length data) = off + length data"
    "u64 (total_bytes_read b + max_buffer_capacity_bytes b) = total_bytes_read b + max_buffer_capacity_bytes b"
    using off lim by (simp_all add: maxOffset_def)
  have "\<not> (B \<le> off \<and> off + length data \<le> E \<and> off + length data \<le> total_bytes_read b + max_buffer_capacity_bytes b)"
  proof
    assume fit: "B \<le> off \<and> off + length data \<le> E \<and> off + length data \<le> total_bytes_read b + max_buffer_capacity_bytes b"
    have "missing (gaps b) k" if "off \<le> k" "k < off + length data" for k
      unfolding missing_def using fit that in_gap by (intro bexI[OF _ in_gap]) (simp only: prod.case, linarith)
    then have "ring_buffered b k = None" if "off \<le> k" "k < off + length data" for k
      using that by (simp add: ring_buffered_def)
    moreover have "total_bytes_read b \<le> off"
      using gaps_ok_bounds(1)[OF ring_invD(2)[OF inv] in_gap] fit by linarith
    ultimately show False using no fit by (simp add: fits_free_def)
  qed
  then show ?thesis using data g(1) by (auto simp: OnStreamData_def Let_def u)
qed

text \<open>
  Property C20. The ring buffer refines a map from offsets to bytes: data that fits the window and
  meets no held byte is added to the map and is otherwise refused without a change; the first
  readable region is a non-empty run of the map from the consumed bytes on, or there is none; and
  consuming held bytes removes exactly them.
\<close>

theorem ring_refines_map:
  assumes "ring_inv b" and "total_bytes_read b + max_buffer_capacity_bytes b < maxOffset"
    and "data \<noteq> []" and "off + length data < 2 ^ 64" and "n \<le> ReadableBytes b"
  shows "\<exists>e k b1 b2 rs. OnStreamData off data t b = Some (e, k, b1) \<and> ring_inv b1
       \<and> (if fits_free off data b
          then e = QUIC_NO_ERROR \<and> k = length data \<and> total_bytes_read b1 = total_bytes_read b
            \<and> ring_buffered b1 = ring_buffered b ++ slice off data
          else k = 0 \<and> b1 = b)
     \<and> GetReadableRegions 1 b = Some rs
       \<and> (if ring_buffered b (total_bytes_read b) = None then rs = []
          else \<exists>r. rs = [r] \<and> r \<noteq> [] \<and> (\<forall>i < length r. ring_buffered b (total_bytes_read b + i) = Some (r ! i)))
     \<and> MarkConsumed n b = Some (True, b2) \<and> ring_inv b2 \<and> total_bytes_read b2 = total_bytes_read b + n
       \<and> ring_buffered b2 = from_offset (total_bytes_read b + n) (ring_buffered b)"
proof -
  have data: "\<exists>e k b1. OnStreamData off data t b = Some (e, k, b1) \<and> ring_inv b1
     \<and> (if fits_free off data b
        then e = QUIC_NO_ERROR \<and> k = length data \<and> total_bytes_read b1 = total_bytes_read b
          \<and> ring_buffered b1 = ring_buffered b ++ slice off data
        else k = 0 \<and> b1 = b)"
  proof (cases "fits_free off data b")
    case True
    then obtain b1 where "OnStreamData off data t b = Some (QUIC_NO_ERROR, length data, b1)"
      using OnStreamData_accepts[OF assms(1,3) _ _ assms(2), of off t] by (auto simp: fits_free_def)
    then show ?thesis using True OnStreamData_law[OF assms(1,3,4,2), of t] assms(3) by auto
  next
    case False
    then show ?thesis using OnStreamData_refused[OF assms(1,3,4,2) False, of t] assms(1) by auto
  qed
  from data GetReadableRegions_one[OF assms(1)] MarkConsumed_run[OF assms(1,5)] show ?thesis by blast
qed

theorem ring_refines_map_witness:
  "\<exists>e k b1. OnStreamData 2 ''cd'' 7 (StreamSequencerBuffer_new 10) = Some (e, k, b1)
     \<and> ring_buffered b1 = slice 2 ''cd''"
proof -
  have inv: "ring_inv (StreamSequencerBuffer_new 10)" "ring_buffered (StreamSequencerBuffer_new 10) = Map.empty"
    by (rule StreamSequencerBuffer_new_inv; simp add: maxOffset_def)+
  have "fits_free 2 ''cd'' (StreamSequencerBuffer_new 10)"
    unfolding fits_free_def inv(2) by (simp add: StreamSequencerBuffer_new_def)
  then show ?thesis
    using ring_refines_map[OF inv(1), of "''cd''" 2 0 7]
    by (simp add: inv(2)) (auto simp: StreamSequencerBuffer_new_def maxOffset_def)
qed

subsection \<open>Delivery\<close>

text \<open>
  Property C11. However the frames of a stream arrive, reordered and repeated, as long as each
  arrives at least once, both receive buffers hand the reader exactly the bytes that were sent, in
  order and once, and end up empty: the ring of blocks is equivalent to the list of frames.
\<close>

theorem delivered_in_any_order:
  assumes "[] \<notin> set cs" and "cs \<noteq> []" and "(\<lambda>(p, d, t). (p, d)) ` set fs = set (pieces 0 cs)"
    and "length (concat cs) \<le> cap" and "cap \<le> kStreamReceiveWindowLimit" and "length (concat cs) < fuel"
  shows "\<exists>b1 b2. receive_all OnStreamData (GetReadableRegions 1) MarkConsumed fuel fs (StreamSequencerBuffer_new cap)
       = Some (concat cs, b1) \<and> total_bytes_read b1 = length (concat cs) \<and> ring_buffered b1 = Map.empty
     \<and> receive_all fl_OnStreamData (\<lambda>b. Some (fl_GetReadableRegions 1 b)) fl_MarkConsumed fuel fs QuicFrameList_new
       = Some (concat cs, b2) \<and> fl_total_bytes_read b2 = length (concat cs) \<and> fl_buffered b2 = Map.empty"
proof -
  have "0 < length (concat cs)"
  proof -
    from assms(2) obtain c cs' where "cs = c # cs'" by (cases cs) auto
    with assms(1) show ?thesis by auto
  qed
  then have "0 < cap" using assms(4) by linarith
  moreover have "cap < maxOffset" using assms(5) by (simp add: maxOffset_def kStreamReceiveWindowLimit_def)
  ultimately have ring: "ring_inv (StreamSequencerBuffer_new cap)" "ring_buffered (StreamSequencerBuffer_new cap) = Map.empty"
    by (rule StreamSequencerBuffer_new_inv)+
  have "\<exists>b1. receive_all OnStreamData (GetReadableRegions 1) MarkConsumed fuel fs (StreamSequencerBuffer_new cap)
     = Some (concat cs, b1) \<and> total_bytes_read b1 = length (concat cs) \<and> ring_buffered b1 = Map.empty"
    by (rule sb.any_order[OF ring(1) _ ring(2) assms(1-3) _ _ assms(6)])
       (use assms(4,5) in \<open>simp_all add: StreamSequencerBuffer_new_def maxOffset_def kStreamReceiveWindowLimit_def\<close>)
  moreover have "\<exists>b2. receive_all fl_OnStreamData (\<lambda>b. Some (fl_GetReadableRegions 1 b)) fl_MarkConsumed fuel fs QuicFrameList_new
     = Some (concat cs, b2) \<and> fl_total_bytes_read b2 = length (concat cs) \<and> fl_buffered b2 = Map.empty"
    by (rule fl.any_order[OF _ _ _ assms(1-3) _ _ assms(6)])
       (use assms(4,5) in \<open>simp_all add: QuicFrameList_new_def fl_inv_def fl_buffered_def fl_window_def
          maxOffset_def kStreamReceiveWindowLimit_def\<close>)
  ultimately show ?thesis by blast
qed

theorem delivered_in_any_order_witness:
  "\<exists>b1. receive_all OnStreamData (GetReadableRegions 1) MarkConsumed 6 [(2, ''c'', 5), (0, ''ab'', 6), (2, ''c'', 7)]
     (StreamSequencerBuffer_new 3) = Some (''abc'', b1)"
  using delivered_in_any_order[of "[''ab'', ''c'']" "[(2, ''c'', 5), (0, ''ab'', 6), (2, ''c'', 7)]" 3 6]
  by (auto simp: kStreamReceiveWindowLimit_def numeral_2_eq_2)

subsection \<open>Where offsets wrap around\<close>

text \<open>The ring of a stream after its first byte.\<close>

definition one_byte_ring :: sequencer_buffer where
  "one_byte_ring = (StreamSequencerBuffer_new kStreamReceiveWindowLimit)
     \<lparr>blocks := (\<lambda>_. None)(0 := Some (\<lambda>i. if i = 0 then CHR ''a'' else CHR 0x00)),
      gaps := [(1, maxOffset)], frame_arrival_time_map := [(0, 1, 0)], num_bytes_buffered := 1\<rparr>"

lemmas ring_eval = GetBlockIndex_def GetInBlockOffset_def GetBlockCapacity_def kBlockSizeBytes_def
  kStreamReceiveWindowLimit_def maxOffset_def u64_def u64_sub_def StreamSequencerBuffer_new_def Let_def

lemma write_blocks_done: "write_blocks off [] b = Some b"
  unfolding write_blocks.simps[of off "[]" b] by simp

lemma one_byte_ring_reached:
  "OnStreamData 0 ''a'' 0 (StreamSequencerBuffer_new kStreamReceiveWindowLimit) = Some (QUIC_NO_ERROR, 1, one_byte_ring)"
proof -
  let ?b = "StreamSequencerBuffer_new kStreamReceiveWindowLimit"
  have "write_blocks 0 ''a'' ?b = write_blocks 1 [] (copy_in 0 0 ''a'' ?b)"
    unfolding write_blocks.simps[of 0 "''a''" ?b] by (simp add: ring_eval)
  also have "\<dots> = Some (copy_in 0 0 ''a'' ?b)" by (rule write_blocks_done)
  finally show ?thesis
    by (auto simp: OnStreamData_def gaps_from_def gaps_before_def UpdateGapList_def one_byte_ring_def
        copy_in_def ring_eval fun_eq_iff)
qed

text \<open>
  Property C40. The bounds checks of the ring and of flow control are made on an end offset that
  wraps around: with the byte at offset 0 received and not yet read, a frame of three bytes at
  offset \<open>2\<^sup>6\<^sup>4 - 2\<close> passes flow control, is stored without an error and replaces the unread byte.
\<close>

theorem wrapped_frame_overwrites_unread_data:
  "\<exists>b b'. OnStreamData 0 ''a'' 0 (StreamSequencerBuffer_new kStreamReceiveWindowLimit) = Some (QUIC_NO_ERROR, 1, b)
     \<and> GetReadableRegions 1 b = Some [''a'']
     \<and> \<not> FlowControlViolation (snd (UpdateHighestReceivedOffset (u64 (2 ^ 64 - 2 + 3))
           (QuicFlowController_new 5 16384 kStreamReceiveWindowLimit True)))
     \<and> OnStreamData (2 ^ 64 - 2) ''xyz'' 1 b = Some (QUIC_NO_ERROR, 3, b')
     \<and> total_bytes_read b' = 0 \<and> GetReadableRegions 1 b' = Some [''z'']"
proof -
  let ?b = one_byte_ring and ?o = "18446744073709551614::nat"
  let ?b1 = "copy_in 2047 8190 ''xy'' ?b"
  let ?b2 = "copy_in 0 0 ''z'' ?b1"
  have w1: "write_blocks ?o ''xyz'' ?b = write_blocks 0 ''z'' ?b1"
    unfolding write_blocks.simps[of ?o "''xyz''" ?b] by (simp add: ring_eval one_byte_ring_def)
  have w2: "write_blocks 0 ''z'' ?b1 = write_blocks 1 [] ?b2"
    unfolding write_blocks.simps[of 0 "''z''" ?b1] by (simp add: ring_eval one_byte_ring_def frames)
  have w3: "write_blocks 1 [] ?b2 = Some ?b2" by (rule write_blocks_done)
  define b' where "b' = ?b2\<lparr>gaps := [(1, ?o), (1, maxOffset)],
    frame_arrival_time_map := arrival_insert ?o (3, 1) (frame_arrival_time_map ?b2), num_bytes_buffered := 4\<rparr>"
  have f: "gaps ?b = [(1, maxOffset)]" "total_bytes_read ?b = 0" "max_buffer_capacity_bytes ?b = 16777216"
    "num_bytes_buffered ?b = 1" "blocks_count ?b = 2048"
    by (simp_all add: one_byte_ring_def ring_eval)
  have Suc3: "Suc (Suc (Suc 0)) = 3" by simp
  have "OnStreamData ?o ''xyz'' 1 ?b = Some (QUIC_NO_ERROR, 3, b')"
    unfolding OnStreamData_def f w1 w2 w3
    by (simp add: gaps_from_def gaps_before_def UpdateGapList_def maxOffset_def u64_def frames f b'_def Suc3)
  moreover have "total_bytes_read b' = 0" by (simp add: b'_def frames f)
  moreover have "GetReadableRegions 1 b' = Some [''z'']"
    by (simp add: b'_def GetReadableRegions_def ReadableBytes_def NextBlockToRead_def ReadOffset_def
        block_bytes_def frames f copy_in_blocks ring_eval)
  moreover have "GetReadableRegions 1 ?b = Some [''a'']"
    by (simp add: one_byte_ring_def ring_eval GetReadableRegions_def ReadableBytes_def
        NextBlockToRead_def ReadOffset_def block_bytes_def)
  moreover have "\<not> FlowControlViolation (snd (UpdateHighestReceivedOffset (u64 (2 ^ 64 - 2 + 3))
           (QuicFlowController_new 5 16384 kStreamReceiveWindowLimit True)))"
    by (simp add: FlowControlViolation_def UpdateHighestReceivedOffset_def QuicFlowController_new_def ring_eval)
  moreover have "(2 ^ 64 - 2 :: nat) = ?o" by simp
  ultimately show ?thesis using one_byte_ring_reached by (metis (no_types, lifting))
qed

end
