(* ===== verification/QuicStream.thy ===== *)
theory QuicStream
  imports StreamDelivery HeaderText
begin

text \<open>
  One request of the SDK on a QUIC session: the stream
  (\<open>quicrepack/src/net/quic/reliable_quic_stream.cc\<close>, \<open>quic_stream_sequencer.cc\<close>,
  \<open>quic_spdy_stream.cc\<close>, \<open>quic/quic_spdy_client_stream.cc\<close>, \<open>Connection/QUICDataStream.cpp\<close>) and what
  its session keeps of it (\<open>quic_session.cc\<close>, \<open>Connection/QUICSession.mm\<close>): whether the stream is in
  the map of streams, whether its delegate is registered, and the flow control of the connection.
  The classes are one record, their overridden methods have the class as a prefix. What is sent
  to the peer and told to the application is the list \<open>out\<close>. \<open>None\<close> is a fault of the receive buffer
  or a loop that does not end. A stream of a request counts towards the connection's flow control,
  was opened by the SDK, and its session has no other stream here.
\<close>

datatype rst_code =
    QUIC_STREAM_NO_ERROR
  | QUIC_ERROR_PROCESSING_STREAM
  | QUIC_MULTIPLE_TERMINATION_OFFSETS
  | QUIC_BAD_APPLICATION_PAYLOAD
  | QUIC_STREAM_CONNECTION_ERROR
  | QUIC_RST_ACKNOWLEDGEMENT
  | OtherRst nat

type_synonym header_block = "(string \<times> string) list"

datatype quic_effect =
    SentRst nat rst_code nat \<comment> \<open>stream, error, bytes written\<close>
  | SentConnectionClose quic_error
  | FlowFrame flow_effect
  | MarkedWriteBlocked nat
  | WroteHeaders header_block bool
  | Wrote nat string bool \<comment> \<open>offset, bytes, with the end of the stream\<close>
  | AppResponse int header_block
  | AppData string
  | AppFailed
  | AppCompleted

record stream_frame =
  fr_fin :: bool
  fr_offset :: nat
  fr_data :: string

record quic_stream =
  \<comment> \<open>\<open>ReliableQuicStream\<close>\<close>
  stream_id :: nat
  queued_data :: "(string \<times> nat) list"
  queued_data_bytes :: nat
  stream_bytes_read :: nat
  stream_bytes_written :: nat
  stream_error :: rst_code
  connection_error :: quic_error
  read_side_closed :: bool
  write_side_closed :: bool
  fin_buffered :: bool
  fin_sent :: bool
  fin_received :: bool
  rst_sent :: bool
  rst_received :: bool
  stream_flow :: flow_controller
  \<comment> \<open>\<open>QuicStreamSequencer\<close>\<close>
  buffered_frames :: sequencer_buffer
  close_offset :: nat
  blocked :: bool
  ignore_read_data :: bool
  num_frames_received :: nat
  num_duplicate_frames_received :: nat
  num_early_frames_received :: nat
  \<comment> \<open>\<open>QuicSpdyStream\<close>\<close>
  visitor :: bool
  headers_decompressed :: bool
  trailers_decompressed :: bool
  decompressed_headers :: string
  decompressed_trailers :: string
  \<comment> \<open>\<open>QuicSpdyClientStream\<close>\<close>
  content_length :: int
  response_code :: int
  response_headers :: header_block
  response_trailers :: header_block
  data_length :: nat
  allow_bidirectional_data :: bool
  \<comment> \<open>\<open>QUICDataStream\<close>\<close>
  mDelegate :: bool
  mInitialMS :: nat
  mFailed :: bool
  mHeadersDelivered :: bool
  mCacheList :: "string list"
  \<comment> \<open>the session\<close>
  in_session :: bool
  connected :: bool
  session_error :: quic_error
  session_flow :: flow_controller
  locally_closed_highest_offset :: "nat option"
  draining :: bool
  registered :: bool
  out :: "quic_effect list"

text \<open>
  What the stream reads from its surroundings: the clock, the round-trip time, whether the version
  is above 28, the parser of header blocks (\<open>SpdyFramer\<close>: success, and the headers it stored), and
  what the connection takes of a write (bytes, end of stream, an error that closes it).
\<close>

record stream_env =
  env_now :: int
  env_rtt :: int
  after_version_28 :: bool
  parse_block :: "string \<Rightarrow> bool \<times> header_block"
  send_data :: "nat \<Rightarrow> string \<Rightarrow> bool \<Rightarrow> nat \<times> bool \<times> quic_error option"

definition kMinimumFlowControlSendWindow :: nat where "kMinimumFlowControlSendWindow = 16 * 1024"
definition kInitialReceiveWindowSize :: nat where "kInitialReceiveWindowSize = 10 * 1024 * 1024"
definition mTimeoutMS :: nat where "mTimeoutMS = 20000"

text \<open>A new stream of a connected session; \<open>sf\<close> is the flow control of the connection.\<close>

definition QUICDataStream_new :: "nat \<Rightarrow> nat \<Rightarrow> flow_controller \<Rightarrow> quic_stream" where
  "QUICDataStream_new sid send_window sf =
     \<lparr>stream_id = sid, queued_data = [], queued_data_bytes = 0, stream_bytes_read = 0, stream_bytes_written = 0,
      stream_error = QUIC_STREAM_NO_ERROR, connection_error = QUIC_NO_ERROR, read_side_closed = False,
      write_side_closed = False, fin_buffered = False, fin_sent = False, fin_received = False, rst_sent = False,
      rst_received = False,
      stream_flow = QuicFlowController_new sid send_window kInitialReceiveWindowSize (auto_tune_receive_window sf),
      buffered_frames = StreamSequencerBuffer_new kStreamReceiveWindowLimit, close_offset = maxOffset,
      blocked = True, ignore_read_data = False, num_frames_received = 0, num_duplicate_frames_received = 0,
      num_early_frames_received = 0, visitor = True, headers_decompressed = False, trailers_decompressed = False,
      decompressed_headers = [], decompressed_trailers = [], content_length = -1, response_code = 0,
      response_headers = [], response_trailers = [], data_length = 0, allow_bidirectional_data = False,
      mDelegate = False, mInitialMS = 0, mFailed = False, mHeadersDelivered = False, mCacheList = [],
      in_session = True, connected = True, session_error = QUIC_NO_ERROR, session_flow = sf,
      locally_closed_highest_offset = None, draining = False, registered = False, out = []\<rparr>"

definition emit :: "quic_effect \<Rightarrow> quic_stream \<Rightarrow> quic_stream" where
  "emit e s = s\<lparr>out := out s @ [e]\<rparr>"

definition emit_flow :: "flow_effect list \<Rightarrow> quic_stream \<Rightarrow> quic_stream" where
  "emit_flow fx s = s\<lparr>out := out s @ map FlowFrame fx\<rparr>"

subsection \<open>The session's delegate of the streams\<close>

definition onQUICStreamReceivedData :: "string \<Rightarrow> quic_stream \<Rightarrow> quic_stream" where
  "onQUICStreamReceivedData d s = (if registered s then emit (AppData d) s else s)"

definition onQUICStreamReceivedResponse :: "int \<Rightarrow> header_block \<Rightarrow> quic_stream \<Rightarrow> quic_stream" where
  "onQUICStreamReceivedResponse code hs s = (if registered s then emit (AppResponse code hs) s else s)"

definition onQUICStreamFailed :: "quic_stream \<Rightarrow> quic_stream" where
  "onQUICStreamFailed s = (if registered s then (emit AppFailed s)\<lparr>registered := False\<rparr> else s)"

definition onQUICStreamCompleted :: "quic_stream \<Rightarrow> quic_stream" where
  "onQUICStreamCompleted s = (if registered s then (emit AppCompleted s)\<lparr>registered := False\<rparr> else s)"

subsection \<open>Data for the application\<close>

text \<open>A null pointer is the empty string.\<close>

definition should_add_incoming_data :: "string \<Rightarrow> quic_stream \<Rightarrow> quic_stream" where
  "should_add_incoming_data d s =
     (if mHeadersDelivered s
      then if mDelegate s
        then let s1 = (fold onQUICStreamReceivedData (mCacheList s) s)\<lparr>mCacheList := []\<rparr>
             in if d \<noteq> [] then onQUICStreamReceivedData d s1 else s1
        else s
      else if d \<noteq> [] then s\<lparr>mCacheList := mCacheList s @ [d]\<rparr> else s)"

definition add_incoming_data :: "string \<Rightarrow> quic_stream \<Rightarrow> quic_stream" where
  "add_incoming_data d s =
     (let s1 = should_add_incoming_data d s in s1\<lparr>data_length := u64 (data_length s1 + length d)\<rparr>)"

definition onVisitorSentClose :: "quic_stream \<Rightarrow> quic_stream" where
  "onVisitorSentClose s =
     (if \<not> mFailed s \<and> mDelegate s
      then let s1 = (if \<not> mHeadersDelivered s
                     then (onQUICStreamReceivedResponse (response_code s) (response_headers s) s)\<lparr>mHeadersDelivered := True\<rparr>
                     else s)
           in (onQUICStreamCompleted (should_add_incoming_data [] s1))\<lparr>mInitialMS := 0\<rparr>
      else s)"

subsection \<open>Closing\<close>

definition AddBytesConsumed :: "stream_env \<Rightarrow> nat \<Rightarrow> quic_stream \<Rightarrow> quic_stream" where
  "AddBytesConsumed env n s =
     (let s1 = (if read_side_closed s then s
                else case fc_AddBytesConsumed (env_now env) (env_rtt env) n (stream_flow s) of
                  (fc, fx) \<Rightarrow> emit_flow fx (s\<lparr>stream_flow := fc\<rparr>))
      in case fc_AddBytesConsumed (env_now env) (env_rtt env) n (session_flow s1) of
           (fc, fx) \<Rightarrow> emit_flow fx (s1\<lparr>session_flow := fc\<rparr>))"

text \<open>
  The methods that close a side ask the session to close the stream, \<open>CloseStreamInner\<close>, which
  calls \<open>OnClose\<close>, which closes both sides. They take the session's method as the argument \<open>close\<close>.
\<close>

definition rel_CloseReadSide :: "(bool \<Rightarrow> quic_stream \<Rightarrow> quic_stream) \<Rightarrow> quic_stream \<Rightarrow> quic_stream" where
  "rel_CloseReadSide close s =
     (if read_side_closed s then s
      else let s1 = s\<lparr>read_side_closed := True\<rparr> in if write_side_closed s1 then close False s1 else s1)"

definition rel_CloseWriteSide :: "(bool \<Rightarrow> quic_stream \<Rightarrow> quic_stream) \<Rightarrow> quic_stream \<Rightarrow> quic_stream" where
  "rel_CloseWriteSide close s =
     (if write_side_closed s then s
      else let s1 = s\<lparr>write_side_closed := True\<rparr> in if read_side_closed s1 then close False s1 else s1)"

definition SendRstStream :: "(bool \<Rightarrow> quic_stream \<Rightarrow> quic_stream) \<Rightarrow> rst_code \<Rightarrow> quic_stream \<Rightarrow> quic_stream" where
  "SendRstStream close code s =
     close True (if connected s then emit (SentRst (stream_id s) code (stream_bytes_written s)) s else s)"

definition rel_Reset :: "(bool \<Rightarrow> quic_stream \<Rightarrow> quic_stream) \<Rightarrow> rst_code \<Rightarrow> quic_stream \<Rightarrow> quic_stream" where
  "rel_Reset close code s = (SendRstStream close code (s\<lparr>stream_error := code\<rparr>))\<lparr>rst_sent := True\<rparr>"

definition spdy_CloseWriteSide ::
  "stream_env \<Rightarrow> (bool \<Rightarrow> quic_stream \<Rightarrow> quic_stream) \<Rightarrow> quic_stream \<Rightarrow> quic_stream" where
  "spdy_CloseWriteSide env close s =
     rel_CloseWriteSide close
       (if after_version_28 env \<and> \<not> fin_received s \<and> \<not> rst_received s \<and> ignore_read_data s \<and> \<not> rst_sent s
        then rel_Reset close QUIC_STREAM_NO_ERROR s else s)"

definition rel_OnClose :: "stream_env \<Rightarrow> (bool \<Rightarrow> quic_stream \<Rightarrow> quic_stream) \<Rightarrow> quic_stream \<Rightarrow> quic_stream" where
  "rel_OnClose env close s =
     (let s1 = spdy_CloseWriteSide env close (rel_CloseReadSide close s);
          s2 = (if \<not> fin_sent s1 \<and> \<not> rst_sent s1
                then (SendRstStream close QUIC_RST_ACKNOWLEDGEMENT s1)\<lparr>rst_sent := True\<rparr> else s1)
      in AddBytesConsumed env
           (u64_sub (highest_received_byte_offset (stream_flow s2)) (fc_bytes_consumed (stream_flow s2))) s2)"

definition spdy_OnClose :: "stream_env \<Rightarrow> (bool \<Rightarrow> quic_stream \<Rightarrow> quic_stream) \<Rightarrow> quic_stream \<Rightarrow> quic_stream" where
  "spdy_OnClose env close s =
     (let s1 = rel_OnClose env close s
      in if visitor s1 then onVisitorSentClose (s1\<lparr>visitor := False\<rparr>) else s1)"

text \<open>
  The session takes the stream out of its map before it calls \<open>OnClose\<close>; a second call does not
  find it and returns (\<open>OnClose_nested\<close> below justifies the inner argument).
\<close>

definition CloseStreamInner :: "stream_env \<Rightarrow> bool \<Rightarrow> quic_stream \<Rightarrow> quic_stream" where
  "CloseStreamInner env locally_reset s =
     (if \<not> in_session s then s else
      let s1 = (if locally_reset then s\<lparr>rst_sent := True\<rparr> else s);
          s2 = (if \<not> (fin_received s1 \<or> rst_received s1)
                then s1\<lparr>locally_closed_highest_offset := Some (highest_received_byte_offset (stream_flow s1))\<rparr> else s1)
      in spdy_OnClose env (\<lambda>_ s. s) (s2\<lparr>in_session := False, draining := False\<rparr>))"

definition CloseStream :: "stream_env \<Rightarrow> quic_stream \<Rightarrow> quic_stream" where
  "CloseStream env s = CloseStreamInner env False s"

definition CloseReadSide :: "stream_env \<Rightarrow> quic_stream \<Rightarrow> quic_stream" where
  "CloseReadSide env s = rel_CloseReadSide (CloseStreamInner env) s"

definition CloseWriteSide :: "stream_env \<Rightarrow> quic_stream \<Rightarrow> quic_stream" where
  "CloseWriteSide env s = spdy_CloseWriteSide env (CloseStreamInner env) s"

definition Reset :: "stream_env \<Rightarrow> rst_code \<Rightarrow> quic_stream \<Rightarrow> quic_stream" where
  "Reset env code s = rel_Reset (CloseStreamInner env) code s"

definition OnFinRead :: "stream_env \<Rightarrow> quic_stream \<Rightarrow> quic_stream" where
  "OnFinRead env s = CloseReadSide env (s\<lparr>fin_received := True\<rparr>)"

definition rel_OnConnectionClosed :: "stream_env \<Rightarrow> quic_error \<Rightarrow> quic_stream \<Rightarrow> quic_stream" where
  "rel_OnConnectionClosed env error s =
     (if read_side_closed s \<and> write_side_closed s then s
      else CloseReadSide env (CloseWriteSide env
        (if error \<noteq> QUIC_NO_ERROR
         then s\<lparr>stream_error := QUIC_STREAM_CONNECTION_ERROR, connection_error := error\<rparr> else s)))"

text \<open>The connection closes: \<open>QuicConnection::CloseConnection\<close> and \<open>QuicSession::OnConnectionClosed\<close>.\<close>

definition session_OnConnectionClosed :: "stream_env \<Rightarrow> quic_error \<Rightarrow> quic_stream \<Rightarrow> quic_stream" where
  "session_OnConnectionClosed env error s =
     (let s1 = (if session_error s = QUIC_NO_ERROR then s\<lparr>session_error := error\<rparr> else s)
      in if \<not> in_session s1 then s1
         else let s2 = rel_OnConnectionClosed env error s1 in if in_session s2 then CloseStream env s2 else s2)"

definition CloseConnection :: "stream_env \<Rightarrow> quic_error \<Rightarrow> quic_stream \<Rightarrow> quic_stream" where
  "CloseConnection env error s =
     (if \<not> connected s then s else session_OnConnectionClosed env error (s\<lparr>connected := False\<rparr>))"

definition SendConnectionClose :: "stream_env \<Rightarrow> quic_error \<Rightarrow> quic_stream \<Rightarrow> quic_stream" where
  "SendConnectionClose env error s = CloseConnection env error (emit (SentConnectionClose error) s)"

definition session_CloseConnectionWithDetails :: "stream_env \<Rightarrow> quic_error \<Rightarrow> quic_stream \<Rightarrow> quic_stream" where
  "session_CloseConnectionWithDetails env error s =
     (if connected s then SendConnectionClose env error s else s)"

subsection \<open>The sequencer\<close>

definition IsClosed :: "quic_stream \<Rightarrow> bool" where
  "IsClosed s \<longleftrightarrow> close_offset s \<le> BytesConsumed (buffered_frames s)"

definition seq_HasBytesToRead :: "quic_stream \<Rightarrow> bool" where
  "seq_HasBytesToRead s \<longleftrightarrow> HasBytesToRead (buffered_frames s)"

definition seq_MarkConsumed :: "stream_env \<Rightarrow> nat \<Rightarrow> quic_stream \<Rightarrow> quic_stream option" where
  "seq_MarkConsumed env n s =
     map_option (\<lambda>(ok, b). let s1 = s\<lparr>buffered_frames := b\<rparr>
         in if ok then AddBytesConsumed env n s1 else Reset env QUIC_ERROR_PROCESSING_STREAM s1)
       (MarkConsumed n (buffered_frames s))"

definition spdy_HasBytesToRead :: "quic_stream \<Rightarrow> bool" where
  "spdy_HasBytesToRead s \<longleftrightarrow> decompressed_headers s \<noteq> [] \<or> seq_HasBytesToRead s \<or> decompressed_trailers s \<noteq> []"

definition FinishedReadingHeaders :: "quic_stream \<Rightarrow> bool" where
  "FinishedReadingHeaders s \<longleftrightarrow> headers_decompressed s \<and> decompressed_headers s = []"

definition FinishedReadingTrailers :: "quic_stream \<Rightarrow> bool" where
  "FinishedReadingTrailers s \<longleftrightarrow> (fin_received s \<or> trailers_decompressed s) \<and> decompressed_trailers s = []"

definition IsDoneReading :: "quic_stream \<Rightarrow> bool" where
  "IsDoneReading s \<longleftrightarrow> FinishedReadingHeaders s \<and> IsClosed s \<and> FinishedReadingTrailers s"

text \<open>More bytes than announced; the count is cast to a signed 32-bit integer.\<close>

definition too_much_data :: "quic_stream \<Rightarrow> bool" where
  "too_much_data s \<longleftrightarrow>
     0 \<le> content_length s \<and> content_length s < sint (word_of_nat (data_length s) :: 32 word)"

text \<open>
  \<open>OnDataAvailable\<close> of the client stream: one round gives the stream and whether the code comes back
  to the start, by its loop or by way of \<open>SetUnblocked\<close>.
\<close>

definition after_reading :: "stream_env \<Rightarrow> quic_stream \<Rightarrow> bool \<times> quic_stream" where
  "after_reading env s =
     (if IsClosed s then (False, OnFinRead env s)
      else let s1 = s\<lparr>blocked := False\<rparr> in (IsClosed s1 \<or> seq_HasBytesToRead s1, s1))"

definition read_round :: "stream_env \<Rightarrow> quic_stream \<Rightarrow> (bool \<times> quic_stream) option" where
  "read_round env s =
     (if \<not> spdy_HasBytesToRead s then Some (after_reading env s)
      else case GetReadableRegions 1 (buffered_frames s) of None \<Rightarrow> None
      | Some [] \<Rightarrow> Some (after_reading env s)
      | Some (r # _) \<Rightarrow>
        let s1 = add_incoming_data r s
        in if too_much_data s1 then Some (False, Reset env QUIC_BAD_APPLICATION_PAYLOAD s1)
           else map_option (Pair True) (seq_MarkConsumed env (length r) s1))"

partial_function (option) OnDataAvailable :: "stream_env \<Rightarrow> quic_stream \<Rightarrow> quic_stream option" where
  "OnDataAvailable env s =
     (case read_round env s of None \<Rightarrow> None
      | Some (again, s1) \<Rightarrow> if again then OnDataAvailable env s1 else Some s1)"

definition SetUnblocked :: "stream_env \<Rightarrow> quic_stream \<Rightarrow> quic_stream option" where
  "SetUnblocked env s =
     (let s1 = s\<lparr>blocked := False\<rparr>
      in if IsClosed s1 \<or> seq_HasBytesToRead s1 then OnDataAvailable env s1 else Some s1)"

definition SetBlockedUntilFlush :: "quic_stream \<Rightarrow> quic_stream" where
  "SetBlockedUntilFlush s = s\<lparr>blocked := True\<rparr>"

definition MaybeCloseStream :: "stream_env \<Rightarrow> quic_stream \<Rightarrow> quic_stream option" where
  "MaybeCloseStream env s =
     (if blocked s \<or> \<not> IsClosed s then Some s
      else map_option (\<lambda>s1. s1\<lparr>buffered_frames := Clear (buffered_frames s1)\<rparr>)
             (if ignore_read_data s then Some (OnFinRead env s) else OnDataAvailable env s))"

definition CloseStreamAtOffset :: "stream_env \<Rightarrow> nat \<Rightarrow> quic_stream \<Rightarrow> quic_stream option" where
  "CloseStreamAtOffset env offset s =
     (if close_offset s \<noteq> maxOffset \<and> offset \<noteq> close_offset s
      then Some (Reset env QUIC_MULTIPLE_TERMINATION_OFFSETS s)
      else MaybeCloseStream env (s\<lparr>close_offset := offset\<rparr>))"

definition seq_FlushBufferedFrames :: "stream_env \<Rightarrow> quic_stream \<Rightarrow> quic_stream option" where
  "seq_FlushBufferedFrames env s =
     (case FlushBufferedFrames (buffered_frames s) of
        (n, b) \<Rightarrow> MaybeCloseStream env (AddBytesConsumed env n (s\<lparr>buffered_frames := b\<rparr>)))"

definition seq_StopReading :: "stream_env \<Rightarrow> quic_stream \<Rightarrow> quic_stream option" where
  "seq_StopReading env s =
     (if ignore_read_data s then Some s else seq_FlushBufferedFrames env (s\<lparr>ignore_read_data := True\<rparr>))"

definition spdy_StopReading :: "stream_env \<Rightarrow> quic_stream \<Rightarrow> quic_stream option" where
  "spdy_StopReading env s =
     seq_StopReading env
       (if after_version_28 env \<and> \<not> fin_received s \<and> \<not> rst_received s \<and> write_side_closed s \<and> \<not> rst_sent s
        then Reset env QUIC_STREAM_NO_ERROR s else s)"

definition seq_store :: "stream_env \<Rightarrow> stream_frame \<Rightarrow> quic_stream \<Rightarrow> quic_stream option" where
  "seq_store env frame s =
     (case OnStreamData (fr_offset frame) (fr_data frame) (env_now env) (buffered_frames s) of None \<Rightarrow> None
      | Some (result, bytes_written, b) \<Rightarrow>
        let s1 = s\<lparr>buffered_frames := b\<rparr> in
        if result = QUIC_INVALID_STREAM_DATA then Some (SendConnectionClose env QUIC_INVALID_STREAM_FRAME s1)
        else if result = QUIC_NO_ERROR \<and> bytes_written = 0
        then Some (s1\<lparr>num_duplicate_frames_received := num_duplicate_frames_received s1 + 1\<rparr>)
        else
          let s2 = (if BytesConsumed b < fr_offset frame
                    then s1\<lparr>num_early_frames_received := num_early_frames_received s1 + 1\<rparr> else s1)
          in if blocked s2 then Some s2
             else if fr_offset frame = BytesConsumed (buffered_frames s2)
             then if ignore_read_data s2 then seq_FlushBufferedFrames env s2 else OnDataAvailable env s2
             else Some s2)"

definition seq_OnStreamFrame :: "stream_env \<Rightarrow> stream_frame \<Rightarrow> quic_stream \<Rightarrow> quic_stream option" where
  "seq_OnStreamFrame env frame s =
     (let s1 = s\<lparr>num_frames_received := num_frames_received s + 1\<rparr> in
      if fr_data frame = [] \<and> \<not> fr_fin frame then Some (SendConnectionClose env QUIC_INVALID_STREAM_FRAME s1)
      else if fr_fin frame
      then case CloseStreamAtOffset env (u64 (fr_offset frame + length (fr_data frame))) s1 of None \<Rightarrow> None
        | Some s2 \<Rightarrow> if fr_data frame = [] then Some s2 else seq_store env frame s2
      else seq_store env frame s1)"

subsection \<open>Frames from the peer\<close>

definition MaybeIncreaseHighestReceivedOffset :: "nat \<Rightarrow> quic_stream \<Rightarrow> bool \<times> quic_stream" where
  "MaybeIncreaseHighestReceivedOffset new_offset s =
     (let increment = u64_sub new_offset (highest_received_byte_offset (stream_flow s)) in
      case UpdateHighestReceivedOffset new_offset (stream_flow s) of (changed, fc) \<Rightarrow>
        if \<not> changed then (False, s\<lparr>stream_flow := fc\<rparr>)
        else (True, s\<lparr>stream_flow := fc,
               session_flow := snd (UpdateHighestReceivedOffset
                 (u64 (highest_received_byte_offset (session_flow s) + increment)) (session_flow s))\<rparr>))"

definition note_fin :: "stream_frame \<Rightarrow> quic_stream \<Rightarrow> quic_stream" where
  "note_fin frame s =
     (if fr_fin frame then let s1 = s\<lparr>fin_received := True\<rparr> in if fin_sent s1 then s1\<lparr>draining := True\<rparr> else s1
      else s)"

definition rel_OnStreamFrame :: "stream_env \<Rightarrow> stream_frame \<Rightarrow> quic_stream \<Rightarrow> quic_stream option" where
  "rel_OnStreamFrame env frame s =
     (let s1 = note_fin frame s
      in if read_side_closed s1 then Some s1 else
      let n = length (fr_data frame);
          s2 = s1\<lparr>stream_bytes_read := u64 (stream_bytes_read s1 + n)\<rparr>;
          (changed, s3) = MaybeIncreaseHighestReceivedOffset (u64 (fr_offset frame + n)) s2
      in if changed \<and> (FlowControlViolation (stream_flow s3) \<or> FlowControlViolation (session_flow s3))
         then Some (SendConnectionClose env QUIC_FLOW_CONTROL_RECEIVED_TOO_MUCH_DATA s3)
         else seq_OnStreamFrame env frame s3)"

definition client_OnStreamFrame :: "stream_env \<Rightarrow> stream_frame \<Rightarrow> quic_stream \<Rightarrow> quic_stream option" where
  "client_OnStreamFrame env frame s =
     rel_OnStreamFrame env frame
       (if \<not> allow_bidirectional_data s \<and> \<not> write_side_closed s then CloseWriteSide env s else s)"

definition OnStreamFrame :: "stream_env \<Rightarrow> stream_frame \<Rightarrow> quic_stream \<Rightarrow> quic_stream option" where
  "OnStreamFrame env frame s =
     map_option (\<lambda>s1. if \<not> mFailed s1 \<and> mDelegate s1 then s1\<lparr>mInitialMS := 0\<rparr> else s1)
       (client_OnStreamFrame env frame s)"

definition rel_OnStreamReset :: "stream_env \<Rightarrow> rst_code \<Rightarrow> nat \<Rightarrow> quic_stream \<Rightarrow> quic_stream" where
  "rel_OnStreamReset env code byte_offset s =
     (let s1 = snd (MaybeIncreaseHighestReceivedOffset byte_offset (s\<lparr>rst_received := True\<rparr>))
      in CloseReadSide env (CloseWriteSide env (s1\<lparr>stream_error := code\<rparr>)))"

definition OnStreamReset :: "stream_env \<Rightarrow> rst_code \<Rightarrow> nat \<Rightarrow> quic_stream \<Rightarrow> quic_stream" where
  "OnStreamReset env code byte_offset s =
     (if code \<noteq> QUIC_STREAM_NO_ERROR \<or> \<not> after_version_28 env then rel_OnStreamReset env code byte_offset s
      else let s1 = snd (MaybeIncreaseHighestReceivedOffset byte_offset (s\<lparr>rst_received := True\<rparr>))
           in CloseWriteSide env (s1\<lparr>stream_error := code\<rparr>))"

subsection \<open>Headers\<close>

text \<open>The values of a content length: the result, and the length known so far (-1: none).\<close>

fun content_lengths :: "int \<Rightarrow> string list \<Rightarrow> bool \<times> int" where
  "content_lengths len [] = (True, len)"
| "content_lengths len (v # vs) =
     (case StringToInt 0 v of (ok, n) \<Rightarrow>
       if \<not> ok \<or> n < 0 then (False, len)
       else if len < 0 then content_lengths n vs
       else if n \<noteq> len then (False, len)
       else content_lengths len vs)"

text \<open>\<open>ParseHeaders\<close>: the result, the content length, the headers.\<close>

definition ParseHeaders :: "stream_env \<Rightarrow> string \<Rightarrow> int \<Rightarrow> header_block \<Rightarrow> bool \<times> int \<times> header_block" where
  "ParseHeaders env data len hs =
     (let (ok, new) = parse_block env data; hs' = hs @ new in
      if \<not> ok \<or> hs' = [] then (False, len, hs')
      else case map_of hs' ''content-length'' of None \<Rightarrow> (True, len, hs')
      | Some v \<Rightarrow> (case content_lengths len (SplitString (CHR 0x00) v) of (ok', len') \<Rightarrow> (ok', len', hs')))"

definition ParseTrailers :: "stream_env \<Rightarrow> string \<Rightarrow> header_block \<Rightarrow> bool \<times> nat \<times> header_block" where
  "ParseTrailers env data hs =
     (let (ok, new) = parse_block env data; hs' = hs @ new in
      if \<not> ok \<or> hs' = [] then (False, 0, hs')
      else case map_of hs' '':final-offset'' of None \<Rightarrow> (False, 0, hs')
      | Some v \<Rightarrow> (case StringToSizeT 0 v of (ok', n) \<Rightarrow>
          if \<not> ok' then (False, n, hs')
          else let hs'' = filter (\<lambda>(k, _). k \<noteq> '':final-offset'') hs'
               in (\<forall>(k, _) \<in> set hs''. \<not> starts_with '':'' k, n, hs'')))"

definition OnStreamHeaders :: "string \<Rightarrow> quic_stream \<Rightarrow> quic_stream" where
  "OnStreamHeaders data s =
     (if \<not> headers_decompressed s then s\<lparr>decompressed_headers := decompressed_headers s @ data\<rparr>
      else s\<lparr>decompressed_trailers := decompressed_trailers s @ data\<rparr>)"

definition MarkHeadersConsumed :: "stream_env \<Rightarrow> nat \<Rightarrow> quic_stream \<Rightarrow> quic_stream option" where
  "MarkHeadersConsumed env n s =
     (let s1 = s\<lparr>decompressed_headers := drop n (decompressed_headers s)\<rparr>
      in if FinishedReadingHeaders s1 then SetUnblocked env s1 else Some s1)"

definition MarkTrailersConsumed :: "nat \<Rightarrow> quic_stream \<Rightarrow> quic_stream" where
  "MarkTrailersConsumed n s = s\<lparr>decompressed_trailers := drop n (decompressed_trailers s)\<rparr>"

definition spdy_OnInitialHeadersComplete :: "stream_env \<Rightarrow> bool \<Rightarrow> quic_stream \<Rightarrow> quic_stream option" where
  "spdy_OnInitialHeadersComplete env fin s =
     (let s1 = s\<lparr>headers_decompressed := True\<rparr> in
      case (if fin then OnStreamFrame env \<lparr>fr_fin = True, fr_offset = 0, fr_data = []\<rparr> s1 else Some s1) of
        None \<Rightarrow> None
      | Some s2 \<Rightarrow> if FinishedReadingHeaders s2 then SetUnblocked env s2 else Some s2)"

text \<open>\<open>operator[]\<close> adds an empty status when there is none.\<close>

definition read_status :: "quic_stream \<Rightarrow> bool \<times> quic_stream" where
  "read_status s =
     (let hs = response_headers s;
          hs' = (if map_of hs '':status'' = None then hs @ [('':status'', [])] else hs);
          (ok, code) = StringToInt (response_code s) (takeWhile (\<lambda>c. c \<noteq> CHR '' '') (the (map_of hs' '':status'')))
      in (ok, s\<lparr>response_headers := hs', response_code := code\<rparr>))"

definition client_OnInitialHeadersComplete :: "stream_env \<Rightarrow> bool \<Rightarrow> quic_stream \<Rightarrow> quic_stream option" where
  "client_OnInitialHeadersComplete env fin s =
     (case spdy_OnInitialHeadersComplete env fin s of None \<Rightarrow> None
      | Some s1 \<Rightarrow>
        (case ParseHeaders env (decompressed_headers s1) (content_length s1) (response_headers s1) of
           (ok, len, hs) \<Rightarrow>
             let s2 = s1\<lparr>content_length := len, response_headers := hs\<rparr> in
             if \<not> ok then Some (Reset env QUIC_BAD_APPLICATION_PAYLOAD s2)
             else (case read_status s2 of
               (ok', s3) \<Rightarrow>
                 if \<not> ok' then Some (Reset env QUIC_BAD_APPLICATION_PAYLOAD s3)
                 else MarkHeadersConsumed env (length (decompressed_headers s3)) s3)))"

definition OnInitialHeadersComplete :: "stream_env \<Rightarrow> bool \<Rightarrow> quic_stream \<Rightarrow> quic_stream option" where
  "OnInitialHeadersComplete env fin s =
     map_option (\<lambda>s1. if \<not> mFailed s1 \<and> mDelegate s1
         then (onQUICStreamReceivedResponse (response_code s1) (response_headers s1) s1)
                \<lparr>mInitialMS := 0, mHeadersDelivered := True\<rparr>
         else s1)
       (client_OnInitialHeadersComplete env fin s)"

definition spdy_OnTrailingHeadersComplete :: "stream_env \<Rightarrow> bool \<Rightarrow> quic_stream \<Rightarrow> quic_stream" where
  "spdy_OnTrailingHeadersComplete env fin s =
     (if fin_received s \<or> \<not> fin
      then session_CloseConnectionWithDetails env QUIC_INVALID_HEADERS_STREAM_DATA s
      else s\<lparr>trailers_decompressed := True\<rparr>)"

definition OnTrailingHeadersComplete :: "stream_env \<Rightarrow> bool \<Rightarrow> quic_stream \<Rightarrow> quic_stream option" where
  "OnTrailingHeadersComplete env fin s =
     (let s1 = spdy_OnTrailingHeadersComplete env fin s in
      case ParseTrailers env (decompressed_trailers s1) (response_trailers s1) of
        (ok, final_byte_offset, hs) \<Rightarrow>
          let s2 = s1\<lparr>response_trailers := hs\<rparr> in
          if \<not> ok then Some (Reset env QUIC_BAD_APPLICATION_PAYLOAD s2)
          else OnStreamFrame env \<lparr>fr_fin = True, fr_offset = final_byte_offset, fr_data = []\<rparr>
                 (MarkTrailersConsumed (length (decompressed_trailers s2)) s2))"

definition OnStreamHeadersComplete :: "stream_env \<Rightarrow> bool \<Rightarrow> quic_stream \<Rightarrow> quic_stream option" where
  "OnStreamHeadersComplete env fin s =
     (if \<not> headers_decompressed s then OnInitialHeadersComplete env fin s else OnTrailingHeadersComplete env fin s)"

subsection \<open>Writing\<close>

definition flow_out :: "stream_env \<Rightarrow> flow_effect list \<Rightarrow> quic_stream \<Rightarrow> quic_stream" where
  "flow_out env fx s =
     (if CloseSentTooMuch \<in> set fx then SendConnectionClose env QUIC_FLOW_CONTROL_SENT_TOO_MUCH_DATA s
      else emit_flow fx s)"

definition MarkConnectionLevelWriteBlocked :: "quic_stream \<Rightarrow> quic_stream" where
  "MarkConnectionLevelWriteBlocked s = emit (MarkedWriteBlocked (stream_id s)) s"

definition MaybeSendBlocked :: "stream_env \<Rightarrow> quic_stream \<Rightarrow> quic_stream" where
  "MaybeSendBlocked env s =
     (case fc_MaybeSendBlocked (stream_flow s) of (fc1, fx1) \<Rightarrow>
        let s1 = flow_out env fx1 (s\<lparr>stream_flow := fc1\<rparr>) in
      case fc_MaybeSendBlocked (session_flow s1) of (fc2, fx2) \<Rightarrow>
        let s2 = flow_out env fx2 (s1\<lparr>session_flow := fc2\<rparr>)
        in if IsBlocked (session_flow s2) \<and> \<not> IsBlocked (stream_flow s2)
           then MarkConnectionLevelWriteBlocked s2 else s2)"

definition AddBytesSent :: "stream_env \<Rightarrow> nat \<Rightarrow> quic_stream \<Rightarrow> quic_stream" where
  "AddBytesSent env n s =
     (case fc_AddBytesSent n (stream_flow s) of (fc1, fx1) \<Rightarrow>
        let s1 = flow_out env fx1 (s\<lparr>stream_flow := fc1\<rparr>) in
      case fc_AddBytesSent n (session_flow s1) of (fc2, fx2) \<Rightarrow> flow_out env fx2 (s1\<lparr>session_flow := fc2\<rparr>))"

text \<open>\<open>QuicSession::WritevData\<close>: the connection takes a part of the bytes, and may close on an error.\<close>

definition session_WritevData ::
  "stream_env \<Rightarrow> string \<Rightarrow> bool \<Rightarrow> quic_stream \<Rightarrow> (nat \<times> bool) \<times> quic_stream" where
  "session_WritevData env data fin s =
     (case send_data env (stream_bytes_written s) data fin of (n, f, err) \<Rightarrow>
        let s1 = emit (Wrote (stream_bytes_written s) (take n data) f) s
        in ((n, f), case err of None \<Rightarrow> s1 | Some e \<Rightarrow> CloseConnection env e s1))"

definition after_write ::
  "stream_env \<Rightarrow> bool \<Rightarrow> bool \<Rightarrow> nat \<Rightarrow> nat \<Rightarrow> bool \<Rightarrow> quic_stream \<Rightarrow> quic_stream" where
  "after_write env fin_with_zero_data fin write_length n f s =
     (if write_side_closed s then s
      else if n = write_length
      then let s1 = (if \<not> fin_with_zero_data then MaybeSendBlocked env s else s)
           in if fin \<and> f
              then let s2 = s1\<lparr>fin_sent := True\<rparr>
                   in CloseWriteSide env (if fin_received s2 then s2\<lparr>draining := True\<rparr> else s2)
              else if fin then MarkConnectionLevelWriteBlocked s1 else s1
      else MarkConnectionLevelWriteBlocked s)"

definition WritevData :: "stream_env \<Rightarrow> string \<Rightarrow> bool \<Rightarrow> quic_stream \<Rightarrow> (nat \<times> bool) \<times> quic_stream" where
  "WritevData env data fin s =
     (if write_side_closed s then ((0, False), s)
      else
        let fin_with_zero_data = (fin \<and> data = []);
            send_window = min (SendWindowSize (stream_flow s)) (SendWindowSize (session_flow s)) in
        if send_window = 0 \<and> \<not> fin_with_zero_data then ((0, False), MaybeSendBlocked env s)
        else
          let cut = send_window < length data;
              fin1 = (fin \<and> \<not> cut);
              write_length = (if cut then send_window else length data);
              ((n, f), s1) = session_WritevData env (take write_length data) fin1 s;
              s2 = AddBytesSent env n (s1\<lparr>stream_bytes_written := u64 (stream_bytes_written s1 + n)\<rparr>)
          in ((n, f), after_write env fin_with_zero_data fin1 write_length n f s2))"

definition WriteOrBufferData :: "stream_env \<Rightarrow> string \<Rightarrow> bool \<Rightarrow> quic_stream \<Rightarrow> quic_stream" where
  "WriteOrBufferData env data fin s =
     (if data = [] \<and> \<not> fin then s
      else if fin_buffered s then s
      else if write_side_closed s then s
      else
        let s1 = s\<lparr>fin_buffered := fin\<rparr>;
            ((n, f), s2) = (if queued_data s1 = [] then WritevData env data fin s1 else ((0, False), s1))
        in if n < length data \<or> fin \<and> \<not> f
           then s2\<lparr>queued_data_bytes := u64 (queued_data_bytes s2 + length (drop n data)),
                   queued_data := queued_data s2 @ [(drop n data, 0)]\<rparr>
           else s2)"

function OnCanWrite :: "stream_env \<Rightarrow> quic_stream \<Rightarrow> quic_stream" where
  "OnCanWrite env s =
     (case queued_data s of [] \<Rightarrow> s
      | (d, offset) # rest \<Rightarrow>
        if 0 < offset \<and> length d \<le> offset then s
        else
          let fin = (rest = [] \<and> fin_buffered s);
              remaining = drop offset d;
              ((n, f), s1) = WritevData env remaining fin s;
              s2 = s1\<lparr>queued_data_bytes := u64_sub (queued_data_bytes s1) n\<rparr>
          in if n = length remaining \<and> fin = f then OnCanWrite env (s2\<lparr>queued_data := rest\<rparr>)
             else s2\<lparr>queued_data := (d, offset + n) # rest\<rparr>)"
  by pat_completeness auto
termination by (relation "measure (\<lambda>(env, s). length (queued_data s))") auto

declare OnCanWrite.simps [simp del]

lemma OnCanWrite_stops:
  "queued_data s = [] \<Longrightarrow> OnCanWrite env s = s"
  "queued_data s = (d, offset) # rest \<Longrightarrow> 0 < offset \<Longrightarrow> length d \<le> offset \<Longrightarrow> OnCanWrite env s = s"
  by (simp_all add: OnCanWrite.simps[of env s])

lemma OnCanWrite_step:
  assumes "queued_data s = (d, offset) # rest" and "\<not> (0 < offset \<and> length d \<le> offset)"
    and "WritevData env (drop offset d) fin s = ((n, f), s1)" and "fin = (rest = [] \<and> fin_buffered s)"
  shows "OnCanWrite env s =
    (let s2 = s1\<lparr>queued_data_bytes := u64_sub (queued_data_bytes s1) n\<rparr>
     in if n = length (drop offset d) \<and> fin = f then OnCanWrite env (s2\<lparr>queued_data := rest\<rparr>)
        else s2\<lparr>queued_data := (d, offset + n) # rest\<rparr>)"
  unfolding OnCanWrite.simps[of env s] assms(1) list.case prod.case if_not_P[OF assms(2)] Let_def
    assms(4)[symmetric] assms(3) by (rule refl)

definition OnWindowUpdateFrame :: "stream_env \<Rightarrow> nat \<Rightarrow> quic_stream \<Rightarrow> quic_stream" where
  "OnWindowUpdateFrame env byte_offset s =
     (case UpdateSendWindowOffset byte_offset (stream_flow s) of (again, fc) \<Rightarrow>
        let s1 = s\<lparr>stream_flow := fc\<rparr> in if again then OnCanWrite env s1 else s1)"

definition WriteHeaders :: "stream_env \<Rightarrow> header_block \<Rightarrow> bool \<Rightarrow> quic_stream \<Rightarrow> quic_stream" where
  "WriteHeaders env hs fin s =
     (let s1 = emit (WroteHeaders hs fin) s
      in if fin then CloseWriteSide env (s1\<lparr>fin_sent := True\<rparr>) else s1)"

definition SendRequest :: "stream_env \<Rightarrow> header_block \<Rightarrow> string \<Rightarrow> bool \<Rightarrow> quic_stream \<Rightarrow> quic_stream" where
  "SendRequest env hs body fin s =
     (let s1 = WriteHeaders env hs (fin \<and> body = []) s
      in if body \<noteq> [] then WriteOrBufferData env body fin s1 else s1)"

subsection \<open>The session\<close>

text \<open>
  A frame for a stream that is no longer in the map only settles the connection's flow control.
\<close>

definition UpdateFlowControlOnFinalReceivedByteOffset :: "stream_env \<Rightarrow> nat \<Rightarrow> quic_stream \<Rightarrow> quic_stream" where
  "UpdateFlowControlOnFinalReceivedByteOffset env final_byte_offset s =
     (case locally_closed_highest_offset s of None \<Rightarrow> s
      | Some known \<Rightarrow>
        let offset_diff = u64_sub final_byte_offset known in
        case UpdateHighestReceivedOffset (u64 (highest_received_byte_offset (session_flow s) + offset_diff)) (session_flow s) of
          (changed, fc) \<Rightarrow>
            let s1 = s\<lparr>session_flow := fc\<rparr> in
            if changed \<and> FlowControlViolation fc
            then SendConnectionClose env QUIC_FLOW_CONTROL_RECEIVED_TOO_MUCH_DATA s1
            else case fc_AddBytesConsumed (env_now env) (env_rtt env) offset_diff (session_flow s1) of
              (fc', fx) \<Rightarrow> (emit_flow fx (s1\<lparr>session_flow := fc'\<rparr>))\<lparr>locally_closed_highest_offset := None\<rparr>)"

definition session_OnStreamFrame :: "stream_env \<Rightarrow> stream_frame \<Rightarrow> quic_stream \<Rightarrow> quic_stream option" where
  "session_OnStreamFrame env frame s =
     (if in_session s then OnStreamFrame env frame s
      else Some (if fr_fin frame
        then UpdateFlowControlOnFinalReceivedByteOffset env (u64 (fr_offset frame + length (fr_data frame))) s else s))"

definition session_OnRstStream :: "stream_env \<Rightarrow> rst_code \<Rightarrow> nat \<Rightarrow> quic_stream \<Rightarrow> quic_stream" where
  "session_OnRstStream env code byte_offset s =
     (if in_session s then OnStreamReset env code byte_offset s
      else UpdateFlowControlOnFinalReceivedByteOffset env byte_offset s)"

definition session_OnStreamHeaders :: "string \<Rightarrow> quic_stream \<Rightarrow> quic_stream" where
  "session_OnStreamHeaders data s = (if in_session s then OnStreamHeaders data s else s)"

definition session_OnStreamHeadersComplete :: "stream_env \<Rightarrow> bool \<Rightarrow> quic_stream \<Rightarrow> quic_stream option" where
  "session_OnStreamHeadersComplete env fin s =
     (if in_session s then OnStreamHeadersComplete env fin s else Some s)"

text \<open>The stream with number 0 stands for the connection.\<close>

definition session_OnWindowUpdateFrame :: "stream_env \<Rightarrow> nat \<Rightarrow> nat \<Rightarrow> quic_stream \<Rightarrow> quic_stream" where
  "session_OnWindowUpdateFrame env sid byte_offset s =
     (if sid = kConnectionLevelId
      then s\<lparr>session_flow := snd (UpdateSendWindowOffset byte_offset (session_flow s))\<rparr>
      else if sid = stream_id s \<and> in_session s then OnWindowUpdateFrame env byte_offset s
      else s)"

text \<open>The part of \<open>QuicSession::OnCanWrite\<close> for one stream of the list of blocked ones.\<close>

definition session_OnCanWrite :: "stream_env \<Rightarrow> quic_stream \<Rightarrow> quic_stream" where
  "session_OnCanWrite env s =
     (if in_session s \<and> \<not> IsBlocked (stream_flow s) then OnCanWrite env s else s)"

subsection \<open>The SDK's side\<close>

text \<open>
  \<open>QUICSession::p_sendRequest\<close>; \<open>created\<close> is what \<open>createReliableClientStream\<close> gives. The answer \<open>None\<close> is the null
  pointer: no delegate is registered and nothing is reported.
\<close>

definition p_sendRequest ::
  "bool \<Rightarrow> quic_stream option \<Rightarrow> stream_env \<Rightarrow> header_block \<Rightarrow> string \<Rightarrow> quic_stream option" where
  "p_sendRequest p_connected created env hs body =
     (if \<not> p_connected then None
      else map_option (\<lambda>s. SendRequest env hs body True (s\<lparr>mDelegate := True, registered := True\<rparr>)) created)"

text \<open>\<open>size_t\<close> differences wrap around; the starting time 0 means that no time was taken.\<close>

definition update :: "nat \<Rightarrow> quic_stream \<Rightarrow> quic_stream" where
  "update aNowMS s =
     (if mFailed s then s
      else if mInitialMS s = 0 then s\<lparr>mInitialMS := aNowMS\<rparr>
      else if mTimeoutMS < u64_sub aNowMS (mInitialMS s)
      then let s1 = s\<lparr>mFailed := True\<rparr> in if mDelegate s1 then onQUICStreamFailed s1 else s1
      else s)"

definition session_update :: "nat \<Rightarrow> quic_stream \<Rightarrow> quic_stream" where
  "session_update aNowMS s = (if registered s then update aNowMS s else s)"

definition onSocketError :: "quic_stream \<Rightarrow> quic_stream" where
  "onSocketError s =
     (if mFailed s then s
      else let s1 = s\<lparr>mFailed := True\<rparr> in if mDelegate s1 then onQUICStreamFailed s1 else s1)"

text \<open>
  \<open>QUICSession::onQUICError\<close>: disconnecting closes the connection and deletes the session with its
  streams. A stream that is still registered after that is used after it was deleted (\<open>None\<close>).
\<close>

definition p_disconnect :: "stream_env \<Rightarrow> quic_stream \<Rightarrow> quic_stream" where
  "p_disconnect env s = (if connected s then SendConnectionClose env QUIC_PEER_GOING_AWAY s else s)"

definition onQUICError :: "stream_env \<Rightarrow> quic_stream \<Rightarrow> quic_stream option" where
  "onQUICError env s = (let s1 = p_disconnect env s in if registered s1 then None else Some s1)"

text \<open>What happens to a stream; \<open>Tick\<close> is the timer of the session's thread.\<close>

datatype stream_event =
    PeerFrame stream_frame
  | PeerReset rst_code nat
  | PeerHeaders string
  | PeerHeadersComplete bool
  | PeerWindow nat nat
  | ConnectionClosed quic_error
  | CanWrite
  | Tick nat
  | SocketError

fun stream_step :: "stream_env \<Rightarrow> stream_event \<Rightarrow> quic_stream \<Rightarrow> quic_stream option" where
  "stream_step env (PeerFrame frame) s = session_OnStreamFrame env frame s"
| "stream_step env (PeerReset code byte_offset) s = Some (session_OnRstStream env code byte_offset s)"
| "stream_step env (PeerHeaders data) s = Some (session_OnStreamHeaders data s)"
| "stream_step env (PeerHeadersComplete fin) s = session_OnStreamHeadersComplete env fin s"
| "stream_step env (PeerWindow sid byte_offset) s = Some (session_OnWindowUpdateFrame env sid byte_offset s)"
| "stream_step env (ConnectionClosed error) s = Some (CloseConnection env error s)"
| "stream_step env CanWrite s = Some (session_OnCanWrite env s)"
| "stream_step env (Tick now) s = Some (session_update now s)"
| "stream_step env SocketError s = onQUICError env s"

fun stream_run :: "(stream_env \<times> stream_event) list \<Rightarrow> quic_stream \<Rightarrow> quic_stream option" where
  "stream_run [] s = Some s"
| "stream_run ((env, e) # es) s =
     (case stream_step env e s of None \<Rightarrow> None | Some s1 \<Rightarrow> stream_run es s1)"

end
