(* ===== verification/StreamLifecycle.thy ===== *)
theory StreamLifecycle
  imports QuicStream
begin

text \<open>
  What a request on a QUIC session tells the application, in every run: the stream is \<open>live\<close> until it
  leaves the session, and \<open>gone\<close> after that.
\<close>

subsection \<open>What the application sees\<close>

definition is_app :: "quic_effect \<Rightarrow> bool" where
  "is_app e \<longleftrightarrow> (case e of AppResponse _ _ \<Rightarrow> True | AppData _ \<Rightarrow> True | AppFailed \<Rightarrow> True | AppCompleted \<Rightarrow> True
     | _ \<Rightarrow> False)"

definition app :: "quic_stream \<Rightarrow> quic_effect list" where
  "app s = filter is_app (out s)"

lemma is_app_simps [simp]:
  "is_app (AppResponse c h)" "is_app (AppData d)" "is_app AppFailed" "is_app AppCompleted"
  "\<not> is_app (SentRst i e n)" "\<not> is_app (SentConnectionClose q)" "\<not> is_app (FlowFrame f)"
  "\<not> is_app (MarkedWriteBlocked i)" "\<not> is_app (WroteHeaders hs b)" "\<not> is_app (Wrote n d b)"
  by (simp_all add: is_app_def)

text \<open>The part of a stream that decides what the application sees, and nothing else.\<close>

definition view :: "quic_stream \<Rightarrow> _" where
  "view s = ((app s, registered s, mDelegate s, mFailed s, mHeadersDelivered s, mCacheList s),
             (in_session s, visitor s, read_side_closed s, write_side_closed s, connected s, headers_decompressed s),
             (response_code s, response_headers s))"

definition log_open :: "quic_stream \<Rightarrow> bool" where
  "log_open s \<longleftrightarrow> (if mHeadersDelivered s then \<exists>c h ds. app s = AppResponse c h # map AppData ds else app s = [])"

definition log_ended :: "quic_stream \<Rightarrow> bool" where
  "log_ended s \<longleftrightarrow> app s = [AppFailed]
     \<or> (\<exists>c h ds. app s = AppResponse c h # map AppData ds @ [AppCompleted]
              \<or> app s = AppResponse c h # map AppData ds @ [AppFailed])"

definition closable :: "quic_stream \<Rightarrow> bool" where
  "closable s \<longleftrightarrow> in_session s \<and> visitor s \<and> mDelegate s
     \<and> (if registered s then \<not> mFailed s \<and> log_open s else mFailed s \<and> log_ended s)"

definition live :: "quic_stream \<Rightarrow> bool" where
  "live s \<longleftrightarrow> closable s \<and> \<not> (read_side_closed s \<and> write_side_closed s)"

definition gone :: "quic_stream \<Rightarrow> bool" where
  "gone s \<longleftrightarrow> \<not> in_session s \<and> \<not> visitor s \<and> mDelegate s \<and> read_side_closed s \<and> write_side_closed s
     \<and> \<not> registered s \<and> log_ended s"

definition known :: "quic_stream \<Rightarrow> bool" where
  "known s \<longleftrightarrow> live s \<and> connected s \<or> gone s"

lemma view_cong:
  assumes "view s = view s'"
  shows "app s = app s'" and "registered s = registered s'" and "mDelegate s = mDelegate s'"
    and "mFailed s = mFailed s'" and "mHeadersDelivered s = mHeadersDelivered s'" and "mCacheList s = mCacheList s'"
    and "in_session s = in_session s'" and "visitor s = visitor s'" and "read_side_closed s = read_side_closed s'"
    and "write_side_closed s = write_side_closed s'" and "connected s = connected s'"
    and "headers_decompressed s = headers_decompressed s'"
    and "live s = live s'" and "gone s = gone s'" and "known s = known s'"
    and "response_code s = response_code s'" and "response_headers s = response_headers s'"
  using assms by (auto simp: view_def live_def closable_def gone_def known_def log_open_def log_ended_def)

lemma view_emit [simp]:
  "\<not> is_app e \<Longrightarrow> view (emit e s) = view s" "view (emit_flow fx s) = view s"
  by (auto simp: view_def emit_def emit_flow_def app_def filter_empty_conv)

lemma app_emit [simp]: "app (emit e s) = app s @ (if is_app e then [e] else [])"
  by (simp add: app_def emit_def)

lemma emit_fields [simp]:
  "registered (emit e s) = registered s" "mDelegate (emit e s) = mDelegate s" "mFailed (emit e s) = mFailed s"
  "mHeadersDelivered (emit e s) = mHeadersDelivered s" "mCacheList (emit e s) = mCacheList s"
  "in_session (emit e s) = in_session s" "connected (emit e s) = connected s" "session_error (emit e s) = session_error s"
  by (simp_all add: emit_def)

text \<open>Updates of other fields.\<close>

lemma view_updates [simp]:
  "view (s\<lparr>stream_error := x1\<rparr>) = view s" "view (s\<lparr>connection_error := x2\<rparr>) = view s"
  "view (s\<lparr>fin_received := b1\<rparr>) = view s" "view (s\<lparr>rst_received := b2\<rparr>) = view s"
  "view (s\<lparr>fin_sent := b3\<rparr>) = view s" "view (s\<lparr>rst_sent := b4\<rparr>) = view s"
  "view (s\<lparr>fin_buffered := b5\<rparr>) = view s" "view (s\<lparr>draining := b6\<rparr>) = view s"
  "view (s\<lparr>blocked := b7\<rparr>) = view s" "view (s\<lparr>ignore_read_data := b8\<rparr>) = view s"
  "view (s\<lparr>buffered_frames := bf\<rparr>) = view s" "view (s\<lparr>stream_flow := f1\<rparr>) = view s"
  "view (s\<lparr>session_flow := f2\<rparr>) = view s" "view (s\<lparr>close_offset := n1\<rparr>) = view s"
  "view (s\<lparr>num_frames_received := n2\<rparr>) = view s" "view (s\<lparr>num_duplicate_frames_received := n3\<rparr>) = view s"
  "view (s\<lparr>num_early_frames_received := n4\<rparr>) = view s" "view (s\<lparr>stream_bytes_read := n5\<rparr>) = view s"
  "view (s\<lparr>stream_bytes_written := n6\<rparr>) = view s" "view (s\<lparr>data_length := n7\<rparr>) = view s"
  "view (s\<lparr>mInitialMS := n8\<rparr>) = view s" "view (s\<lparr>locally_closed_highest_offset := lo\<rparr>) = view s"
  "view (s\<lparr>trailers_decompressed := b9\<rparr>) = view s" "view (s\<lparr>decompressed_headers := t1\<rparr>) = view s"
  "view (s\<lparr>decompressed_trailers := t2\<rparr>) = view s" "view (s\<lparr>content_length := i1\<rparr>) = view s"
  "view (s\<lparr>response_trailers := h2\<rparr>) = view s" "view (s\<lparr>queued_data := q\<rparr>) = view s"
  "view (s\<lparr>queued_data_bytes := n9\<rparr>) = view s" "view (s\<lparr>session_error := er\<rparr>) = view s"
  by (simp_all add: view_def app_def)

lemma view_AddBytesConsumed [simp]: "view (AddBytesConsumed env n s) = view s"
  by (simp add: AddBytesConsumed_def Let_def split: prod.splits)

subsection \<open>What the stream reads from\<close>

text \<open>Only reading changes the receive buffer; closing leaves it alone.\<close>

definition reading :: "quic_stream \<Rightarrow> sequencer_buffer \<times> bool" where
  "reading s = (buffered_frames s, ignore_read_data s)"

lemma reading_cong:
  assumes "reading s = reading s'"
  shows "buffered_frames s = buffered_frames s'" and "ignore_read_data s = ignore_read_data s'"
  using assms by (simp_all add: reading_def)

lemma reading_updates [simp]:
  "reading (s\<lparr>stream_error := x1\<rparr>) = reading s" "reading (s\<lparr>connection_error := x2\<rparr>) = reading s"
  "reading (s\<lparr>fin_received := b1\<rparr>) = reading s" "reading (s\<lparr>rst_received := b2\<rparr>) = reading s"
  "reading (s\<lparr>fin_sent := b3\<rparr>) = reading s" "reading (s\<lparr>rst_sent := b4\<rparr>) = reading s"
  "reading (s\<lparr>fin_buffered := b5\<rparr>) = reading s" "reading (s\<lparr>draining := b6\<rparr>) = reading s"
  "reading (s\<lparr>blocked := b7\<rparr>) = reading s" "reading (s\<lparr>stream_flow := f1\<rparr>) = reading s"
  "reading (s\<lparr>session_flow := f2\<rparr>) = reading s" "reading (s\<lparr>close_offset := n1\<rparr>) = reading s"
  "reading (s\<lparr>num_frames_received := n2\<rparr>) = reading s" "reading (s\<lparr>num_duplicate_frames_received := n3\<rparr>) = reading s"
  "reading (s\<lparr>num_early_frames_received := n4\<rparr>) = reading s" "reading (s\<lparr>stream_bytes_read := n5\<rparr>) = reading s"
  "reading (s\<lparr>stream_bytes_written := n6\<rparr>) = reading s" "reading (s\<lparr>data_length := n7\<rparr>) = reading s"
  "reading (s\<lparr>mInitialMS := n8\<rparr>) = reading s" "reading (s\<lparr>locally_closed_highest_offset := lo\<rparr>) = reading s"
  "reading (s\<lparr>trailers_decompressed := b9\<rparr>) = reading s" "reading (s\<lparr>decompressed_headers := t1\<rparr>) = reading s"
  "reading (s\<lparr>decompressed_trailers := t2\<rparr>) = reading s" "reading (s\<lparr>content_length := i1\<rparr>) = reading s"
  "reading (s\<lparr>response_trailers := h2\<rparr>) = reading s" "reading (s\<lparr>queued_data := q\<rparr>) = reading s"
  "reading (s\<lparr>queued_data_bytes := n9\<rparr>) = reading s" "reading (s\<lparr>session_error := er\<rparr>) = reading s"
  "reading (s\<lparr>out := o1\<rparr>) = reading s" "reading (s\<lparr>registered := b10\<rparr>) = reading s"
  "reading (s\<lparr>mFailed := b11\<rparr>) = reading s" "reading (s\<lparr>mHeadersDelivered := b12\<rparr>) = reading s"
  "reading (s\<lparr>mCacheList := cs\<rparr>) = reading s" "reading (s\<lparr>in_session := b13\<rparr>) = reading s"
  "reading (s\<lparr>visitor := b14\<rparr>) = reading s" "reading (s\<lparr>read_side_closed := b15\<rparr>) = reading s"
  "reading (s\<lparr>write_side_closed := b16\<rparr>) = reading s" "reading (s\<lparr>connected := b17\<rparr>) = reading s"
  "reading (s\<lparr>headers_decompressed := b18\<rparr>) = reading s" "reading (s\<lparr>response_code := rc\<rparr>) = reading s"
  "reading (s\<lparr>response_headers := h1\<rparr>) = reading s" "reading (s\<lparr>mDelegate := b19\<rparr>) = reading s"
  by (simp_all add: reading_def)

lemma reading_emit [simp]: "reading (emit e s) = reading s" "reading (emit_flow fx s) = reading s"
  by (simp_all add: emit_def emit_flow_def)

lemma reading_AddBytesConsumed [simp]: "reading (AddBytesConsumed env n s) = reading s"
  by (simp add: AddBytesConsumed_def Let_def split: prod.splits)

subsection \<open>Data\<close>

lemma fold_received:
  "fold onQUICStreamReceivedData ds s = (if registered s then s\<lparr>out := out s @ map AppData ds\<rparr> else s)"
  by (induction ds arbitrary: s) (auto simp: onQUICStreamReceivedData_def emit_def)

lemma reading_told [simp]:
  "reading (onQUICStreamReceivedData d s) = reading s" "reading (onQUICStreamReceivedResponse c h s) = reading s"
  "reading (onQUICStreamCompleted s) = reading s" "reading (onQUICStreamFailed s) = reading s"
  "reading (should_add_incoming_data d s) = reading s" "reading (add_incoming_data d s) = reading s"
  "reading (onVisitorSentClose s) = reading s"
proof -
  show told: "reading (onQUICStreamReceivedData d s) = reading s" "reading (onQUICStreamReceivedResponse c h s) = reading s"
    "reading (onQUICStreamCompleted s) = reading s" "reading (onQUICStreamFailed s) = reading s" for c d h s
    by (simp_all add: onQUICStreamReceivedData_def onQUICStreamReceivedResponse_def onQUICStreamCompleted_def
        onQUICStreamFailed_def)
  show add: "reading (should_add_incoming_data d s) = reading s" for d s
    by (simp add: should_add_incoming_data_def fold_received told(1) Let_def)
  then show "reading (add_incoming_data d s) = reading s"
    by (simp add: add_incoming_data_def Let_def)
  show "reading (onVisitorSentClose s) = reading s"
    by (simp add: onVisitorSentClose_def Let_def told add)
qed

definition new_data :: "string \<Rightarrow> string list" where
  "new_data d = (if d = [] then [] else [d])"

lemma should_add_registered:
  assumes "registered s" and "mDelegate s"
  shows "should_add_incoming_data d s =
    (if mHeadersDelivered s then s\<lparr>out := out s @ map AppData (mCacheList s @ new_data d), mCacheList := []\<rparr>
     else s\<lparr>mCacheList := mCacheList s @ new_data d\<rparr>)"
  using assms
  by (auto simp: should_add_incoming_data_def fold_received new_data_def onQUICStreamReceivedData_def emit_def)

lemma should_add_unregistered:
  assumes "\<not> registered s"
  shows "\<exists>cs. should_add_incoming_data d s = s\<lparr>mCacheList := cs\<rparr>"
proof -
  have "\<exists>cs. s = s\<lparr>mCacheList := cs\<rparr>" by (rule exI[of _ "mCacheList s"]) simp
  with assms show ?thesis
    by (auto simp: should_add_incoming_data_def fold_received onQUICStreamReceivedData_def)
qed

lemma known_add_incoming_data:
  "live s \<Longrightarrow> live (add_incoming_data d s)" "gone s \<Longrightarrow> gone (add_incoming_data d s)"
  "in_session (add_incoming_data d s) = in_session s" "connected (add_incoming_data d s) = connected s"
proof -
  have "live s \<Longrightarrow> live (should_add_incoming_data d s)"
  proof (cases "registered s")
    case True
    assume "live s"
    with True show ?thesis
      by (auto simp: live_def closable_def should_add_registered log_open_def app_def filter_map o_def
          simp flip: map_append) blast+
  next
    case False
    assume "live s"
    with False should_add_unregistered[OF False, of d] show ?thesis
      by (auto simp: live_def closable_def log_ended_def app_def)
  qed
  moreover have "gone s \<Longrightarrow> gone (should_add_incoming_data d s)"
    using should_add_unregistered[of s d] by (auto simp: gone_def log_ended_def app_def)
  moreover have "in_session (should_add_incoming_data d s) = in_session s" "connected (should_add_incoming_data d s) = connected s"
    by (auto simp: should_add_incoming_data_def fold_received onQUICStreamReceivedData_def emit_def Let_def)
  ultimately show "live s \<Longrightarrow> live (add_incoming_data d s)" "gone s \<Longrightarrow> gone (add_incoming_data d s)"
    "in_session (add_incoming_data d s) = in_session s" "connected (add_incoming_data d s) = connected s"
    by (auto simp: add_incoming_data_def Let_def view_cong(13,14)[OF view_updates(20)])
qed

text \<open>A stream that closes tells the application all it has, and that the request is completed.\<close>

definition closing_log :: "quic_stream \<Rightarrow> quic_effect list" where
  "closing_log s =
     (if registered s \<and> \<not> mFailed s
      then (if mHeadersDelivered s then [] else [AppResponse (response_code s) (response_headers s)])
           @ map AppData (mCacheList s) @ [AppCompleted]
      else [])"

lemma onVisitorSentClose_log:
  assumes "mDelegate s"
  shows "app (onVisitorSentClose s) = app s @ closing_log s"
    and "registered (onVisitorSentClose s) \<longleftrightarrow> registered s \<and> mFailed s"
    and "in_session (onVisitorSentClose s) = in_session s" and "visitor (onVisitorSentClose s) = visitor s"
    and "mDelegate (onVisitorSentClose s)" and "connected (onVisitorSentClose s) = connected s"
    and "read_side_closed (onVisitorSentClose s) = read_side_closed s"
    and "write_side_closed (onVisitorSentClose s) = write_side_closed s"
proof -
  have open_: "app (should_add_incoming_data [] s') = app s' @ map AppData (mCacheList s')
      \<and> registered (should_add_incoming_data [] s')"
    if "registered s'" "mHeadersDelivered s'" "mDelegate s'" for s'
    using should_add_registered[OF that(1,3), of "[]"] that(1,2) by (simp add: new_data_def app_def filter_map o_def)
  define s1 where "s1 = (if \<not> mHeadersDelivered s
    then (onQUICStreamReceivedResponse (response_code s) (response_headers s) s)\<lparr>mHeadersDelivered := True\<rparr> else s)"
  have s1: "mHeadersDelivered s1" "mDelegate s1" "registered s1 = registered s" "mCacheList s1 = mCacheList s"
    "app s1 = app s @ (if registered s \<and> \<not> mHeadersDelivered s then [AppResponse (response_code s) (response_headers s)] else [])"
    using assms by (auto simp: s1_def onQUICStreamReceivedResponse_def app_def emit_def)
  have run: "onVisitorSentClose s = (if \<not> mFailed s
    then (onQUICStreamCompleted (should_add_incoming_data [] s1))\<lparr>mInitialMS := 0\<rparr> else s)"
    using assms by (simp add: onVisitorSentClose_def s1_def Let_def)
  show "app (onVisitorSentClose s) = app s @ closing_log s"
    and "registered (onVisitorSentClose s) \<longleftrightarrow> registered s \<and> mFailed s"
  proof -
    show "app (onVisitorSentClose s) = app s @ closing_log s"
    proof (cases "registered s \<and> \<not> mFailed s")
      case True
      with open_[of s1] s1 show ?thesis
        unfolding run by (simp add: closing_log_def onQUICStreamCompleted_def app_def emit_def)
    next
      case False
      then show ?thesis
      proof (cases "mFailed s")
        case True
        then show ?thesis unfolding run by (simp add: closing_log_def)
      next
        case f: False
        with False have "\<not> registered s1" by (simp add: s1)
        with should_add_unregistered[OF this, of "[]"] f False s1(5) show ?thesis
          unfolding run by (auto simp: closing_log_def onQUICStreamCompleted_def app_def)
      qed
    qed
    show "registered (onVisitorSentClose s) \<longleftrightarrow> registered s \<and> mFailed s"
    proof (cases "registered s")
      case True
      with open_[of s1] s1 show ?thesis unfolding run by (simp add: onQUICStreamCompleted_def)
    next
      case False
      then have "\<not> registered s1" by (simp add: s1)
      with should_add_unregistered[OF this, of "[]"] False show ?thesis
        unfolding run by (auto simp: onQUICStreamCompleted_def)
    qed
  qed
  show "in_session (onVisitorSentClose s) = in_session s" and "visitor (onVisitorSentClose s) = visitor s"
    and "mDelegate (onVisitorSentClose s)" and "connected (onVisitorSentClose s) = connected s"
    and "read_side_closed (onVisitorSentClose s) = read_side_closed s"
    and "write_side_closed (onVisitorSentClose s) = write_side_closed s"
    using assms
    by (auto simp: onVisitorSentClose_def should_add_incoming_data_def fold_received onQUICStreamReceivedData_def
        onQUICStreamReceivedResponse_def onQUICStreamCompleted_def emit_def Let_def)
qed

lemma closing_log_cong:
  assumes "view s = view s'" shows "closing_log s = closing_log s'"
  using view_cong[OF assms] unfolding closing_log_def by simp

subsection \<open>Closing\<close>

lemma view_close_sides:
  assumes "view s = view s'"
  shows "view (s\<lparr>read_side_closed := b\<rparr>) = view (s'\<lparr>read_side_closed := b\<rparr>)"
    and "view (s\<lparr>write_side_closed := b\<rparr>) = view (s'\<lparr>write_side_closed := b\<rparr>)"
    and "view (s\<lparr>visitor := b\<rparr>) = view (s'\<lparr>visitor := b\<rparr>)"
    and "view (s\<lparr>connected := b\<rparr>) = view (s'\<lparr>connected := b\<rparr>)"
    and "view (s\<lparr>in_session := b\<rparr>) = view (s'\<lparr>in_session := b\<rparr>)"
    and "view (s\<lparr>headers_decompressed := b\<rparr>) = view (s'\<lparr>headers_decompressed := b\<rparr>)"
  using assms by (simp_all add: view_def app_def)

definition none :: "bool \<Rightarrow> quic_stream \<Rightarrow> quic_stream" where
  "none = (\<lambda>_ s. s)"

lemma view_none:
  shows view_none_read: "view (rel_CloseReadSide none s) = view (s\<lparr>read_side_closed := True\<rparr>)"
    and view_none_write: "view (rel_CloseWriteSide none s) = view (s\<lparr>write_side_closed := True\<rparr>)"
    and view_none_rst: "view (SendRstStream none code s) = view s"
    and view_none_reset: "view (rel_Reset none code s) = view s"
proof -
  show "view (rel_CloseReadSide none s) = view (s\<lparr>read_side_closed := True\<rparr>)"
    by (cases "read_side_closed s") (simp_all add: rel_CloseReadSide_def none_def Let_def view_def app_def)
  show "view (rel_CloseWriteSide none s) = view (s\<lparr>write_side_closed := True\<rparr>)"
    by (cases "write_side_closed s") (simp_all add: rel_CloseWriteSide_def none_def Let_def view_def app_def)
  show "view (SendRstStream none code s) = view s" for s
    by (simp add: SendRstStream_def none_def)
  then show "view (rel_Reset none code s) = view s" by (simp add: rel_Reset_def)
qed

lemma reading_close:
  assumes "\<And>l s. reading (close l s) = reading s"
  shows "reading (rel_CloseReadSide close s) = reading s" and "reading (rel_CloseWriteSide close s) = reading s"
    and "reading (SendRstStream close code s) = reading s" and "reading (rel_Reset close code s) = reading s"
    and "reading (spdy_CloseWriteSide env close s) = reading s" and "reading (rel_OnClose env close s) = reading s"
    and "reading (spdy_OnClose env close s) = reading s"
proof -
  show read: "reading (rel_CloseReadSide close s) = reading s" for s
    using assms by (simp add: rel_CloseReadSide_def Let_def)
  show wr: "reading (rel_CloseWriteSide close s) = reading s" for s
    using assms by (simp add: rel_CloseWriteSide_def Let_def)
  show rst: "reading (SendRstStream close code s) = reading s" for s code
    using assms by (simp add: SendRstStream_def)
  then show reset: "reading (rel_Reset close code s) = reading s" for s code by (simp add: rel_Reset_def)
  show spdy: "reading (spdy_CloseWriteSide env close s) = reading s" for s
    by (simp add: spdy_CloseWriteSide_def wr reset)
  show on: "reading (rel_OnClose env close s) = reading s" for s
    by (simp add: rel_OnClose_def Let_def rst spdy read)
  then show "reading (spdy_OnClose env close s) = reading s" by (simp add: spdy_OnClose_def Let_def)
qed

lemma reading_closes [simp]:
  "reading (CloseStreamInner env l s) = reading s" "reading (CloseStream env s) = reading s"
  "reading (CloseReadSide env s) = reading s" "reading (CloseWriteSide env s) = reading s"
  "reading (rel_CloseWriteSide (CloseStreamInner env) s) = reading s"
  "reading (Reset env code s) = reading s" "reading (rel_OnConnectionClosed env e s) = reading s"
  "reading (CloseConnection env e s) = reading s" "reading (SendConnectionClose env e s) = reading s"
proof -
  show inner: "reading (CloseStreamInner env l s) = reading s" for l s
    by (simp add: CloseStreamInner_def reading_close Let_def)
  then show "reading (CloseStream env s) = reading s" for s by (simp add: CloseStream_def)
  note close = reading_close[of "CloseStreamInner env", OF inner]
  show sides: "reading (CloseReadSide env s) = reading s" "reading (CloseWriteSide env s) = reading s"
    "reading (rel_CloseWriteSide (CloseStreamInner env) s) = reading s"
    "reading (Reset env code s) = reading s" for s
    by (simp_all add: CloseReadSide_def CloseWriteSide_def Reset_def close)
  show con: "reading (rel_OnConnectionClosed env e s) = reading s" for s
    by (simp add: rel_OnConnectionClosed_def sides)
  show "reading (CloseConnection env e s) = reading s" for s
    by (simp add: CloseConnection_def session_OnConnectionClosed_def con inner CloseStream_def Let_def)
  then show "reading (SendConnectionClose env e s) = reading s" by (simp add: SendConnectionClose_def)
qed

lemma view_rel_OnClose:
  "view (rel_OnClose env none s) = view (s\<lparr>read_side_closed := True, write_side_closed := True\<rparr>)"
proof -
  define s0 where "s0 = rel_CloseReadSide none s"
  define s1 where "s1 = spdy_CloseWriteSide env none s0"
  have "view s1 = view (s0\<lparr>write_side_closed := True\<rparr>)"
    by (simp add: s1_def spdy_CloseWriteSide_def view_none_write view_none_reset view_close_sides(2)[OF view_none_reset])
  also have "\<dots> = view (s\<lparr>read_side_closed := True, write_side_closed := True\<rparr>)"
    unfolding s0_def by (rule view_close_sides(2)[OF view_none_read])
  finally show ?thesis
    by (simp add: rel_OnClose_def Let_def view_none_rst s1_def s0_def)
qed

lemma CloseStreamInner_gone: "\<not> in_session s \<Longrightarrow> CloseStreamInner env l s = s"
  by (simp add: CloseStreamInner_def)

text \<open>While \<open>OnClose\<close> runs, the session's method would not find the stream: it may be left out.\<close>

lemma OnClose_nested:
  assumes "\<not> in_session s"
  shows "spdy_OnClose env (CloseStreamInner env) s = spdy_OnClose env none s"
proof -
  let ?c = "CloseStreamInner env"
  have read: "rel_CloseReadSide ?c s' = rel_CloseReadSide none s'" if "\<not> in_session s'" for s'
    using that by (simp add: rel_CloseReadSide_def none_def CloseStreamInner_def Let_def)
  have wr: "rel_CloseWriteSide ?c s' = rel_CloseWriteSide none s'" if "\<not> in_session s'" for s'
    using that by (simp add: rel_CloseWriteSide_def none_def CloseStreamInner_def Let_def)
  have rst: "SendRstStream ?c e s' = SendRstStream none e s'" if "\<not> in_session s'" for s' e
    using that by (simp add: SendRstStream_def none_def CloseStreamInner_def)
  have reset: "rel_Reset ?c e s' = rel_Reset none e s'" if "\<not> in_session s'" for s' e
    using that by (simp add: rel_Reset_def rst)
  have in_: "in_session (rel_CloseReadSide none s') = in_session s'" "in_session (rel_Reset none e s') = in_session s'"
    "in_session (rel_CloseWriteSide none s') = in_session s'" for s' e
    by (simp_all add: rel_CloseReadSide_def rel_CloseWriteSide_def rel_Reset_def SendRstStream_def none_def Let_def)
  have spdy: "spdy_CloseWriteSide env ?c s' = spdy_CloseWriteSide env none s'"
    "\<not> in_session (spdy_CloseWriteSide env none s')" if "\<not> in_session s'" for s'
    using that by (auto simp: spdy_CloseWriteSide_def wr reset in_)
  show ?thesis
    using assms by (simp add: spdy_OnClose_def rel_OnClose_def read spdy in_ rst Let_def)
qed

lemma CloseStreamInner_closes:
  assumes "in_session s" and "visitor s" and "mDelegate s"
  shows "app (CloseStreamInner env l s) = app s @ closing_log s"
    and "registered (CloseStreamInner env l s) \<longleftrightarrow> registered s \<and> mFailed s"
    and "\<not> in_session (CloseStreamInner env l s)" and "\<not> visitor (CloseStreamInner env l s)"
    and "mDelegate (CloseStreamInner env l s)" and "connected (CloseStreamInner env l s) = connected s"
    and "read_side_closed (CloseStreamInner env l s)" and "write_side_closed (CloseStreamInner env l s)"
proof -
  define s1 where "s1 = (if l then s\<lparr>rst_sent := True\<rparr> else s)"
  define s2 where "s2 = (if \<not> (fin_received s1 \<or> rst_received s1)
    then s1\<lparr>locally_closed_highest_offset := Some (highest_received_byte_offset (stream_flow s1))\<rparr> else s1)"
  define s3 where "s3 = s2\<lparr>in_session := False, draining := False\<rparr>"
  define s4 where "s4 = rel_OnClose env none s3"
  have "view s2 = view s" by (simp add: s2_def s1_def)
  then have "view s3 = view (s\<lparr>in_session := False\<rparr>)"
    using view_close_sides(5)[of s2 s] by (simp add: s3_def view_updates(8))
  then have v4: "view s4 = view (s\<lparr>in_session := False, read_side_closed := True, write_side_closed := True\<rparr>)"
    unfolding s4_def view_rel_OnClose by (intro view_close_sides(1,2))
  have run: "CloseStreamInner env l s = onVisitorSentClose (s4\<lparr>visitor := False\<rparr>)"
  proof -
    have "visitor s4" using view_cong(8)[OF v4] assms(2) by simp
    moreover have "CloseStreamInner env l s = spdy_OnClose env none s3"
      using assms(1) by (simp add: CloseStreamInner_def none_def s3_def s2_def s1_def Let_def)
    ultimately show ?thesis by (simp add: spdy_OnClose_def s4_def Let_def)
  qed
  let ?t = "s4\<lparr>visitor := False\<rparr>"
  have v: "view ?t = view (s\<lparr>in_session := False, read_side_closed := True, write_side_closed := True, visitor := False\<rparr>)"
    using view_close_sides(3)[OF v4] by simp
  have d: "mDelegate ?t" using view_cong(3)[OF v] assms(3) by simp
  note close = onVisitorSentClose_log[OF d] and c = view_cong[OF v] and cl = closing_log_cong[OF v]
  show "app (CloseStreamInner env l s) = app s @ closing_log s"
    unfolding run close(1) c(1) cl by (simp add: app_def closing_log_def)
  show "registered (CloseStreamInner env l s) \<longleftrightarrow> registered s \<and> mFailed s"
    "\<not> in_session (CloseStreamInner env l s)" "\<not> visitor (CloseStreamInner env l s)"
    "mDelegate (CloseStreamInner env l s)" "connected (CloseStreamInner env l s) = connected s"
    "read_side_closed (CloseStreamInner env l s)" "write_side_closed (CloseStreamInner env l s)"
    unfolding run close(2-8) c by (simp_all add: close(5))
qed

lemma log_open_closes: "log_open s \<Longrightarrow> registered s \<Longrightarrow> \<not> mFailed s \<Longrightarrow>
    app s' = app s @ closing_log s \<Longrightarrow> log_ended s'"
  by (auto simp: log_open_def log_ended_def closing_log_def simp flip: append_assoc map_append split: if_splits)

lemma closable_sides [simp]:
  "closable (s\<lparr>read_side_closed := b1\<rparr>) = closable s" "closable (s\<lparr>write_side_closed := b2\<rparr>) = closable s"
  "closable (s\<lparr>connected := b3\<rparr>) = closable s"
  by (simp_all add: closable_def log_open_def log_ended_def app_def)

lemma closed_gone:
  assumes "closable s"
  shows "gone (CloseStreamInner env l s)"
proof -
  from assms have a: "in_session s" "visitor s" "mDelegate s" by (auto simp: closable_def)
  note c = CloseStreamInner_closes[OF a, of env l]
  have "log_ended (CloseStreamInner env l s)"
  proof (cases "registered s")
    case True
    with assms log_open_closes[OF _ True _ c(1)] show ?thesis by (auto simp: closable_def)
  next
    case False
    with assms c(1) show ?thesis by (auto simp: closable_def closing_log_def log_ended_def)
  qed
  moreover have "\<not> registered (CloseStreamInner env l s)"
    using assms unfolding c(2) by (auto simp: closable_def split: if_splits)
  ultimately show ?thesis using c by (simp add: gone_def)
qed

lemma gone_stays: "gone s \<Longrightarrow> CloseStreamInner env l s = s"
  by (simp add: gone_def CloseStreamInner_gone)

lemma closable_view: "view s = view s' \<Longrightarrow> closable s = closable s'"
  using view_cong[of s s'] by (simp add: closable_def log_open_def log_ended_def)

text \<open>\<open>s'\<close> is \<open>s\<close> after it closed: the application was told all that is left, and the end.\<close>

definition closed_from :: "quic_stream \<Rightarrow> quic_stream \<Rightarrow> bool" where
  "closed_from s s' \<longleftrightarrow> gone s' \<and> app s' = app s @ closing_log s"

lemma closed_from_gone: "closed_from s s' \<Longrightarrow> gone s'"
  by (simp add: closed_from_def)

lemma closed_from_view: "view s = view s' \<Longrightarrow> closed_from s t = closed_from s' t"
  using view_cong(1)[of s s'] closing_log_cong[of s s'] by (simp add: closed_from_def)

lemma closed_from_to_view: "view t = view t' \<Longrightarrow> closed_from s t = closed_from s t'"
  using view_cong(1,14)[of t t'] by (simp add: closed_from_def)

lemma closed_from_sides [simp]:
  "closed_from (s\<lparr>read_side_closed := b1\<rparr>) t = closed_from s t" "closed_from (s\<lparr>write_side_closed := b2\<rparr>) t = closed_from s t"
  "closed_from (s\<lparr>connected := b3\<rparr>) t = closed_from s t"
  by (simp_all add: closed_from_def app_def closing_log_def)

lemma closed_close: "closable s \<Longrightarrow> closed_from s (CloseStreamInner env l s)"
  using CloseStreamInner_closes(1)[of s env l] closed_gone[of s env l] by (simp add: closed_from_def closable_def)

lemma Reset_cases:
  shows "closable s \<Longrightarrow> closed_from s (Reset env e s)" and "gone s \<Longrightarrow> gone (Reset env e s)"
proof -
  define s1 where "s1 = (let s1 = s\<lparr>stream_error := e\<rparr> in
    if connected s1 then emit (SentRst (stream_id s1) e (stream_bytes_written s1)) s1 else s1)"
  have v: "view s1 = view s" by (simp add: s1_def Let_def)
  have run: "view (Reset env e s) = view (CloseStreamInner env True s1)"
    by (simp add: Reset_def rel_Reset_def SendRstStream_def s1_def Let_def)
  show "closed_from s (Reset env e s)" if "closable s"
    using closed_close[of s1 env True] that closable_view[OF v] closed_from_view[OF v] closed_from_to_view[OF run] by simp
  show "gone (Reset env e s)" if "gone s"
    using that gone_stays[of s1 env True] view_cong(14)[OF v] view_cong(14)[OF run] by simp
qed

lemma Reset_gone: "closable s \<or> gone s \<Longrightarrow> gone (Reset env e s)"
  using Reset_cases[of s env e] closed_from_gone by blast

text \<open>After a side is closed, the stream is gone or lives on with that side closed.\<close>

lemma CloseReadSide_cases:
  assumes "live s"
  shows "closed_from s (CloseReadSide env s) \<or> \<not> write_side_closed s \<and> CloseReadSide env s = s\<lparr>read_side_closed := True\<rparr>"
    and "write_side_closed s \<Longrightarrow> closed_from s (CloseReadSide env s)"
  using assms closed_close[of "s\<lparr>read_side_closed := True\<rparr>" env False]
  by (auto simp: CloseReadSide_def rel_CloseReadSide_def live_def Let_def)

lemma rel_CloseWriteSide_cases:
  assumes "live s"
  shows "closed_from s (rel_CloseWriteSide (CloseStreamInner env) s)
    \<or> \<not> read_side_closed s \<and> rel_CloseWriteSide (CloseStreamInner env) s = s\<lparr>write_side_closed := True\<rparr>"
    and "read_side_closed s \<Longrightarrow> closed_from s (rel_CloseWriteSide (CloseStreamInner env) s)"
  using assms closed_close[of "s\<lparr>write_side_closed := True\<rparr>" env False]
  by (auto simp: rel_CloseWriteSide_def live_def Let_def)

lemma gone_CloseSides:
  assumes "gone s"
  shows "CloseReadSide env s = s" and "rel_CloseWriteSide (CloseStreamInner env) s = s" and "gone (CloseWriteSide env s)"
proof -
  have w: "rel_CloseWriteSide (CloseStreamInner env) s = s" if "gone s" for s
    using that by (simp add: rel_CloseWriteSide_def gone_def)
  then show "rel_CloseWriteSide (CloseStreamInner env) s = s" using assms .
  show "CloseReadSide env s = s" using assms by (simp add: CloseReadSide_def rel_CloseReadSide_def gone_def)
  show "gone (CloseWriteSide env s)"
    using assms w Reset_gone[of s env QUIC_STREAM_NO_ERROR] w[of "Reset env QUIC_STREAM_NO_ERROR s"]
    by (auto simp: CloseWriteSide_def spdy_CloseWriteSide_def Reset_def[symmetric])
qed

lemma CloseWriteSide_cases:
  assumes "live s"
  shows "closed_from s (CloseWriteSide env s)
    \<or> \<not> read_side_closed s \<and> CloseWriteSide env s = s\<lparr>write_side_closed := True\<rparr>"
    and "read_side_closed s \<Longrightarrow> closed_from s (CloseWriteSide env s)"
proof -
  have r: "closed_from s (Reset env QUIC_STREAM_NO_ERROR s)" using Reset_cases(1)[of s] assms by (simp add: live_def)
  note r = r gone_CloseSides(2)[OF closed_from_gone[OF r], of env]
  show "closed_from s (CloseWriteSide env s) \<or> \<not> read_side_closed s \<and> CloseWriteSide env s = s\<lparr>write_side_closed := True\<rparr>"
    and "read_side_closed s \<Longrightarrow> closed_from s (CloseWriteSide env s)"
    using rel_CloseWriteSide_cases[OF assms, of env] r
    by (auto simp: CloseWriteSide_def spdy_CloseWriteSide_def Reset_def[symmetric])
qed

lemma live_sides:
  "live s \<Longrightarrow> \<not> write_side_closed s \<Longrightarrow> live (s\<lparr>read_side_closed := True\<rparr>)"
  "live s \<Longrightarrow> \<not> read_side_closed s \<Longrightarrow> live (s\<lparr>write_side_closed := True\<rparr>)"
  by (simp_all add: live_def)

lemma CloseBoth_closes: "live s \<Longrightarrow> closed_from s (CloseReadSide env (CloseWriteSide env s))"
proof -
  assume l: "live s"
  from CloseWriteSide_cases(1)[OF l, of env] show ?thesis
  proof
    assume "closed_from s (CloseWriteSide env s)"
    then show ?thesis by (simp add: gone_CloseSides(1)[OF closed_from_gone])
  next
    assume w: "\<not> read_side_closed s \<and> CloseWriteSide env s = s\<lparr>write_side_closed := True\<rparr>"
    with live_sides(2)[OF l] CloseReadSide_cases(2)[of "s\<lparr>write_side_closed := True\<rparr>" env] show ?thesis by simp
  qed
qed

subsection \<open>The operations\<close>

lemma CloseConnection_cases:
  shows "live s \<Longrightarrow> connected s \<Longrightarrow> closed_from s (CloseConnection env e s)"
    and "gone s \<Longrightarrow> gone (CloseConnection env e s)"
proof -
  define s1 where "s1 = (let s0 = s\<lparr>connected := False\<rparr> in
    if session_error s0 = QUIC_NO_ERROR then s0\<lparr>session_error := e\<rparr> else s0)"
  have v: "view s1 = view (s\<lparr>connected := False\<rparr>)" by (simp add: s1_def Let_def)
  have run: "CloseConnection env e s = (if \<not> connected s then s else if \<not> in_session s1 then s1
    else let s2 = rel_OnConnectionClosed env e s1 in if in_session s2 then CloseStream env s2 else s2)"
    by (simp add: CloseConnection_def session_OnConnectionClosed_def s1_def Let_def)
  show "closed_from s (CloseConnection env e s)" if "live s" "connected s"
  proof -
    have l: "live s1" using that view_cong(13)[OF v] by (simp add: live_def)
    define s2 where "s2 = (if e \<noteq> QUIC_NO_ERROR
      then s1\<lparr>stream_error := QUIC_STREAM_CONNECTION_ERROR, connection_error := e\<rparr> else s1)"
    have v2: "view s2 = view s1" by (simp add: s2_def)
    with l have l2: "live s2" using view_cong(13) by blast
    have "rel_OnConnectionClosed env e s1 = CloseReadSide env (CloseWriteSide env s2)"
      using l by (auto simp: rel_OnConnectionClosed_def live_def s2_def)
    with CloseBoth_closes[OF l2, of env] closed_from_view[OF v2] closed_from_view[OF v]
    have "closed_from s (rel_OnConnectionClosed env e s1)" by simp
    moreover have "in_session s1" using l by (simp add: live_def closable_def)
    ultimately show ?thesis using that(2) closed_from_gone unfolding run by (fastforce simp: gone_def Let_def)
  qed
  show "gone (CloseConnection env e s)" if "gone s"
  proof -
    have "gone (s\<lparr>connected := False\<rparr>)" using that by (simp add: gone_def log_ended_def app_def)
    then have "gone s1" using view_cong(14)[OF v] by simp
    then show ?thesis using that unfolding run by (simp add: gone_def)
  qed
qed

lemma CloseConnection_gone: "known s \<Longrightarrow> gone (CloseConnection env e s)"
  using CloseConnection_cases[of s env e] by (auto simp: known_def dest: closed_from_gone)

lemma known_view: "view s = view s' \<Longrightarrow> known s = known s'"
  by (rule view_cong(15))

lemma SendConnectionClose_gone: "known s \<Longrightarrow> gone (SendConnectionClose env e s)"
  using CloseConnection_gone[of "emit (SentConnectionClose e) s" env e] known_view[OF view_emit(1), of "SentConnectionClose e" s]
  by (simp add: SendConnectionClose_def)

text \<open>For a closed stream nothing of the view changes any more.\<close>

lemma gone_view:
  assumes "gone s"
  shows "view (Reset env e s) = view s" and "view (CloseWriteSide env s) = view s"
    and "view (CloseConnection env q s) = view (s\<lparr>connected := False\<rparr>)"
proof -
  have reset: "view (Reset env e s) = view s" if "gone s" for e s
  proof -
    define s1 where "s1 = (let s1 = s\<lparr>stream_error := e\<rparr> in
      if connected s1 then emit (SentRst (stream_id s1) e (stream_bytes_written s1)) s1 else s1)"
    have v: "view s1 = view s" by (simp add: s1_def Let_def)
    have "view (Reset env e s) = view (CloseStreamInner env True s1)"
      by (simp add: Reset_def rel_Reset_def SendRstStream_def s1_def Let_def)
    then show ?thesis using gone_stays[of s1 env True] view_cong(14)[OF v] that v by simp
  qed
  from this[OF assms] show "view (Reset env e s) = view s" .
  have "rel_CloseWriteSide (CloseStreamInner env) t = t" if "gone t" for t
    using that by (rule gone_CloseSides(2))
  with reset[OF assms] assms Reset_gone[of s env QUIC_STREAM_NO_ERROR]
  show "view (CloseWriteSide env s) = view s"
    by (simp add: CloseWriteSide_def spdy_CloseWriteSide_def Reset_def[symmetric])
  show "view (CloseConnection env q s) = view (s\<lparr>connected := False\<rparr>)"
  proof (cases "connected s")
    case True
    with assms show ?thesis by (simp add: CloseConnection_def session_OnConnectionClosed_def gone_def Let_def)
  next
    case False
    then show ?thesis by (simp add: CloseConnection_def view_def app_def)
  qed
qed

end
