(* ===== verification/StreamInvariant.thy ===== *)
theory StreamInvariant
  imports StreamLifecycle
begin

text \<open>
  What every operation of a QUIC stream keeps. A property of streams that survives the few basic
  changes (a side closed, the stream closed, a round of reading, a frame stored) survives every
  event of a request; the locales below state the basic changes, and their lemmas walk the code.
\<close>

text \<open>
  An operation gives a stream with the property; \<open>faults\<close> tells whether it may give none, by a
  fault of the receive buffer or a loop that does not end.
\<close>

definition gives :: "bool \<Rightarrow> ('a \<Rightarrow> bool) \<Rightarrow> 'a option \<Rightarrow> bool" where
  "gives faults P r \<longleftrightarrow> (case r of None \<Rightarrow> faults | Some s \<Rightarrow> P s)"

lemma gives_simps [simp]: "gives faults P None = faults" "gives faults P (Some s) = P s"
  by (simp_all add: gives_def)

lemma givesD: "gives faults P r \<Longrightarrow> r = Some s \<Longrightarrow> P s"
  by simp

lemma gives_map: "gives faults P r \<Longrightarrow> (\<And>s. P s \<Longrightarrow> Q (f s)) \<Longrightarrow> gives faults Q (map_option f r)"
  by (cases r) auto

lemma gives_then:
  "gives faults P r \<Longrightarrow> (\<And>s. P s \<Longrightarrow> gives faults Q (f s)) \<Longrightarrow> gives faults Q (case r of None \<Rightarrow> None | Some s \<Rightarrow> f s)"
  by (cases r) auto

subsection \<open>Closing\<close>

locale closing_invariant =
  fixes P :: "quic_stream \<Rightarrow> bool"
  assumes P_known: "P s \<Longrightarrow> known s"
    and P_same: "view s = view s' \<Longrightarrow> reading s = reading s' \<Longrightarrow> P s = P s'"
    and P_closed: "P s \<Longrightarrow> closed_from s s' \<Longrightarrow> reading s' = reading s \<Longrightarrow> P s'"
    and P_gone: "P s \<Longrightarrow> gone s \<Longrightarrow> P (s\<lparr>connected := False\<rparr>)"
    and P_read: "P s \<Longrightarrow> \<not> write_side_closed s \<Longrightarrow> P (s\<lparr>read_side_closed := True\<rparr>)"
    and P_write: "P s \<Longrightarrow> \<not> read_side_closed s \<Longrightarrow> P (s\<lparr>write_side_closed := True\<rparr>)"
begin

lemma P_updates [simp]:
  "P (s\<lparr>stream_error := x1\<rparr>) = P s" "P (s\<lparr>fin_received := b1\<rparr>) = P s" "P (s\<lparr>rst_received := b2\<rparr>) = P s"
  "P (s\<lparr>fin_sent := b3\<rparr>) = P s" "P (s\<lparr>fin_buffered := b5\<rparr>) = P s" "P (s\<lparr>draining := b6\<rparr>) = P s"
  "P (s\<lparr>blocked := b7\<rparr>) = P s" "P (s\<lparr>stream_flow := f1\<rparr>) = P s"
  "P (s\<lparr>session_flow := f2\<rparr>) = P s" "P (s\<lparr>close_offset := n1\<rparr>) = P s"
  "P (s\<lparr>num_frames_received := n2\<rparr>) = P s" "P (s\<lparr>num_duplicate_frames_received := n3\<rparr>) = P s"
  "P (s\<lparr>num_early_frames_received := n4\<rparr>) = P s" "P (s\<lparr>stream_bytes_read := n5\<rparr>) = P s"
  "P (s\<lparr>stream_bytes_written := n6\<rparr>) = P s" "P (s\<lparr>mInitialMS := n8\<rparr>) = P s" "P (s\<lparr>draining := b6\<rparr>) = P s"
  "P (s\<lparr>locally_closed_highest_offset := lo\<rparr>) = P s" "P (s\<lparr>trailers_decompressed := b9\<rparr>) = P s"
  "P (s\<lparr>decompressed_headers := t1\<rparr>) = P s" "P (s\<lparr>decompressed_trailers := t2\<rparr>) = P s"
  "P (s\<lparr>content_length := i1\<rparr>) = P s" "P (s\<lparr>response_trailers := h2\<rparr>) = P s"
  "P (s\<lparr>queued_data := q\<rparr>) = P s" "P (s\<lparr>queued_data_bytes := n9\<rparr>) = P s"
  "P (emit_flow fx s) = P s" "P (AddBytesConsumed env n s) = P s"
  by (rule P_same; simp)+

lemma P_emit [simp]: "\<not> is_app e \<Longrightarrow> P (emit e s) = P s"
  by (rule P_same) simp_all

lemma P_alive: "P s \<Longrightarrow> live s \<and> connected s \<or> gone s"
  using P_known[of s] by (auto simp: known_def)

lemma P_CloseReadSide: "P s \<Longrightarrow> P (CloseReadSide env s)"
proof -
  assume P: "P s"
  from P_alive[OF P] show ?thesis
  proof
    assume "live s \<and> connected s"
    with CloseReadSide_cases(1)[of s env] P_closed[OF P _ reading_closes(3)] P_read[OF P] show ?thesis by fastforce
  qed (use P gone_CloseSides(1)[of s env] in simp)
qed

lemma P_CloseWriteSide: "P s \<Longrightarrow> P (CloseWriteSide env s)"
proof -
  assume P: "P s"
  from P_alive[OF P] show ?thesis
  proof
    assume "live s \<and> connected s"
    with CloseWriteSide_cases(1)[of s env] P_closed[OF P _ reading_closes(4)] P_write[OF P] show ?thesis by fastforce
  next
    assume "gone s"
    with P P_same[OF gone_view(2) reading_closes(4)] show ?thesis by simp
  qed
qed

lemma P_Reset: "P s \<Longrightarrow> P (Reset env e s)"
  using P_alive[of s] Reset_cases(1)[of s env e] P_closed[OF _ _ reading_closes(6), of s env e]
    P_same[OF gone_view(1) reading_closes(6), of s env e]
  by (auto simp: live_def)

lemma P_CloseConnection: "P s \<Longrightarrow> P (CloseConnection env e s)"
  using P_alive[of s] CloseConnection_cases(1)[of s env e] P_closed[OF _ _ reading_closes(8), of s env e]
    P_same[OF gone_view(3), of s env e] P_gone[of s]
  by auto

lemma P_SendConnectionClose: "P s \<Longrightarrow> P (SendConnectionClose env e s)"
  by (simp add: SendConnectionClose_def P_CloseConnection)

lemma P_OnFinRead: "P s \<Longrightarrow> P (OnFinRead env s)"
  by (simp add: OnFinRead_def P_CloseReadSide)

lemma P_after_reading: "P s \<Longrightarrow> P (snd (after_reading env s))"
  by (simp add: after_reading_def Let_def P_OnFinRead)

end

subsection \<open>What writing depends on\<close>

text \<open>
  The bytes put on the wire, the bytes waiting, the two windows, and whether the reader has given up (then closing
  the write side resets the stream); the third part of a stream.
\<close>

fun writes :: "quic_effect list \<Rightarrow> (nat \<times> string \<times> bool) list" where
  "writes [] = []"
| "writes (Wrote off d fin # es) = (off, d, fin) # writes es"
| "writes (_ # es) = writes es"

definition sent_part :: "flow_controller \<Rightarrow> nat \<times> nat" where
  "sent_part fc = (fc_bytes_sent fc, send_window_offset fc)"

definition sending :: "quic_stream \<Rightarrow> _" where
  "sending s = ((writes (out s), SentConnectionClose QUIC_FLOW_CONTROL_SENT_TOO_MUCH_DATA \<in> set (out s)),
     (queued_data s, queued_data_bytes s, fin_buffered s, stream_bytes_written s),
     (sent_part (stream_flow s), sent_part (session_flow s)), ignore_read_data s)"

lemma writes_append [simp]: "writes (es @ es') = writes es @ writes es'"
  by (induction es rule: writes.induct) simp_all

lemma writes_flow [simp]: "writes (map FlowFrame fx) = []"
  by (induction fx) simp_all

lemma sending_updates [simp]:
  "sending (s\<lparr>stream_error := x1\<rparr>) = sending s" "sending (s\<lparr>connection_error := x2\<rparr>) = sending s"
  "sending (s\<lparr>fin_received := b1\<rparr>) = sending s" "sending (s\<lparr>rst_received := b2\<rparr>) = sending s"
  "sending (s\<lparr>fin_sent := b3\<rparr>) = sending s" "sending (s\<lparr>rst_sent := b4\<rparr>) = sending s"
  "sending (s\<lparr>draining := b6\<rparr>) = sending s" "sending (s\<lparr>blocked := b7\<rparr>) = sending s"
  "sending (s\<lparr>buffered_frames := bf\<rparr>) = sending s" "sending (s\<lparr>close_offset := n1\<rparr>) = sending s"
  "sending (s\<lparr>num_frames_received := n2\<rparr>) = sending s" "sending (s\<lparr>num_duplicate_frames_received := n3\<rparr>) = sending s"
  "sending (s\<lparr>num_early_frames_received := n4\<rparr>) = sending s" "sending (s\<lparr>stream_bytes_read := n5\<rparr>) = sending s"
  "sending (s\<lparr>data_length := n7\<rparr>) = sending s" "sending (s\<lparr>mInitialMS := n8\<rparr>) = sending s"
  "sending (s\<lparr>locally_closed_highest_offset := lo\<rparr>) = sending s"
  "sending (s\<lparr>trailers_decompressed := b9\<rparr>) = sending s" "sending (s\<lparr>decompressed_headers := t1\<rparr>) = sending s"
  "sending (s\<lparr>decompressed_trailers := t2\<rparr>) = sending s" "sending (s\<lparr>content_length := i1\<rparr>) = sending s"
  "sending (s\<lparr>response_trailers := h2\<rparr>) = sending s" "sending (s\<lparr>session_error := er\<rparr>) = sending s"
  "sending (s\<lparr>registered := b10\<rparr>) = sending s" "sending (s\<lparr>mFailed := b11\<rparr>) = sending s"
  "sending (s\<lparr>mHeadersDelivered := b12\<rparr>) = sending s" "sending (s\<lparr>mCacheList := cs\<rparr>) = sending s"
  "sending (s\<lparr>in_session := b13\<rparr>) = sending s" "sending (s\<lparr>visitor := b14\<rparr>) = sending s"
  "sending (s\<lparr>read_side_closed := b15\<rparr>) = sending s" "sending (s\<lparr>write_side_closed := b16\<rparr>) = sending s"
  "sending (s\<lparr>connected := b17\<rparr>) = sending s" "sending (s\<lparr>headers_decompressed := b18\<rparr>) = sending s"
  "sending (s\<lparr>response_code := rc\<rparr>) = sending s" "sending (s\<lparr>response_headers := h1\<rparr>) = sending s"
  by (simp_all add: sending_def)

lemma sending_emit [simp]:
  "sending (emit (SentRst i e n) s) = sending s" "sending (emit (FlowFrame f) s) = sending s"
  "sending (emit (MarkedWriteBlocked i) s) = sending s" "sending (emit (WroteHeaders hs b) s) = sending s"
  "sending (emit (AppResponse c hs) s) = sending s" "sending (emit (AppData d) s) = sending s"
  "sending (emit AppFailed s) = sending s" "sending (emit AppCompleted s) = sending s"
  "q \<noteq> QUIC_FLOW_CONTROL_SENT_TOO_MUCH_DATA \<Longrightarrow> sending (emit (SentConnectionClose q) s) = sending s"
  "sending (emit_flow fx s) = sending s"
  by (auto simp: sending_def emit_def emit_flow_def)

lemma sending_flow:
  "sent_part f = sent_part (stream_flow s) \<Longrightarrow> sending (s\<lparr>stream_flow := f\<rparr>) = sending s"
  "sent_part f = sent_part (session_flow s) \<Longrightarrow> sending (s\<lparr>session_flow := f\<rparr>) = sending s"
  by (simp_all add: sending_def)

lemma sent_part_ops [simp]:
  "sent_part (snd (UpdateHighestReceivedOffset n fc)) = sent_part fc"
  "sent_part (fst (fc_AddBytesConsumed now rtt n fc)) = sent_part fc"
  "sent_part (fst (fc_MaybeSendBlocked fc)) = sent_part fc"
  by (simp_all add: sent_part_def flow_ops Let_def)

lemma sending_AddBytesConsumed [simp]: "sending (AddBytesConsumed env n s) = sending s"
  by (simp add: AddBytesConsumed_def Let_def case_prod_unfold sending_flow)

subsection \<open>Every event\<close>

text \<open>
  \<open>F\<close> says which frames with data are accepted, \<open>ok\<close> in which surroundings something is written. The
  laws are those of closing, of reading (a round of \<open>OnDataAvailable\<close>, that its loop ends, and the
  changes of the receive buffer) and of writing.
\<close>

definition event_ok :: "(stream_frame \<Rightarrow> bool) \<Rightarrow> stream_event \<Rightarrow> bool" where
  "event_ok F e \<longleftrightarrow> (case e of PeerFrame frame \<Rightarrow> fr_data frame = [] \<or> F frame | _ \<Rightarrow> True)"

locale event_invariant =
  fixes P :: "quic_stream \<Rightarrow> bool"
    and F :: "stream_frame \<Rightarrow> bool"
    and ok :: "stream_env \<Rightarrow> bool"
    and faults :: bool
  assumes E_same: "view s = view s' \<Longrightarrow> reading s = reading s' \<Longrightarrow> sending s = sending s' \<Longrightarrow> P s = P s'"
    and E_close: "P s \<Longrightarrow> P (CloseReadSide env s)" "P s \<Longrightarrow> P (CloseWriteSide env s)"
      "P s \<Longrightarrow> P (Reset env code s)" "P s \<Longrightarrow> P (CloseConnection env e s)"
    and E_round: "P s \<Longrightarrow> gives faults (\<lambda>(again, s'). P s') (read_round env s)"
    and E_loop: "P s \<Longrightarrow> OnDataAvailable env s = None \<Longrightarrow> faults"
    and E_store: "P s \<Longrightarrow> F frame \<Longrightarrow> fr_data frame \<noteq> [] \<Longrightarrow>
      gives faults (\<lambda>(e, n, b). P (s\<lparr>buffered_frames := b\<rparr>)) (OnStreamData (fr_offset frame) (fr_data frame) t (buffered_frames s))"
    and E_clear: "P s \<Longrightarrow> P (s\<lparr>buffered_frames := Clear (buffered_frames s)\<rparr>)"
    and E_flush: "P s \<Longrightarrow> ignore_read_data s \<Longrightarrow> P (s\<lparr>buffered_frames := snd (FlushBufferedFrames (buffered_frames s))\<rparr>)"
    and E_write: "P s \<Longrightarrow> ok env \<Longrightarrow> P (OnCanWrite env s)"
    and E_window: "P s \<Longrightarrow> ok env \<Longrightarrow> P (OnWindowUpdateFrame env n s)"
      "P s \<Longrightarrow> P (s\<lparr>session_flow := snd (UpdateSendWindowOffset n (session_flow s))\<rparr>)"
    and E_disconnect: "P s \<Longrightarrow> registered (p_disconnect env s) \<Longrightarrow> faults"
begin

lemma E_updates [simp]:
  "P (s\<lparr>stream_error := x1\<rparr>) = P s" "P (s\<lparr>fin_received := b1\<rparr>) = P s" "P (s\<lparr>rst_received := b2\<rparr>) = P s"
  "P (s\<lparr>blocked := b7\<rparr>) = P s" "P (s\<lparr>close_offset := n1\<rparr>) = P s"
  "P (s\<lparr>num_frames_received := n2\<rparr>) = P s" "P (s\<lparr>num_duplicate_frames_received := n3\<rparr>) = P s"
  "P (s\<lparr>num_early_frames_received := n4\<rparr>) = P s" "P (s\<lparr>stream_bytes_read := n5\<rparr>) = P s"
  "P (s\<lparr>mInitialMS := n8\<rparr>) = P s" "P (s\<lparr>draining := b6\<rparr>) = P s"
  "P (s\<lparr>locally_closed_highest_offset := lo\<rparr>) = P s" "P (s\<lparr>trailers_decompressed := b9\<rparr>) = P s"
  "P (s\<lparr>decompressed_headers := t1\<rparr>) = P s" "P (s\<lparr>decompressed_trailers := t2\<rparr>) = P s"
  "P (s\<lparr>content_length := i1\<rparr>) = P s" "P (s\<lparr>response_trailers := h2\<rparr>) = P s"
  "P (emit_flow fx s) = P s" "P (AddBytesConsumed env n s) = P s"
  by (rule E_same; simp)+

lemma E_flows:
  "sent_part f = sent_part (stream_flow s) \<Longrightarrow> P (s\<lparr>stream_flow := f\<rparr>) = P s"
  "sent_part f = sent_part (session_flow s) \<Longrightarrow> P (s\<lparr>session_flow := f\<rparr>) = P s"
  by (rule E_same; simp add: sending_flow)+

lemma P_SendConnectionClose_of:
  "q \<noteq> QUIC_FLOW_CONTROL_SENT_TOO_MUCH_DATA \<Longrightarrow> P s \<Longrightarrow> P (SendConnectionClose env q s)"
  using E_same[of "emit (SentConnectionClose q) s" s] by (simp add: SendConnectionClose_def E_close(4))

lemma P_FinRead: "P s \<Longrightarrow> P (OnFinRead env s)"
  by (simp add: OnFinRead_def E_close(1))

lemma P_OnDataAvailable: "P s \<Longrightarrow> gives faults P (OnDataAvailable env s)"
proof -
  have "P s \<longrightarrow> P s'" if ret: "OnDataAvailable env s = Some s'" for s'
  proof (rule OnDataAvailable.raw_induct[where P = "\<lambda>env s s'. P s \<longrightarrow> P s'", OF _ ret])
    fix f :: "stream_env \<Rightarrow> quic_stream \<Rightarrow> quic_stream option" and env s s'
    assume IH: "\<And>env s y. f env s = Some y \<Longrightarrow> P s \<longrightarrow> P y"
      and run: "(case read_round env s of None \<Rightarrow> None | Some (again, s1) \<Rightarrow> if again then f env s1 else Some s1) = Some s'"
    then obtain again s1 where r: "read_round env s = Some (again, s1)" by (auto split: option.splits)
    show "P s \<longrightarrow> P s'"
      using E_round[of s env] run IH[of env s1 s'] unfolding r by (cases again) simp_all
  qed
  then show "P s \<Longrightarrow> gives faults P (OnDataAvailable env s)"
    using E_loop[of s env] by (cases "OnDataAvailable env s") auto
qed

lemma P_SetUnblocked: "P s \<Longrightarrow> gives faults P (SetUnblocked env s)"
  by (simp add: SetUnblocked_def Let_def P_OnDataAvailable)

lemma P_MaybeCloseStream: "P s \<Longrightarrow> gives faults P (MaybeCloseStream env s)"
  using gives_map[OF P_OnDataAvailable, of s P "\<lambda>s1. s1\<lparr>buffered_frames := Clear (buffered_frames s1)\<rparr>" env]
  by (auto simp: MaybeCloseStream_def P_FinRead E_clear)

lemma P_CloseStreamAtOffset: "P s \<Longrightarrow> gives faults P (CloseStreamAtOffset env n s)"
  by (simp add: CloseStreamAtOffset_def E_close(3) P_MaybeCloseStream)

lemma P_FlushBufferedFrames: "P s \<Longrightarrow> ignore_read_data s \<Longrightarrow> gives faults P (seq_FlushBufferedFrames env s)"
  using E_flush[of s]
  by (cases "FlushBufferedFrames (buffered_frames s)") (simp add: seq_FlushBufferedFrames_def P_MaybeCloseStream)

lemma P_seq_store:
  assumes P: "P s" and F: "F frame" "fr_data frame \<noteq> []"
  shows "gives faults P (seq_store env frame s)"
proof (cases "OnStreamData (fr_offset frame) (fr_data frame) (env_now env) (buffered_frames s)")
  case None
  with E_store[OF P F, of "env_now env"] show ?thesis by (simp add: seq_store_def)
next
  case (Some r)
  obtain e n b where r: "r = (e, n, b)" by (cases r)
  have P1: "P (s\<lparr>buffered_frames := b\<rparr>)" using E_store[OF P F, of "env_now env"] Some r by simp
  define s2 where "s2 = (if BytesConsumed b < fr_offset frame
    then (s\<lparr>buffered_frames := b\<rparr>)\<lparr>num_early_frames_received := num_early_frames_received (s\<lparr>buffered_frames := b\<rparr>) + 1\<rparr>
    else s\<lparr>buffered_frames := b\<rparr>)"
  have P2: "P s2" using P1 by (simp add: s2_def)
  have run: "seq_store env frame s =
    (if e = QUIC_INVALID_STREAM_DATA then Some (SendConnectionClose env QUIC_INVALID_STREAM_FRAME (s\<lparr>buffered_frames := b\<rparr>))
     else if e = QUIC_NO_ERROR \<and> n = 0
     then Some ((s\<lparr>buffered_frames := b\<rparr>)\<lparr>num_duplicate_frames_received :=
            num_duplicate_frames_received (s\<lparr>buffered_frames := b\<rparr>) + 1\<rparr>)
     else if blocked s2 then Some s2
     else if fr_offset frame = BytesConsumed (buffered_frames s2)
     then if ignore_read_data s2 then seq_FlushBufferedFrames env s2 else OnDataAvailable env s2
     else Some s2)"
    unfolding seq_store_def Some r option.case prod.case Let_def s2_def[symmetric] by (rule refl)
  show ?thesis
    unfolding run using P1 P2 P_SendConnectionClose_of P_FlushBufferedFrames[OF P2] P_OnDataAvailable[OF P2] by simp
qed

lemma P_seq_OnStreamFrame:
  assumes P: "P s" and F: "fr_data frame \<noteq> [] \<Longrightarrow> F frame"
  shows "gives faults P (seq_OnStreamFrame env frame s)"
proof -
  let ?s = "s\<lparr>num_frames_received := num_frames_received s + 1\<rparr>"
  have P1: "P ?s" using P by simp
  have "gives faults P (case CloseStreamAtOffset env n ?s of None \<Rightarrow> None
      | Some s2 \<Rightarrow> if fr_data frame = [] then Some s2 else seq_store env frame s2)" for n
    by (rule gives_then[OF P_CloseStreamAtOffset[OF P1]]) (simp add: P_seq_store F)
  then show ?thesis
    using P_SendConnectionClose_of[OF _ P1] P_seq_store[OF P1 F] by (simp add: seq_OnStreamFrame_def Let_def)
qed

lemma P_highest: "P (snd (MaybeIncreaseHighestReceivedOffset n s)) = P s"
  by (simp add: MaybeIncreaseHighestReceivedOffset_def Let_def case_prod_unfold E_flows)

lemma P_rel_OnStreamFrame:
  assumes P: "P s" and F: "fr_data frame \<noteq> [] \<Longrightarrow> F frame"
  shows "gives faults P (rel_OnStreamFrame env frame s)"
proof -
  define s2 where "s2 = (note_fin frame s)\<lparr>stream_bytes_read := u64 (stream_bytes_read (note_fin frame s) + length (fr_data frame))\<rparr>"
  obtain ch s3 where h: "MaybeIncreaseHighestReceivedOffset (u64 (fr_offset frame + length (fr_data frame))) s2 = (ch, s3)"
    by fastforce
  have P1: "P (note_fin frame s)" using P by (simp add: note_fin_def Let_def)
  then have "P s2" by (simp add: s2_def)
  then have "P s3" using P_highest[of _ s2] h by (metis snd_conv)
  with P1 show ?thesis
    unfolding rel_OnStreamFrame_def Let_def s2_def[symmetric] h
    using F by (simp add: P_SendConnectionClose_of P_seq_OnStreamFrame)
qed

lemma P_OnStreamFrame:
  "P s \<Longrightarrow> (fr_data frame \<noteq> [] \<Longrightarrow> F frame) \<Longrightarrow> gives faults P (OnStreamFrame env frame s)"
  unfolding OnStreamFrame_def client_OnStreamFrame_def
  by (rule gives_map[where P = P]) (simp_all add: P_rel_OnStreamFrame E_close(2))

lemma P_OnStreamReset: "P s \<Longrightarrow> P (OnStreamReset env e n s)"
  using P_highest[of n "s\<lparr>rst_received := True\<rparr>"]
  by (simp add: OnStreamReset_def rel_OnStreamReset_def Let_def E_close(1) E_close(2))

lemma P_MarkHeadersConsumed: "P s \<Longrightarrow> gives faults P (MarkHeadersConsumed env n s)"
  by (simp add: MarkHeadersConsumed_def Let_def P_SetUnblocked)

lemma P_spdy_OnInitialHeadersComplete:
  "P (s\<lparr>headers_decompressed := True\<rparr>) \<Longrightarrow> gives faults P (spdy_OnInitialHeadersComplete env fin s)"
  unfolding spdy_OnInitialHeadersComplete_def Let_def
  by (rule gives_then[where P = P]) (auto intro: P_OnStreamFrame P_SetUnblocked)

lemma P_OnTrailingHeadersComplete: "P s \<Longrightarrow> gives faults P (OnTrailingHeadersComplete env fin s)"
  by (auto simp: OnTrailingHeadersComplete_def spdy_OnTrailingHeadersComplete_def session_CloseConnectionWithDetails_def
      MarkTrailersConsumed_def Let_def P_SendConnectionClose_of intro!: E_close(3) P_OnStreamFrame split: prod.splits)

lemma P_final_offset: "P s \<Longrightarrow> P (UpdateFlowControlOnFinalReceivedByteOffset env n s)"
  by (simp add: UpdateFlowControlOnFinalReceivedByteOffset_def Let_def case_prod_unfold P_SendConnectionClose_of E_flows
      split: option.splits)

lemma P_onQUICError: "P s \<Longrightarrow> gives faults P (onQUICError env s)"
  using E_disconnect[of s env] by (auto simp: onQUICError_def p_disconnect_def Let_def P_SendConnectionClose_of)

text \<open>Every event but the completion of the first headers and the timer's.\<close>

lemma P_stream_step:
  assumes P: "P s" and F: "event_ok F e" and ok: "ok env"
    and headers: "\<And>fin. e = PeerHeadersComplete fin \<Longrightarrow> in_session s \<Longrightarrow> \<not> headers_decompressed s \<Longrightarrow>
      gives faults P (OnInitialHeadersComplete env fin s)"
    and timer: "\<And>now. e = Tick now \<Longrightarrow> P (session_update now s)"
  shows "gives faults P (stream_step env e s)"
proof (cases e)
  case (PeerHeadersComplete fin)
  then show ?thesis
    using P headers P_OnTrailingHeadersComplete[OF P]
    by (simp add: session_OnStreamHeadersComplete_def OnStreamHeadersComplete_def)
next
  case (PeerFrame frame)
  then show ?thesis
    using F P P_OnStreamFrame[OF P] P_final_offset[OF P] by (auto simp: event_ok_def session_OnStreamFrame_def)
next
  case SocketError
  then show ?thesis using P_onQUICError[OF P] by simp
qed (use P timer ok in \<open>simp_all add: session_OnRstStream_def session_OnStreamHeaders_def
    OnStreamHeaders_def session_OnWindowUpdateFrame_def session_OnCanWrite_def P_OnStreamReset
    P_final_offset E_window E_close E_write\<close>)

end

subsection \<open>The first headers\<close>

text \<open>
  The first complete headers also set the status and the headers of the response; a property that does not
  depend on them survives this event too.
\<close>

locale header_invariant = event_invariant +
  assumes E_headers: "P s \<Longrightarrow> P (s\<lparr>response_code := c\<rparr>)" "P s \<Longrightarrow> P (s\<lparr>response_headers := h\<rparr>)"
      "P s \<Longrightarrow> P (s\<lparr>headers_decompressed := True\<rparr>)"
begin

lemma P_read_status: "P s \<Longrightarrow> P (snd (read_status s))"
  by (simp add: read_status_def Let_def E_headers split: prod.splits)

lemma P_client_OnInitialHeadersComplete:
  "P (s\<lparr>headers_decompressed := True\<rparr>) \<Longrightarrow> gives faults P (client_OnInitialHeadersComplete env fin s)"
  unfolding client_OnInitialHeadersComplete_def
proof (rule gives_then[OF P_spdy_OnInitialHeadersComplete])
  fix s assume "P s"
  then have "P (s\<lparr>content_length := len, response_headers := hs\<rparr>)" for len hs
    using E_headers(2)[of "s\<lparr>content_length := len\<rparr>" hs] by simp
  then show "gives faults P (case ParseHeaders env (decompressed_headers s) (content_length s) (response_headers s) of
      (ok, len, hs) \<Rightarrow> let s2 = s\<lparr>content_length := len, response_headers := hs\<rparr>
        in if \<not> ok then Some (Reset env QUIC_BAD_APPLICATION_PAYLOAD s2)
           else (case read_status s2 of (ok', s3) \<Rightarrow>
             if \<not> ok' then Some (Reset env QUIC_BAD_APPLICATION_PAYLOAD s3)
             else MarkHeadersConsumed env (length (decompressed_headers s3)) s3))"
    using P_read_status by (auto simp: Let_def E_close(3) intro!: E_close(3) P_MarkHeadersConsumed split: prod.splits) (metis snd_conv)+
qed

end

subsection \<open>Every operation\<close>

text \<open>A property of what the application sees is not touched by writing.\<close>

locale stream_invariant = closing_invariant +
  fixes F :: "stream_frame \<Rightarrow> bool"
    and faults :: bool
  assumes P_round: "P s \<Longrightarrow> gives faults (\<lambda>(again, s'). P s') (read_round env s)"
    and P_loop: "P s \<Longrightarrow> OnDataAvailable env s = None \<Longrightarrow> faults"
    and P_store: "P s \<Longrightarrow> F frame \<Longrightarrow> fr_data frame \<noteq> [] \<Longrightarrow>
      gives faults (\<lambda>(e, n, b). P (s\<lparr>buffered_frames := b\<rparr>)) (OnStreamData (fr_offset frame) (fr_data frame) t (buffered_frames s))"
    and P_clear: "P s \<Longrightarrow> P (s\<lparr>buffered_frames := Clear (buffered_frames s)\<rparr>)"
    and P_flush: "P s \<Longrightarrow> ignore_read_data s \<Longrightarrow> P (s\<lparr>buffered_frames := snd (FlushBufferedFrames (buffered_frames s))\<rparr>)"
begin

lemma P_flow_out: "P s \<Longrightarrow> P (flow_out env fx s)"
  by (simp add: flow_out_def P_SendConnectionClose)

lemma P_MaybeSendBlocked: "P s \<Longrightarrow> P (MaybeSendBlocked env s)"
  by (simp add: MaybeSendBlocked_def Let_def P_flow_out MarkConnectionLevelWriteBlocked_def split: prod.splits)

lemma P_AddBytesSent: "P s \<Longrightarrow> P (AddBytesSent env n s)"
  by (simp add: AddBytesSent_def Let_def P_flow_out split: prod.splits)

lemma P_session_WritevData: "P s \<Longrightarrow> P (snd (session_WritevData env d fin s))"
  by (simp add: session_WritevData_def Let_def P_CloseConnection split: prod.splits option.splits)

lemma P_after_write: "P s \<Longrightarrow> P (after_write env z fin l n f s)"
  by (simp add: after_write_def Let_def P_MaybeSendBlocked P_CloseWriteSide MarkConnectionLevelWriteBlocked_def)

lemma P_WritevData: "P s \<Longrightarrow> P (snd (WritevData env d fin s))"
proof -
  assume P: "P s"
  have "P s1" if "session_WritevData env d' f s = (r, s1)" for d' f r s1
    using P_session_WritevData[OF P, of env d' f] that by simp
  with P show ?thesis
    by (auto simp: WritevData_def Let_def P_MaybeSendBlocked P_after_write P_AddBytesSent split: prod.splits)
qed

lemma P_WriteOrBufferData: "P s \<Longrightarrow> P (WriteOrBufferData env d fin s)"
  using P_WritevData[of "s\<lparr>fin_buffered := fin\<rparr>" env d fin]
  by (auto simp: WriteOrBufferData_def Let_def split: prod.splits)

lemma P_OnCanWrite: "P s \<Longrightarrow> P (OnCanWrite env s)"
proof (induction "length (queued_data s)" arbitrary: s rule: less_induct)
  case less
  show ?case
  proof (cases "queued_data s")
    case Nil
    with less.prems show ?thesis by (simp add: OnCanWrite_stops)
  next
    case (Cons p rest)
    obtain d off where p: "queued_data s = (d, off) # rest" using Cons by (cases p) simp
    define fin where "fin = (rest = [] \<and> fin_buffered s)"
    obtain n f s1 where w: "WritevData env (drop off d) fin s = ((n, f), s1)" by (metis prod.exhaust)
    have "P s1" using P_WritevData[OF less.prems, of env "drop off d" fin] w by simp
    define t where "t = s1\<lparr>queued_data_bytes := u64_sub (queued_data_bytes s1) n\<rparr>"
    have "P t" using \<open>P s1\<close> by (simp add: t_def)
    then have again: "P (OnCanWrite env (t\<lparr>queued_data := rest\<rparr>))" and
      stay: "P (t\<lparr>queued_data := (d, off + n) # rest\<rparr>)"
      using less.hyps[of "t\<lparr>queued_data := rest\<rparr>"] p by simp_all
    show ?thesis
    proof (cases "0 < off \<and> length d \<le> off")
      case True
      with less.prems show ?thesis by (simp add: OnCanWrite_stops(2)[OF p])
    next
      case False
      show ?thesis
        unfolding OnCanWrite_step[OF p False w fin_def] Let_def t_def[symmetric]
        using again stay by (cases "n = length (drop off d) \<and> fin = f") (simp_all only: if_True if_False simp_thms)
    qed
  qed
qed

lemma P_OnWindowUpdateFrame: "P s \<Longrightarrow> P (OnWindowUpdateFrame env n s)"
  by (simp add: OnWindowUpdateFrame_def Let_def P_OnCanWrite split: prod.splits)

lemma P_SendRequest: "P s \<Longrightarrow> P (SendRequest env hs body fin s)"
  by (simp add: SendRequest_def WriteHeaders_def Let_def P_WriteOrBufferData P_CloseWriteSide)

lemma P_disconnect: "P s \<Longrightarrow> \<not> registered (p_disconnect env s)"
  using P_known[of s] SendConnectionClose_gone[of s env QUIC_PEER_GOING_AWAY]
  by (auto simp: p_disconnect_def known_def gone_def)

end

sublocale stream_invariant \<subseteq> event_invariant P F "\<lambda>_. True" faults
proof unfold_locales
  fix s s' :: quic_stream
  show "view s = view s' \<Longrightarrow> reading s = reading s' \<Longrightarrow> sending s = sending s' \<Longrightarrow> P s = P s'"
    by (rule P_same)
qed (use P_round P_loop P_store P_clear P_flush P_disconnect in \<open>auto simp: P_CloseReadSide P_CloseWriteSide P_Reset
    P_CloseConnection P_OnCanWrite P_OnWindowUpdateFrame\<close>)

end
