(* ===== verification/StreamBody.thy ===== *)
theory StreamBody
  imports StreamInvariant
begin

text \<open>
  The body of a response: what the application is given of it, what is held back until the headers
  are complete, and what the receive buffer holds, are always one prefix of the bytes the peer sent
  and pieces of the rest; reading it never fails and ends.
\<close>

subsection \<open>What was told and what is held\<close>

definition data_of :: "quic_effect \<Rightarrow> string" where
  "data_of e = (case e of AppData d \<Rightarrow> d | _ \<Rightarrow> [])"

definition body_told :: "quic_stream \<Rightarrow> string" where
  "body_told s = concat (map data_of (app s))"

definition body_ok :: "string \<Rightarrow> quic_stream \<Rightarrow> bool" where
  "body_ok sent s \<longleftrightarrow> ring_inv (buffered_frames s)
     \<and> max_buffer_capacity_bytes (buffered_frames s) = kStreamReceiveWindowLimit \<and> \<not> ignore_read_data s
     \<and> total_bytes_read (buffered_frames s) \<le> length sent \<and> length sent + kStreamReceiveWindowLimit < maxOffset
     \<and> ring_buffered (buffered_frames s) \<subseteq>\<^sub>m slice 0 sent
     \<and> (if registered s
        then body_told s @ concat (mCacheList s) = take (total_bytes_read (buffered_frames s)) sent
        else \<exists>n. body_told s = take n sent)"

definition carries :: "string \<Rightarrow> stream_frame \<Rightarrow> bool" where
  "carries sent frame \<longleftrightarrow> (\<exists>before after. sent = before @ fr_data frame @ after \<and> length before = fr_offset frame)"

lemma data_of_simps [simp]:
  "data_of (AppData d) = d" "data_of (AppResponse c h) = []" "data_of AppFailed = []" "data_of AppCompleted = []"
  by (simp_all add: data_of_def)

lemma data_of_AppData [simp]: "data_of \<circ> AppData = id"
  by (simp add: fun_eq_iff)

lemma body_ok_cong:
  "view s = view s' \<Longrightarrow> reading s = reading s' \<Longrightarrow> body_ok sent s = body_ok sent s'"
  using view_cong(1,2,6)[of s s'] reading_cong[of s s'] by (simp add: body_ok_def body_told_def)

lemma body_told_emit: "is_app e \<Longrightarrow> body_told (emit e s) = body_told s @ data_of e"
  by (simp add: body_told_def)

lemma body_told_buffer: "body_told (s\<lparr>buffered_frames := b\<rparr>) = body_told s"
  by (simp add: body_told_def app_def)

lemma body_told_closed:
  "closed_from s s' \<Longrightarrow> body_told s' = body_told s @ (if registered s \<and> \<not> mFailed s then concat (mCacheList s) else [])"
  by (cases "registered s \<and> \<not> mFailed s") (auto simp: closed_from_def body_told_def closing_log_def)

lemma body_ok_closed:
  assumes b: "body_ok sent s" and c: "closed_from s s'" and r: "reading s' = reading s"
  shows "body_ok sent s'"
proof -
  have "\<not> registered s'" using c by (simp add: closed_from_def gone_def)
  moreover have "\<exists>n. body_told s' = take n sent"
  proof (cases "registered s")
    case True
    define n where "n = total_bytes_read (buffered_frames s)"
    have eq: "body_told s @ concat (mCacheList s) = take n sent" using b True by (simp add: body_ok_def n_def)
    then have "body_told s = take (length (body_told s)) (take n sent)" by (metis append_eq_conv_conj)
    then have "body_told s = take (min (length (body_told s)) n) sent" by simp
    with eq show ?thesis unfolding body_told_closed[OF c] by (cases "mFailed s") (auto simp: True)
  next
    case False
    with b show ?thesis unfolding body_told_closed[OF c] by (simp add: body_ok_def)
  qed
  ultimately show ?thesis using b reading_cong[OF r] by (simp add: body_ok_def)
qed

lemma body_ok_sides [simp]:
  "body_ok sent (s\<lparr>read_side_closed := b1\<rparr>) = body_ok sent s" "body_ok sent (s\<lparr>write_side_closed := b2\<rparr>) = body_ok sent s"
  "body_ok sent (s\<lparr>connected := b3\<rparr>) = body_ok sent s" "body_ok sent (s\<lparr>response_code := c\<rparr>) = body_ok sent s"
  "body_ok sent (s\<lparr>response_headers := h\<rparr>) = body_ok sent s" "body_ok sent (s\<lparr>headers_decompressed := b4\<rparr>) = body_ok sent s"
  by (simp_all add: body_ok_def body_told_def app_def)

text \<open>Data from the buffer is told or kept for later, behind what came before it.\<close>

lemma add_incoming_data_text:
  assumes "mDelegate s" and "registered s"
  shows "body_told (add_incoming_data d s) @ concat (mCacheList (add_incoming_data d s))
    = body_told s @ concat (mCacheList s) @ d"
proof -
  have "body_told (add_incoming_data d s) = body_told (should_add_incoming_data d s)"
    "mCacheList (add_incoming_data d s) = mCacheList (should_add_incoming_data d s)"
    by (simp_all add: add_incoming_data_def Let_def body_told_def app_def)
  moreover have "concat (new_data d) = d" by (simp add: new_data_def)
  ultimately show ?thesis
    by (simp add: should_add_registered[OF assms(2,1)] body_told_def app_def filter_map o_def)
qed

lemma add_incoming_data_unheard:
  assumes "\<not> registered s" shows "body_told (add_incoming_data d s) = body_told s"
  using should_add_unregistered[OF assms, of d]
  by (auto simp: add_incoming_data_def Let_def body_told_def app_def)

lemma add_incoming_data_frame:
  "registered (add_incoming_data d s) = registered s" "mHeadersDelivered (add_incoming_data d s) = mHeadersDelivered s"
  "headers_decompressed (add_incoming_data d s) = headers_decompressed s"
  "response_code (add_incoming_data d s) = response_code s" "response_headers (add_incoming_data d s) = response_headers s"
  by (auto simp: add_incoming_data_def should_add_incoming_data_def fold_received onQUICStreamReceivedData_def emit_def Let_def)

subsection \<open>The buffer\<close>

lemma Clear_keeps:
  assumes "ring_inv b"
  shows "ring_inv (Clear b)" and "ring_buffered (Clear b) = Map.empty" and "total_bytes_read (Clear b) = total_bytes_read b"
    and "max_buffer_capacity_bytes (Clear b) = max_buffer_capacity_bytes b"
proof -
  note inv = ring_invD[OF assms]
  have lt: "total_bytes_read b < maxOffset" using gaps_ok_hd[OF inv(2)] by linarith
  have f: "max_buffer_capacity_bytes (Clear b) = max_buffer_capacity_bytes b" "blocks_count (Clear b) = blocks_count b"
    "total_bytes_read (Clear b) = total_bytes_read b" "gaps (Clear b) = [(total_bytes_read b, maxOffset)]"
    by (simp_all add: Clear_def)
  show "max_buffer_capacity_bytes (Clear b) = max_buffer_capacity_bytes b" "total_bytes_read (Clear b) = total_bytes_read b"
    by (rule f)+
  show "ring_buffered (Clear b) = Map.empty" by (auto simp: fun_eq_iff ring_buffered_def f)
  show "ring_inv (Clear b)" using inv(1) lt by (auto simp: ring_inv_def ring_shape_def gaps_ok_def f)
qed

lemma carries_slice: "carries sent frame \<Longrightarrow> slice (fr_offset frame) (fr_data frame) \<subseteq>\<^sub>m slice 0 sent"
  by (auto simp: carries_def map_le_def slice_def nth_append split: if_splits)

lemma slice_le_D: "m \<subseteq>\<^sub>m slice 0 sent \<Longrightarrow> m k = Some c \<Longrightarrow> k < length sent \<and> sent ! k = c"
  by (auto simp: map_le_def slice_def dom_def split: if_splits) (metis option.distinct(1) option.sel)+

subsection \<open>Reading\<close>

lemma gives_any: "(\<And>x. Q x) \<Longrightarrow> gives True Q r"
  by (cases r) simp_all

locale log_invariant = closing_invariant +
  assumes P_view: "view s = view s' \<Longrightarrow> P s = P s'"
    and P_data: "P s \<Longrightarrow> P (add_incoming_data d s)"
begin

lemma P_buffer [simp]: "P (s\<lparr>buffered_frames := b\<rparr>) = P s"
  by (rule P_view) simp

lemma P_MarkConsumed: "P s \<Longrightarrow> gives True P (seq_MarkConsumed env n s)"
  by (cases "MarkConsumed n (buffered_frames s)") (auto simp: seq_MarkConsumed_def Let_def P_Reset)

lemma P_any_round: "P s \<Longrightarrow> gives True (\<lambda>(again, s'). P s') (read_round env s)"
proof -
  assume P: "P s"
  have after: "(\<lambda>(again, s'). P s') (after_reading env s)" using P_after_reading[OF P, of env] by (simp add: case_prod_unfold)
  have data: "P (add_incoming_data r s)" for r using P by (rule P_data)
  have mark: "gives True (\<lambda>(again, s'). P s') (map_option (Pair True) (seq_MarkConsumed env n s'))" if "P s'" for n s'
    by (rule gives_map[OF P_MarkConsumed[OF that]]) simp
  show ?thesis
    using after P_Reset[OF data] mark[OF data]
    by (auto simp: read_round_def Let_def split: option.splits list.splits)
qed

end

sublocale log_invariant \<subseteq> loose: stream_invariant P "\<lambda>_. True" True
  by (unfold_locales; (rule P_any_round | rule gives_any | simp)?) (auto split: prod.splits)

text \<open>With frames that carry pieces of one body, reading neither fails nor runs forever.\<close>

sublocale log_invariant \<subseteq> body: closing_invariant "\<lambda>s. P s \<and> body_ok sent s" for sent
proof unfold_locales
  fix s s' :: quic_stream
  show "P s \<and> body_ok sent s \<Longrightarrow> known s" using P_known by blast
  show "view s = view s' \<Longrightarrow> reading s = reading s' \<Longrightarrow> (P s \<and> body_ok sent s) = (P s' \<and> body_ok sent s')"
    using P_view body_ok_cong by metis
  show "P s \<and> body_ok sent s \<Longrightarrow> closed_from s s' \<Longrightarrow> reading s' = reading s \<Longrightarrow> P s' \<and> body_ok sent s'"
    using P_closed body_ok_closed by blast
  show "P s \<and> body_ok sent s \<Longrightarrow> gone s \<Longrightarrow> P (s\<lparr>connected := False\<rparr>) \<and> body_ok sent (s\<lparr>connected := False\<rparr>)"
    using P_gone by simp
  show "P s \<and> body_ok sent s \<Longrightarrow> \<not> write_side_closed s \<Longrightarrow>
      P (s\<lparr>read_side_closed := True\<rparr>) \<and> body_ok sent (s\<lparr>read_side_closed := True\<rparr>)"
    and "P s \<and> body_ok sent s \<Longrightarrow> \<not> read_side_closed s \<Longrightarrow>
      P (s\<lparr>write_side_closed := True\<rparr>) \<and> body_ok sent (s\<lparr>write_side_closed := True\<rparr>)"
    using P_read P_write by simp_all
qed

text \<open>One round of reading.\<close>

lemma body_region:
  assumes b: "body_ok sent s"
  shows "\<exists>rs. GetReadableRegions 1 (buffered_frames s) = Some rs
    \<and> (rs = [] \<and> \<not> seq_HasBytesToRead s
       \<or> (\<exists>r b'. rs = [r] \<and> r \<noteq> [] \<and> MarkConsumed (length r) (buffered_frames s) = Some (True, b') \<and> ring_inv b'
            \<and> total_bytes_read b' = total_bytes_read (buffered_frames s) + length r
            \<and> total_bytes_read b' \<le> length sent
            \<and> take (total_bytes_read b') sent = take (total_bytes_read (buffered_frames s)) sent @ r
            \<and> max_buffer_capacity_bytes b' = max_buffer_capacity_bytes (buffered_frames s)
            \<and> ring_buffered b' \<subseteq>\<^sub>m slice 0 sent))"
proof -
  let ?b = "buffered_frames s"
  let ?t = "total_bytes_read ?b"
  from b have inv: "ring_inv ?b" and t: "?t \<le> length sent" and le: "ring_buffered ?b \<subseteq>\<^sub>m slice 0 sent"
    by (simp_all add: body_ok_def)
  from GetReadableRegions_one[OF inv] obtain rs where rs: "GetReadableRegions 1 ?b = Some rs"
    "if ring_buffered ?b ?t = None then rs = []
     else \<exists>r. rs = [r] \<and> r \<noteq> [] \<and> (\<forall>i < length r. ring_buffered ?b (?t + i) = Some (r ! i))" by blast
  show ?thesis
  proof (cases "ring_buffered ?b ?t = None")
    case True
    then have "ReadableBytes ?b = 0" using readable_iff(1,2)[OF inv, of 0] by auto
    with True rs show ?thesis by (simp add: seq_HasBytesToRead_def HasBytesToRead_def)
  next
    case False
    with rs(2) obtain r where r: "rs = [r]" "r \<noteq> []" "\<forall>i < length r. ring_buffered ?b (?t + i) = Some (r ! i)" by auto
    then have "length r \<le> ReadableBytes ?b" using ring_readable_le[OF inv, of "length r"] by auto
    from MarkConsumed_run[OF inv this] obtain b' where b': "MarkConsumed (length r) ?b = Some (True, b')" "ring_inv b'"
      "total_bytes_read b' = ?t + length r" "max_buffer_capacity_bytes b' = max_buffer_capacity_bytes ?b"
      "ring_buffered b' = from_offset (?t + length r) (ring_buffered ?b)" by blast
    have sent: "?t + i < length sent \<and> sent ! (?t + i) = r ! i" if "i < length r" for i
      using slice_le_D[OF le] r(3) that by blast
    then have end_: "?t + length r \<le> length sent" using r(2) t
      by (metis Suc_leI add_Suc_right diff_less length_greater_0_conv less_one not_less_eq_eq Suc_diff_1)
    have "take (length r) (drop ?t sent) = r"
      by (rule nth_equalityI) (use end_ sent in auto)
    then have "take (?t + length r) sent = take ?t sent @ r" by (simp add: take_add)
    moreover have "from_offset (?t + length r) (ring_buffered ?b) \<subseteq>\<^sub>m slice 0 sent"
      using le by (auto simp: map_le_def from_offset_def split: if_splits)
    ultimately show ?thesis using rs(1) r(1,2) b' end_ by auto
  qed
qed

text \<open>The text of a registered stream after a round; otherwise nothing is told.\<close>

definition advanced :: "string \<Rightarrow> quic_stream \<Rightarrow> string \<Rightarrow> quic_stream \<Rightarrow> bool" where
  "advanced sent s r s1 \<longleftrightarrow> reading s1 = reading s
     \<and> (if registered s1 then body_told s1 @ concat (mCacheList s1) = take (total_bytes_read (buffered_frames s)) sent @ r
        else \<exists>n. body_told s1 = take n sent)"

lemma add_incoming_data_advances:
  assumes "known s" and "body_ok sent s"
  shows "advanced sent s r (add_incoming_data r s)"
proof (cases "registered s")
  case True
  with assms(1) have "mDelegate s" by (auto simp: known_def live_def closable_def gone_def)
  with True assms(2) add_incoming_data_text[of s r] show ?thesis
    by (simp add: advanced_def body_ok_def add_incoming_data_frame)
next
  case False
  with assms(2) add_incoming_data_unheard[OF False, of r] show ?thesis
    by (simp add: advanced_def body_ok_def add_incoming_data_frame)
qed

lemma advanced_closed:
  assumes b: "body_ok sent s" and r: "take n sent = take (total_bytes_read (buffered_frames s)) sent @ r"
    and a: "advanced sent s r s1" and c: "closed_from s1 s'" and rd: "reading s' = reading s1"
  shows "body_ok sent s'"
proof -
  have "\<not> registered s'" using c by (simp add: closed_from_def gone_def)
  moreover have "\<exists>n. body_told s' = take n sent"
  proof (cases "registered s1")
    case True
    with a r have eq: "body_told s1 @ concat (mCacheList s1) = take n sent" by (simp add: advanced_def)
    then have "body_told s1 = take (min (length (body_told s1)) n) sent"
      by (metis append_eq_conv_conj take_take)
    with eq True show ?thesis unfolding body_told_closed[OF c] by (cases "mFailed s1") auto
  next
    case False
    with a show ?thesis unfolding body_told_closed[OF c] by (simp add: advanced_def)
  qed
  ultimately show ?thesis using b a reading_cong[OF rd] reading_cong[of s1 s] by (simp add: body_ok_def advanced_def)
qed

lemma advanced_marked:
  assumes b: "body_ok sent s" and a: "advanced sent s r s1"
    and b': "ring_inv b'" "total_bytes_read b' \<le> length sent" "ring_buffered b' \<subseteq>\<^sub>m slice 0 sent"
      "take (total_bytes_read b') sent = take (total_bytes_read (buffered_frames s)) sent @ r"
      "max_buffer_capacity_bytes b' = max_buffer_capacity_bytes (buffered_frames s)"
  shows "body_ok sent (s1\<lparr>buffered_frames := b'\<rparr>)"
proof -
  have "ignore_read_data s1 = ignore_read_data s" using a reading_cong[of s1 s] by (simp add: advanced_def)
  then show ?thesis using b a b' by (simp add: body_ok_def advanced_def body_told_buffer)
qed

context log_invariant
begin

text \<open>A round keeps the property; when it asks for another, it has consumed bytes.\<close>

lemma body_round:
  assumes "P s \<and> body_ok sent s"
  shows "\<exists>again s'. read_round env s = Some (again, s') \<and> P s' \<and> body_ok sent s'
    \<and> (again \<longrightarrow> total_bytes_read (buffered_frames s) < total_bytes_read (buffered_frames s'))"
proof -
  from assms have P: "P s" and b: "body_ok sent s" by auto
  have after: ?thesis if stop: "read_round env s = Some (after_reading env s)" and "\<not> seq_HasBytesToRead s"
    using body.P_after_reading[OF assms, of env] that(2)
    by (cases "after_reading env s") (auto simp: stop after_reading_def Let_def seq_HasBytesToRead_def IsClosed_def split: if_splits)
  from body_region[OF b] consider (none) "GetReadableRegions 1 (buffered_frames s) = Some []" "\<not> seq_HasBytesToRead s"
    | (some) r b' where "GetReadableRegions 1 (buffered_frames s) = Some [r]" "r \<noteq> []"
        "MarkConsumed (length r) (buffered_frames s) = Some (True, b')" "ring_inv b'"
        "total_bytes_read b' = total_bytes_read (buffered_frames s) + length r" "total_bytes_read b' \<le> length sent"
        "take (total_bytes_read b') sent = take (total_bytes_read (buffered_frames s)) sent @ r"
        "max_buffer_capacity_bytes b' = max_buffer_capacity_bytes (buffered_frames s)"
        "ring_buffered b' \<subseteq>\<^sub>m slice 0 sent" by blast
  then show ?thesis
  proof cases
    case none
    then show ?thesis using after by (auto simp: read_round_def)
  next
    case some
    show ?thesis
    proof (cases "spdy_HasBytesToRead s")
      case False
      with after show ?thesis by (auto simp: read_round_def spdy_HasBytesToRead_def)
    next
      case True
      define s1 where "s1 = add_incoming_data r s"
      have P1: "P s1" using P_data[OF P] by (simp add: s1_def)
      have a: "advanced sent s r s1" unfolding s1_def by (rule add_incoming_data_advances[OF P_known[OF P] b])
      have buf: "buffered_frames s1 = buffered_frames s" using a reading_cong[of s1 s] by (simp add: advanced_def)
      show ?thesis
      proof (cases "too_much_data s1")
        case True
        have "body_ok sent (Reset env QUIC_BAD_APPLICATION_PAYLOAD s1)"
        proof (cases "gone s1")
          case False
          then have "closable s1" using P_alive[OF P1] by (auto simp: live_def)
          then show ?thesis
            by (rule advanced_closed[OF b some(7) a Reset_cases(1) reading_closes(6)])
        next
          case True
          then have "\<not> registered s1" by (simp add: gone_def)
          with a b buf reading_cong[of s1 s] have "body_ok sent s1" by (simp add: advanced_def body_ok_def)
          with body_ok_cong[OF gone_view(1)[OF True] reading_closes(6)] show ?thesis by simp
        qed
        moreover have "read_round env s = Some (False, Reset env QUIC_BAD_APPLICATION_PAYLOAD s1)"
          using some(1) True \<open>spdy_HasBytesToRead s\<close> by (simp add: read_round_def s1_def[symmetric] Let_def)
        ultimately show ?thesis using P_Reset[OF P1] by blast
      next
        case False
        define s2 where "s2 = AddBytesConsumed env (length r) (s1\<lparr>buffered_frames := b'\<rparr>)"
        have "body_ok sent (s1\<lparr>buffered_frames := b'\<rparr>)"
          by (rule advanced_marked[OF b a some(4,6,9,7,8)])
        then have "body_ok sent s2"
          unfolding s2_def using body_ok_cong[OF view_AddBytesConsumed reading_AddBytesConsumed] by blast
        moreover have "P s2" using P1 by (simp add: s2_def)
        moreover have "buffered_frames s2 = b'" using reading_cong(1)[OF reading_AddBytesConsumed] by (simp add: s2_def)
        moreover have "read_round env s = Some (True, s2)"
          using some(1,3) False True
          by (simp add: read_round_def s1_def[symmetric] s2_def Let_def seq_MarkConsumed_def buf)
        ultimately show ?thesis using some(2,5) by (intro exI[of _ True] exI[of _ s2]) simp
      qed
    qed
  qed
qed

lemma body_loop:
  assumes "P s \<and> body_ok sent s"
  shows "OnDataAvailable env s \<noteq> None"
  using assms
proof (induction "length sent - total_bytes_read (buffered_frames s)" arbitrary: s rule: less_induct)
  case less
  from body_round[OF less.prems, of env] obtain again s' where r: "read_round env s = Some (again, s')"
    "P s'" "body_ok sent s'" "again \<longrightarrow> total_bytes_read (buffered_frames s) < total_bytes_read (buffered_frames s')" by blast
  have le: "total_bytes_read (buffered_frames s') \<le> length sent" using r(3) by (simp add: body_ok_def)
  show ?case
  proof (cases again)
    case True
    then have "OnDataAvailable env s' \<noteq> None" using less.hyps[of s'] r le by linarith
    then show ?thesis unfolding OnDataAvailable.simps[of env s] using r(1) True by simp
  next
    case False
    then show ?thesis unfolding OnDataAvailable.simps[of env s] using r(1) by simp
  qed
qed

end

sublocale log_invariant \<subseteq> body: stream_invariant "\<lambda>s. P s \<and> body_ok sent s" "carries sent" False for sent
proof unfold_locales
  fix s env frame t
  assume s: "P s \<and> body_ok sent s"
  then have b: "body_ok sent s" by blast
  show "gives False (\<lambda>(again, s'). P s' \<and> body_ok sent s') (read_round env s)"
    using body_round[OF s, of env] by auto
  show "OnDataAvailable env s = None \<Longrightarrow> False" using body_loop[OF s] by blast
  show "P (s\<lparr>buffered_frames := Clear (buffered_frames s)\<rparr>) \<and> body_ok sent (s\<lparr>buffered_frames := Clear (buffered_frames s)\<rparr>)"
    using s Clear_keeps[of "buffered_frames s"] by (simp add: body_ok_def body_told_buffer)
  show "ignore_read_data s \<Longrightarrow> P (s\<lparr>buffered_frames := snd (FlushBufferedFrames (buffered_frames s))\<rparr>)
      \<and> body_ok sent (s\<lparr>buffered_frames := snd (FlushBufferedFrames (buffered_frames s))\<rparr>)"
    using b by (simp add: body_ok_def)
  assume c: "carries sent frame" and d: "fr_data frame \<noteq> []"
  have "fr_offset frame + length (fr_data frame) \<le> length sent" using c by (auto simp: carries_def)
  moreover have "length sent + kStreamReceiveWindowLimit < maxOffset" "total_bytes_read (buffered_frames s) \<le> length sent"
    "max_buffer_capacity_bytes (buffered_frames s) = kStreamReceiveWindowLimit" "ring_inv (buffered_frames s)"
    using b by (simp_all add: body_ok_def)
  ultimately obtain e n b' where r: "OnStreamData (fr_offset frame) (fr_data frame) t (buffered_frames s) = Some (e, n, b')"
    "ring_inv b'" "total_bytes_read b' = total_bytes_read (buffered_frames s)"
    "max_buffer_capacity_bytes b' = max_buffer_capacity_bytes (buffered_frames s)"
    "ring_buffered b' = ring_buffered (buffered_frames s)
     \<or> ring_buffered b' = ring_buffered (buffered_frames s) ++ slice (fr_offset frame) (fr_data frame)"
    using OnStreamData_law[of "buffered_frames s" "fr_data frame" "fr_offset frame" t] d
    by (auto simp: maxOffset_def)
  have "ring_buffered b' \<subseteq>\<^sub>m slice 0 sent"
    using r(5) b carries_slice[OF c] map_add_le_mapI by (auto simp: body_ok_def)
  then show "gives False (\<lambda>(e, n, b). P (s\<lparr>buffered_frames := b\<rparr>) \<and> body_ok sent (s\<lparr>buffered_frames := b\<rparr>))
      (OnStreamData (fr_offset frame) (fr_data frame) t (buffered_frames s))"
    using s r(1-4) by (simp add: body_ok_def body_told_buffer)
qed

text \<open>A property that does not depend on the status and the headers of the response.\<close>

locale answer_invariant = log_invariant +
  assumes P_headers: "P s \<Longrightarrow> P (s\<lparr>response_code := c\<rparr>)" "P s \<Longrightarrow> P (s\<lparr>response_headers := h\<rparr>)"
      "P s \<Longrightarrow> P (s\<lparr>headers_decompressed := True\<rparr>)"
begin

lemma P_response: "P s \<Longrightarrow> P (s\<lparr>content_length := n, response_headers := h\<rparr>)"
  using P_headers(2)[of "s\<lparr>content_length := n\<rparr>" h] by simp

end

sublocale answer_invariant \<subseteq> loose: header_invariant P "\<lambda>_. True" "\<lambda>_. True" True
  by unfold_locales (simp_all add: P_headers)

sublocale answer_invariant \<subseteq> body: header_invariant "\<lambda>s. P s \<and> body_ok sent s" "carries sent" "\<lambda>_. True" False for sent
  by unfold_locales (simp_all add: P_headers)

end
