(* ===== verification/StreamRequest.thy ===== *)
theory StreamRequest
  imports StreamBody
begin

text \<open>
  A request of the SDK on a QUIC session, from its first bytes to its end: what the application is
  told in every run, whatever the peer does, and what it is told when the peer sends one body.
\<close>

subsection \<open>The invariant of a request\<close>

text \<open>Before its headers are complete, a registered stream has delivered no response.\<close>

definition steady :: "quic_stream \<Rightarrow> bool" where
  "steady s \<longleftrightarrow> known s \<and> (registered s \<longrightarrow> \<not> headers_decompressed s \<longrightarrow> \<not> mHeadersDelivered s)"

definition unanswered :: "quic_stream \<Rightarrow> bool" where
  "unanswered s \<longleftrightarrow> known s \<and> (registered s \<longrightarrow> headers_decompressed s \<and> \<not> mHeadersDelivered s)"

lemma known_headers [simp]:
  "known (s\<lparr>response_code := c\<rparr>) = known s" "known (s\<lparr>response_headers := h\<rparr>) = known s"
  "known (s\<lparr>headers_decompressed := b\<rparr>) = known s"
  by (simp_all add: known_def live_def gone_def closable_def log_open_def log_ended_def app_def)

lemma known_sides:
  assumes "known s"
  shows "\<not> write_side_closed s \<Longrightarrow> known (s\<lparr>read_side_closed := True\<rparr>)"
    and "\<not> read_side_closed s \<Longrightarrow> known (s\<lparr>write_side_closed := True\<rparr>)"
  using assms live_sides[of s] by (auto simp: known_def gone_def)

lemma known_data: "known s \<Longrightarrow> known (add_incoming_data d s)"
  unfolding known_def using known_add_incoming_data[where s = s and d = d] by blast

lemma known_disconnected: "gone s \<Longrightarrow> known (s\<lparr>connected := False\<rparr>) \<and> \<not> registered s"
  by (simp add: known_def gone_def log_ended_def app_def)

lemma closed_from_ended: "closed_from s s' \<Longrightarrow> known s' \<and> \<not> registered s'"
  by (simp add: closed_from_def known_def gone_def)

interpretation st: log_invariant steady
proof unfold_locales
  fix s s' :: quic_stream and d
  show "steady s \<Longrightarrow> known s" by (simp add: steady_def)
  have same: "view s = view s' \<Longrightarrow> steady s = steady s'"
    unfolding steady_def using view_cong[of s s'] by blast
  then show "view s = view s' \<Longrightarrow> reading s = reading s' \<Longrightarrow> steady s = steady s'" by blast
  from same show "view s = view s' \<Longrightarrow> steady s = steady s'" by blast
  show "steady s \<Longrightarrow> closed_from s s' \<Longrightarrow> reading s' = reading s \<Longrightarrow> steady s'"
    using closed_from_ended by (simp add: steady_def)
  show "steady s \<Longrightarrow> gone s \<Longrightarrow> steady (s\<lparr>connected := False\<rparr>)"
    using known_disconnected[of s] by (simp add: steady_def)
  show "steady s \<Longrightarrow> \<not> write_side_closed s \<Longrightarrow> steady (s\<lparr>read_side_closed := True\<rparr>)"
    and "steady s \<Longrightarrow> \<not> read_side_closed s \<Longrightarrow> steady (s\<lparr>write_side_closed := True\<rparr>)"
    using known_sides[of s] by (simp_all add: steady_def)
  show "steady s \<Longrightarrow> steady (add_incoming_data d s)"
    using known_data[of s d] by (simp add: steady_def add_incoming_data_frame)
qed

interpretation un: answer_invariant unanswered
proof unfold_locales
  fix s s' :: quic_stream and d c h
  show "unanswered s \<Longrightarrow> known s" by (simp add: unanswered_def)
  have same: "view s = view s' \<Longrightarrow> unanswered s = unanswered s'"
    unfolding unanswered_def using view_cong[of s s'] by blast
  then show "view s = view s' \<Longrightarrow> reading s = reading s' \<Longrightarrow> unanswered s = unanswered s'" by blast
  from same show "view s = view s' \<Longrightarrow> unanswered s = unanswered s'" by blast
  show "unanswered s \<Longrightarrow> closed_from s s' \<Longrightarrow> reading s' = reading s \<Longrightarrow> unanswered s'"
    using closed_from_ended by (simp add: unanswered_def)
  show "unanswered s \<Longrightarrow> gone s \<Longrightarrow> unanswered (s\<lparr>connected := False\<rparr>)"
    using known_disconnected[of s] by (simp add: unanswered_def)
  show "unanswered s \<Longrightarrow> \<not> write_side_closed s \<Longrightarrow> unanswered (s\<lparr>read_side_closed := True\<rparr>)"
    and "unanswered s \<Longrightarrow> \<not> read_side_closed s \<Longrightarrow> unanswered (s\<lparr>write_side_closed := True\<rparr>)"
    using known_sides[of s] by (simp_all add: unanswered_def)
  show "unanswered s \<Longrightarrow> unanswered (add_incoming_data d s)"
    using known_data[of s d] by (simp add: unanswered_def add_incoming_data_frame)
  show "unanswered s \<Longrightarrow> unanswered (s\<lparr>response_code := c\<rparr>)" and "unanswered s \<Longrightarrow> unanswered (s\<lparr>response_headers := h\<rparr>)"
    and "unanswered s \<Longrightarrow> unanswered (s\<lparr>headers_decompressed := True\<rparr>)"
    by (simp_all add: unanswered_def)
qed

subsection \<open>Every step\<close>

text \<open>The response to a complete header block is the first thing a registered stream tells.\<close>

definition answer :: "quic_stream \<Rightarrow> quic_stream" where
  "answer s = (if \<not> mFailed s \<and> mDelegate s
     then (onQUICStreamReceivedResponse (response_code s) (response_headers s) s)\<lparr>mInitialMS := 0, mHeadersDelivered := True\<rparr>
     else s)"

lemma gone_answer: "gone s \<Longrightarrow> gone (answer s)"
  by (simp add: answer_def onQUICStreamReceivedResponse_def gone_def log_ended_def app_def)

lemma live_answer:
  assumes l: "live s" and c: "connected s" and u: "registered s \<longrightarrow> headers_decompressed s \<and> \<not> mHeadersDelivered s"
  shows "steady (answer s)"
proof (cases "registered s")
  case True
  with l u have e: "app s = []" by (simp add: live_def closable_def log_open_def)
  from True l have run: "answer s = (emit (AppResponse (response_code s) (response_headers s)) s)
      \<lparr>mInitialMS := 0, mHeadersDelivered := True\<rparr>"
    by (simp add: answer_def onQUICStreamReceivedResponse_def live_def closable_def)
  have "log_open (answer s)" using e unfolding run by (simp add: log_open_def app_def emit_def)
  moreover have "headers_decompressed (answer s)" using True u unfolding run by (simp add: emit_def)
  moreover have "closable (answer s) \<longleftrightarrow> log_open (answer s)" "connected (answer s)"
    "\<not> (read_side_closed (answer s) \<and> write_side_closed (answer s))"
    using l c True unfolding run by (simp_all add: closable_def live_def emit_def)
  ultimately show ?thesis by (simp add: steady_def known_def live_def)
next
  case False
  then have "answer s = s" using l by (simp add: answer_def live_def closable_def)
  with False l c show ?thesis by (simp add: steady_def known_def)
qed

lemma steady_answer: "unanswered s \<Longrightarrow> steady (answer s)"
  using live_answer[of s] gone_answer[of s] by (auto simp: unanswered_def steady_def known_def gone_def)

lemma steady_failed:
  assumes st: "steady s" and f: "\<not> mFailed s" and r: "registered s"
  shows "steady (onQUICStreamFailed (s\<lparr>mFailed := True\<rparr>))"
proof -
  let ?t = "onQUICStreamFailed (s\<lparr>mFailed := True\<rparr>)"
  from st r have l: "live s" "connected s" by (auto simp: steady_def known_def gone_def)
  have a: "app ?t = app s @ [AppFailed]" using r by (simp add: onQUICStreamFailed_def app_def emit_def)
  have "log_open s" using l r by (simp add: live_def closable_def)
  then have "log_ended ?t" unfolding log_ended_def log_open_def a by (auto split: if_splits)
  then show ?thesis
    using l r by (simp add: steady_def known_def live_def closable_def onQUICStreamFailed_def emit_def)
qed

lemma steady_update: "steady s \<Longrightarrow> steady (session_update now s)"
  using steady_failed[of s] st.P_known[of s]
  by (auto simp: session_update_def update_def Let_def known_def live_def closable_def gone_def)

lemma body_ok_answer: "known s \<Longrightarrow> body_ok sent s \<Longrightarrow> body_ok sent (answer s)"
  by (auto simp: answer_def onQUICStreamReceivedResponse_def body_ok_def body_told_def app_def emit_def)

lemma body_ok_failed:
  assumes b: "body_ok sent s" and r: "registered s"
  shows "body_ok sent (onQUICStreamFailed (s\<lparr>mFailed := True\<rparr>))"
proof -
  have told: "body_told (onQUICStreamFailed (s\<lparr>mFailed := True\<rparr>)) = body_told s"
    using r by (simp add: onQUICStreamFailed_def body_told_def app_def emit_def)
  have eq: "body_told s @ concat (mCacheList s) = take (total_bytes_read (buffered_frames s)) sent"
    using b r by (simp add: body_ok_def)
  then have "body_told s = take (min (length (body_told s)) (total_bytes_read (buffered_frames s))) sent"
    by (metis append_eq_conv_conj take_take)
  then have "\<exists>n. body_told s = take n sent" by blast
  moreover have "\<not> registered (onQUICStreamFailed (s\<lparr>mFailed := True\<rparr>))"
    by (simp add: onQUICStreamFailed_def)
  moreover have "reading (onQUICStreamFailed (s\<lparr>mFailed := True\<rparr>)) = reading s" by simp
  ultimately show ?thesis using b told reading_cong[of "onQUICStreamFailed (s\<lparr>mFailed := True\<rparr>)" s]
    by (simp add: body_ok_def)
qed

lemma body_ok_update: "steady s \<Longrightarrow> body_ok sent s \<Longrightarrow> body_ok sent (session_update now s)"
  using body_ok_failed[of sent s] body_ok_cong[of "s\<lparr>mInitialMS := now\<rparr>" s sent] st.P_known[of s]
  by (auto simp: session_update_def update_def Let_def known_def live_def closable_def gone_def)

lemma steady_OnInitialHeadersComplete:
  assumes "steady s" and "\<not> headers_decompressed s"
  shows "gives True steady (OnInitialHeadersComplete env fin s)"
    and "body_ok sent s \<Longrightarrow> gives False (\<lambda>s. steady s \<and> body_ok sent s) (OnInitialHeadersComplete env fin s)"
proof -
  have un: "unanswered (s\<lparr>headers_decompressed := True\<rparr>)"
    using assms by (simp add: steady_def unanswered_def)
  then have "gives True unanswered (client_OnInitialHeadersComplete env fin s)"
    by (rule un.loose.P_client_OnInitialHeadersComplete)
  then show "gives True steady (OnInitialHeadersComplete env fin s)"
    unfolding OnInitialHeadersComplete_def answer_def[symmetric]
    by (rule gives_map[where P = unanswered]) (rule steady_answer)
  assume "body_ok sent s"
  with un have "gives False (\<lambda>s. unanswered s \<and> body_ok sent s) (client_OnInitialHeadersComplete env fin s)"
    by (intro un.body.P_client_OnInitialHeadersComplete) simp
  then show "gives False (\<lambda>s. steady s \<and> body_ok sent s) (OnInitialHeadersComplete env fin s)"
    unfolding OnInitialHeadersComplete_def answer_def[symmetric]
    by (rule gives_map[where P = "\<lambda>s. unanswered s \<and> body_ok sent s"]) (use steady_answer body_ok_answer un.P_known in blast)
qed

lemma steady_step: "steady s \<Longrightarrow> gives True steady (stream_step env e s)"
  by (rule st.loose.P_stream_step)
    (simp_all add: steady_OnInitialHeadersComplete(1) steady_update event_ok_def split: stream_event.splits)

lemma body_step:
  "steady s \<and> body_ok sent s \<Longrightarrow> event_ok (carries sent) e \<Longrightarrow>
     gives False (\<lambda>s. steady s \<and> body_ok sent s) (stream_step env e s)"
  by (rule st.body.P_stream_step)
    (simp_all add: steady_OnInitialHeadersComplete(2) steady_update body_ok_update)

lemma steady_run: "steady s \<Longrightarrow> gives True steady (stream_run es s)"
proof (induction es arbitrary: s)
  case (Cons x es)
  obtain env e where x: "x = (env, e)" by (cases x)
  show ?case
    using steady_step[OF Cons.prems, of env e] Cons.IH by (cases "stream_step env e s") (simp_all add: x)
qed simp

lemma body_run:
  "steady s \<and> body_ok sent s \<Longrightarrow> \<forall>(env, e) \<in> set es. event_ok (carries sent) e \<Longrightarrow>
     gives False (\<lambda>s. steady s \<and> body_ok sent s) (stream_run es s)"
proof (induction es arbitrary: s)
  case (Cons x es)
  obtain env e where x: "x = (env, e)" by (cases x)
  show ?case
    using body_step[OF Cons.prems(1), of e env] Cons.IH Cons.prems(2) by (cases "stream_step env e s") (simp_all add: x)
qed simp

text \<open>The first step: a request on a connected session.\<close>

lemma request_steady:
  assumes "p_sendRequest True (Some (QUICDataStream_new sid window sf)) env hs body = Some s"
  shows "steady s" and "length sent + kStreamReceiveWindowLimit < maxOffset \<Longrightarrow> body_ok sent s"
proof -
  let ?s = "(QUICDataStream_new sid window sf)\<lparr>mDelegate := True, registered := True\<rparr>"
  have st: "steady ?s"
    by (simp add: steady_def known_def live_def closable_def log_open_def app_def QUICDataStream_new_def)
  have run: "s = SendRequest env hs body True ?s" using assms by (simp add: p_sendRequest_def)
  show "steady s" unfolding run by (rule st.loose.P_SendRequest[OF st])
  assume lim: "length sent + kStreamReceiveWindowLimit < maxOffset"
  have "ring_inv (StreamSequencerBuffer_new kStreamReceiveWindowLimit)"
    "ring_buffered (StreamSequencerBuffer_new kStreamReceiveWindowLimit) = Map.empty"
    by (rule StreamSequencerBuffer_new_inv; simp add: maxOffset_def kStreamReceiveWindowLimit_def)+
  then have "body_ok sent ?s"
    using lim by (simp add: body_ok_def QUICDataStream_new_def body_told_def app_def)
      (simp add: StreamSequencerBuffer_new_def)
  then show "body_ok sent s" unfolding run using st.body.P_SendRequest[of ?s sent] st by blast
qed

subsection \<open>What the application is told\<close>

fun data_then_end :: "quic_effect list \<Rightarrow> bool" where
  "data_then_end [] = True"
| "data_then_end (e # es) = ((\<exists>d. e = AppData d) \<and> data_then_end es \<or> es = [] \<and> e \<in> {AppCompleted, AppFailed})"

fun one_story :: "quic_effect list \<Rightarrow> bool" where
  "one_story [] = True"
| "one_story (e # es) = ((\<exists>c hs. e = AppResponse c hs) \<and> data_then_end es \<or> es = [] \<and> e = AppFailed)"

definition ended :: "quic_effect list \<Rightarrow> bool" where
  "ended es \<longleftrightarrow> es \<noteq> [] \<and> last es \<in> {AppCompleted, AppFailed}"

lemma data_then_end_append [simp]: "data_then_end (map AppData ds @ es) = data_then_end es"
  by (induction ds) auto

lemma log_open_story: "log_open s \<Longrightarrow> one_story (app s) \<and> \<not> ended (app s)"
  using data_then_end_append[of _ "[]"] by (auto simp: log_open_def ended_def last_map split: if_splits)

lemma log_ended_story: "log_ended s \<Longrightarrow> one_story (app s) \<and> ended (app s)"
  by (auto simp: log_ended_def ended_def)

lemma request_story:
  assumes "p_sendRequest True (Some (QUICDataStream_new sid window sf)) env hs body = Some s0"
    and "stream_run es s0 = Some s"
  shows "steady s" and "one_story (app s)" and "registered s = (\<not> ended (app s))" and "registered s \<longrightarrow> in_session s"
proof -
  show st: "steady s" using steady_run[OF request_steady(1)[OF assms(1)], of es] assms(2) by simp
  show "one_story (app s)" and "registered s = (\<not> ended (app s))" and "registered s \<longrightarrow> in_session s"
    using st.P_alive[OF st] log_open_story[of s] log_ended_story[of s]
    by (auto simp: live_def closable_def gone_def split: if_splits)
qed

text \<open>
  Property C3. What a request tells the application, whatever the peer, the network and the timer do:
  at most one response, then data, then at most one end, and nothing after the end. A stream is registered
  exactly as long as no end was told, it is then still in the session, and an error of the socket
  never meets a stream that was deleted.
\<close>

theorem application_hears_one_story:
  assumes "p_sendRequest True (Some (QUICDataStream_new sid window sf)) env hs body = Some s0"
    and "stream_run es s0 = Some s"
  shows "one_story (app s) \<and> (registered s = (\<not> ended (app s))) \<and> (registered s \<longrightarrow> in_session s)
    \<and> onQUICError env' s \<noteq> None"
proof -
  note story = request_story[OF assms]
  have "onQUICError env' s \<noteq> None"
    using st.loose.P_disconnect[OF story(1), of env'] by (simp add: onQUICError_def Let_def)
  with story show ?thesis by blast
qed

definition plain_env :: stream_env where
  "plain_env = \<lparr>env_now = 0, env_rtt = 100, after_version_28 = True, parse_block = (\<lambda>d. (True, [('':status'', d)])),
     send_data = (\<lambda>off d fin. (length d, fin, None))\<rparr>"

definition plain_session :: flow_controller where
  "plain_session = QuicFlowController_new kConnectionLevelId 16384 kSessionReceiveWindowLimit True"

theorem application_hears_one_story_witness:
  "\<exists>s0 s. p_sendRequest True (Some (QUICDataStream_new 5 16384 plain_session)) plain_env [('':method'', ''GET'')] [] = Some s0
     \<and> stream_run [(plain_env, Tick 1), (plain_env, PeerReset (OtherRst 6) 0)] s0 = Some s
     \<and> one_story (app s) \<and> registered s = (\<not> ended (app s))"
proof -
  obtain s0 where s0: "p_sendRequest True (Some (QUICDataStream_new 5 16384 plain_session)) plain_env [('':method'', ''GET'')] []
      = Some s0"
    by (simp add: p_sendRequest_def)
  obtain s where s: "stream_run [(plain_env, Tick 1), (plain_env, PeerReset (OtherRst 6) 0)] s0 = Some s" by simp
  from application_hears_one_story[OF s0 s] s0 s show ?thesis by blast
qed

text \<open>Without complete headers a registered stream has no status and no headers for its response.\<close>

definition blank :: "quic_stream \<Rightarrow> bool" where
  "blank s \<longleftrightarrow> steady s
     \<and> (registered s \<longrightarrow> \<not> headers_decompressed s \<and> response_code s = 0 \<and> response_headers s = [])"

interpretation bl: log_invariant blank
proof unfold_locales
  fix s s' :: quic_stream and d
  show "blank s \<Longrightarrow> known s" by (simp add: blank_def steady_def)
  have same: "view s = view s' \<Longrightarrow> blank s = blank s'"
    unfolding blank_def using view_cong[of s s'] st.P_view[of s s'] by metis
  then show "view s = view s' \<Longrightarrow> reading s = reading s' \<Longrightarrow> blank s = blank s'" by blast
  from same show "view s = view s' \<Longrightarrow> blank s = blank s'" by blast
  show "blank s \<Longrightarrow> closed_from s s' \<Longrightarrow> reading s' = reading s \<Longrightarrow> blank s'"
    using st.P_closed[of s s'] closed_from_ended[of s s'] by (simp add: blank_def)
  show "blank s \<Longrightarrow> gone s \<Longrightarrow> blank (s\<lparr>connected := False\<rparr>)"
    using st.P_gone[of s] by (simp add: blank_def)
  show "blank s \<Longrightarrow> \<not> write_side_closed s \<Longrightarrow> blank (s\<lparr>read_side_closed := True\<rparr>)"
    and "blank s \<Longrightarrow> \<not> read_side_closed s \<Longrightarrow> blank (s\<lparr>write_side_closed := True\<rparr>)"
    using st.P_read[of s] st.P_write[of s] by (simp_all add: blank_def)
  show "blank s \<Longrightarrow> blank (add_incoming_data d s)"
    using st.P_data[of s d] by (simp add: blank_def add_incoming_data_frame)
qed

lemma blank_update: "blank s \<Longrightarrow> blank (session_update now s)"
  using steady_update[of s now]
  by (auto simp: blank_def session_update_def update_def onQUICStreamFailed_def emit_def Let_def)

lemma blank_run:
  "blank s \<Longrightarrow> \<forall>fin. PeerHeadersComplete fin \<notin> snd ` set es \<Longrightarrow> gives True blank (stream_run es s)"
proof (induction es arbitrary: s)
  case (Cons x es)
  obtain env e where x: "x = (env, e)" by (cases x)
  have "gives True blank (stream_step env e s)"
    by (rule bl.loose.P_stream_step[OF Cons.prems(1)])
      (use Cons.prems in \<open>auto simp: x event_ok_def blank_update split: stream_event.splits\<close>)
  then show ?case
    using Cons.IH Cons.prems(2) by (cases "stream_step env e s") (auto simp: x)
qed simp

lemma request_blank:
  assumes "p_sendRequest True (Some (QUICDataStream_new sid window sf)) env hs body = Some s"
  shows "blank s"
proof -
  have "blank ((QUICDataStream_new sid window sf)\<lparr>mDelegate := True, registered := True\<rparr>)"
    by (simp add: blank_def steady_def known_def live_def closable_def log_open_def app_def QUICDataStream_new_def)
  then show ?thesis using assms bl.loose.P_SendRequest by (auto simp: p_sendRequest_def)
qed

text \<open>An end of the exchange that is not the peer's regular one.\<close>

definition interrupts :: "stream_event \<Rightarrow> bool" where
  "interrupts e \<longleftrightarrow> (case e of PeerReset code _ \<Rightarrow> code \<noteq> QUIC_STREAM_NO_ERROR | ConnectionClosed _ \<Rightarrow> True
     | SocketError \<Rightarrow> True | _ \<Rightarrow> False)"

lemma interrupted_closes:
  assumes l: "live s" "connected s" and i: "interrupts e"
  shows "\<exists>s'. stream_step env e s = Some s' \<and> closed_from s s'"
proof (cases e)
  case (PeerReset code n)
  define s1 where "s1 = (snd (MaybeIncreaseHighestReceivedOffset n (s\<lparr>rst_received := True\<rparr>)))\<lparr>stream_error := code\<rparr>"
  have v: "view s1 = view s"
    by (simp add: s1_def MaybeIncreaseHighestReceivedOffset_def Let_def split: prod.splits)
  have "stream_step env e s = Some (CloseReadSide env (CloseWriteSide env s1))"
    using l i by (simp add: PeerReset interrupts_def session_OnRstStream_def OnStreamReset_def rel_OnStreamReset_def
        s1_def Let_def live_def closable_def)
  moreover have "closed_from s (CloseReadSide env (CloseWriteSide env s1))"
    using CloseBoth_closes[of s1 env] view_cong(13)[OF v] l closed_from_view[OF v] by simp
  ultimately show ?thesis by blast
next
  case (ConnectionClosed q)
  then show ?thesis using CloseConnection_cases(1)[OF l] by simp
next
  case SocketError
  let ?s = "emit (SentConnectionClose QUIC_PEER_GOING_AWAY) s"
  have v: "view ?s = view s" by simp
  have "closed_from ?s (CloseConnection env QUIC_PEER_GOING_AWAY ?s)"
    using CloseConnection_cases(1)[of ?s] view_cong(11,13)[OF v] l by simp
  then have "closed_from s (p_disconnect env s)"
    using closed_from_view[OF v] l by (simp add: p_disconnect_def SendConnectionClose_def)
  then show ?thesis using closed_from_gone by (auto simp: SocketError onQUICError_def Let_def gone_def)
qed (use i in \<open>simp_all add: interrupts_def\<close>)

text \<open>
  A reset without an error, from the version 28 of the protocol on, ends the writing only: it interrupts the
  exchange when nothing is read any more.
\<close>

lemma reset_without_error:
  assumes l: "live s"
  shows "\<exists>s'. stream_step env (PeerReset QUIC_STREAM_NO_ERROR n) s = Some s'
    \<and> (if after_version_28 env \<and> \<not> read_side_closed s then registered s' = registered s \<and> app s' = app s
       else closed_from s s')"
proof -
  define s1 where "s1 = (snd (MaybeIncreaseHighestReceivedOffset n (s\<lparr>rst_received := True\<rparr>)))\<lparr>stream_error := QUIC_STREAM_NO_ERROR\<rparr>"
  have v: "view s1 = view s"
    by (simp add: s1_def MaybeIncreaseHighestReceivedOffset_def Let_def split: prod.splits)
  have r: "rst_received s1"
    by (simp add: s1_def MaybeIncreaseHighestReceivedOffset_def Let_def split: prod.splits)
  have l1: "live s1" using view_cong(13)[OF v] l by simp
  have run: "stream_step env (PeerReset QUIC_STREAM_NO_ERROR n) s =
      Some (if after_version_28 env then CloseWriteSide env s1 else CloseReadSide env (CloseWriteSide env s1))"
    using l by (simp add: session_OnRstStream_def OnStreamReset_def rel_OnStreamReset_def s1_def Let_def live_def closable_def)
  show ?thesis
  proof (cases "after_version_28 env")
    case True
    have "CloseWriteSide env s1 = s1 \<or> CloseWriteSide env s1 = s1\<lparr>write_side_closed := True\<rparr>" if "\<not> read_side_closed s1"
      using that r by (simp add: CloseWriteSide_def spdy_CloseWriteSide_def rel_CloseWriteSide_def Let_def)
    moreover have "app (s1\<lparr>write_side_closed := True\<rparr>) = app s1" by (simp add: app_def)
    ultimately have "registered (CloseWriteSide env s1) = registered s1 \<and> app (CloseWriteSide env s1) = app s1"
      if "\<not> read_side_closed s1" using that by auto
    then show ?thesis
      using True view_cong(1,2,9)[OF v] CloseWriteSide_cases(2)[OF l1, of env] closed_from_view[OF v]
      unfolding run by simp
  next
    case False
    then show ?thesis
      using CloseBoth_closes[OF l1, of env] closed_from_view[OF v] unfolding run by simp
  qed
qed

text \<open>A completion is told: a response, if there was none, the data held back, and the end.\<close>

definition told_as_completed :: "quic_stream \<Rightarrow> quic_stream \<Rightarrow> bool" where
  "told_as_completed s s' \<longleftrightarrow> \<not> registered s' \<and> AppFailed \<notin> set (app s')
    \<and> app s' = app s @ (if mHeadersDelivered s then [] else [AppResponse (response_code s) (response_headers s)])
        @ map AppData (mCacheList s) @ [AppCompleted]"

lemma closed_told_as_completed:
  assumes "live s" and "registered s" and "closed_from s s'"
  shows "told_as_completed s s'"
proof -
  have f: "\<not> mFailed s" "log_open s" using assms(1,2) by (simp_all add: live_def closable_def)
  have "app s' = app s @ closing_log s" "\<not> registered s'" using assms(3) by (simp_all add: closed_from_def gone_def)
  moreover have "AppFailed \<notin> set (app s)" using f(2) by (auto simp: log_open_def split: if_splits)
  ultimately show ?thesis using f(1) assms(2) by (auto simp: told_as_completed_def closing_log_def)
qed

text \<open>
  Property C33. An interrupted request is reported as a completed one: when the peer resets the stream with an
  error, the connection closes or the socket fails while the request runs, the application is told a
  response, if it had none, the data held back, and the completion; never a failure. A reset without
  an error does the same before version 28 of the protocol and when nothing is read any more; otherwise it
  leaves the request open and tells nothing. As long as no headers were complete the response told has the
  status 0 and no headers.
\<close>

theorem interruption_told_as_completion:
  assumes "p_sendRequest True (Some (QUICDataStream_new sid window sf)) env hs body = Some s0"
    and "stream_run es s0 = Some s" and "registered s"
  shows "(interrupts e \<longrightarrow> (\<exists>s'. stream_step env' e s = Some s' \<and> told_as_completed s s'))
    \<and> (\<exists>s'. stream_step env' (PeerReset QUIC_STREAM_NO_ERROR n) s = Some s'
         \<and> (if after_version_28 env' \<and> \<not> read_side_closed s then registered s' \<and> app s' = app s
            else told_as_completed s s'))
    \<and> ((\<forall>fin. PeerHeadersComplete fin \<notin> snd ` set es) \<longrightarrow>
         \<not> mHeadersDelivered s \<and> response_code s = 0 \<and> response_headers s = [])"
proof -
  have st: "steady s" using steady_run[OF request_steady(1)[OF assms(1)], of es] assms(2) by simp
  with assms(3) have l: "live s" "connected s" by (auto simp: steady_def known_def gone_def)
  note completed = closed_told_as_completed[OF l(1) assms(3)]
  have "blank s" if "\<forall>fin. PeerHeadersComplete fin \<notin> snd ` set es"
    using blank_run[OF request_blank[OF assms(1)] that] assms(2) by simp
  moreover obtain s' where "stream_step env' (PeerReset QUIC_STREAM_NO_ERROR n) s = Some s'"
    "if after_version_28 env' \<and> \<not> read_side_closed s then registered s' = registered s \<and> app s' = app s else closed_from s s'"
    using reset_without_error[OF l(1)] by blast
  ultimately show ?thesis
    using interrupted_closes[OF l, of e env'] completed assms(3) by (auto simp: blank_def steady_def split: if_splits)
qed

text \<open>A request that was sent and not answered is registered.\<close>

lemma request_pending:
  assumes "p_sendRequest True (Some (QUICDataStream_new sid window sf)) plain_env hs [] = Some s"
  shows "registered s" and "app s = []" and "\<not> mHeadersDelivered s" and "mCacheList s = []"
    and "response_code s = 0" and "response_headers s = []"
proof -
  have run: "s = CloseWriteSide plain_env ((emit (WroteHeaders hs True)
      ((QUICDataStream_new sid window sf)\<lparr>mDelegate := True, registered := True\<rparr>))\<lparr>fin_sent := True\<rparr>)"
    using assms by (simp add: p_sendRequest_def SendRequest_def WriteHeaders_def Let_def)
  show "registered s" and "app s = []" and "\<not> mHeadersDelivered s" and "mCacheList s = []"
    and "response_code s = 0" and "response_headers s = []"
    unfolding run
    by (simp_all add: CloseWriteSide_def spdy_CloseWriteSide_def rel_CloseWriteSide_def QUICDataStream_new_def
        emit_def app_def Let_def)
qed

theorem interruption_told_as_completion_witness:
  "\<exists>s0 s'. p_sendRequest True (Some (QUICDataStream_new 5 16384 plain_session)) plain_env [('':method'', ''GET'')] [] = Some s0
     \<and> stream_step plain_env SocketError s0 = Some s' \<and> app s' = [AppResponse 0 [], AppCompleted]"
proof -
  obtain s0 where s0: "p_sendRequest True (Some (QUICDataStream_new 5 16384 plain_session)) plain_env [('':method'', ''GET'')] []
      = Some s0"
    by (simp add: p_sendRequest_def)
  have run: "stream_run [] s0 = Some s0" by simp
  have i: "interrupts SocketError" by (simp add: interrupts_def)
  then obtain s' where "stream_step plain_env SocketError s0 = Some s'" "told_as_completed s0 s'"
    "\<not> mHeadersDelivered s0" "response_code s0 = 0" "response_headers s0 = []"
    using interruption_told_as_completion[OF s0 run request_pending(1)[OF s0], of SocketError plain_env] by auto
  then show ?thesis using s0 request_pending(2,4)[OF s0] by (auto simp: told_as_completed_def)
qed

text \<open>
  Property C5. When every frame with data carries a piece of one body, in whatever order and however often
  they come, no event gets stuck: reading never fails in the buffer and always ends. What the
  application was told of the body is a prefix of it, and while the request is open the data told
  and the data held back for the response are together exactly the consumed bytes.
\<close>

theorem body_told_in_order:
  assumes "p_sendRequest True (Some (QUICDataStream_new sid window sf)) env hs body = Some s0"
    and "length sent + kStreamReceiveWindowLimit < maxOffset"
    and "\<forall>(env, e) \<in> set es. event_ok (carries sent) e"
  shows "\<exists>s n. stream_run es s0 = Some s \<and> body_told s = take n sent
    \<and> (registered s \<longrightarrow> body_told s @ concat (mCacheList s) = take (BytesConsumed (buffered_frames s)) sent)"
proof -
  have "gives False (\<lambda>s. steady s \<and> body_ok sent s) (stream_run es s0)"
    by (rule body_run) (use request_steady[OF assms(1)] assms(2,3) in auto)
  then obtain s where s: "stream_run es s0 = Some s" "body_ok sent s" by (cases "stream_run es s0") auto
  show ?thesis
  proof (cases "registered s")
    case True
    with s(2) have eq: "body_told s @ concat (mCacheList s) = take (total_bytes_read (buffered_frames s)) sent"
      by (simp add: body_ok_def)
    then have "body_told s = take (min (length (body_told s)) (total_bytes_read (buffered_frames s))) sent"
      by (metis append_eq_conv_conj take_take)
    with s(1) eq show ?thesis unfolding BytesConsumed_def by blast
  next
    case False
    with s show ?thesis by (auto simp: body_ok_def)
  qed
qed

theorem body_told_in_order_witness:
  "\<exists>s0 s n. p_sendRequest True (Some (QUICDataStream_new 5 16384 plain_session)) plain_env [('':method'', ''GET'')] [] = Some s0
     \<and> stream_run [(plain_env, PeerFrame \<lparr>fr_fin = True, fr_offset = 1, fr_data = ''ody''\<rparr>),
         (plain_env, PeerHeaders ''200''), (plain_env, PeerHeadersComplete False),
         (plain_env, PeerFrame \<lparr>fr_fin = False, fr_offset = 0, fr_data = ''b''\<rparr>)] s0 = Some s
     \<and> body_told s = take n ''body''"
proof -
  obtain s0 where s0: "p_sendRequest True (Some (QUICDataStream_new 5 16384 plain_session)) plain_env [('':method'', ''GET'')] []
      = Some s0"
    by (simp add: p_sendRequest_def)
  have lim: "length ''body'' + kStreamReceiveWindowLimit < maxOffset"
    by (simp add: kStreamReceiveWindowLimit_def maxOffset_def)
  have "carries ''body'' \<lparr>fr_fin = True, fr_offset = 1, fr_data = ''ody''\<rparr>"
    unfolding carries_def by (intro exI[of _ "''b''"] exI[of _ "[]"]) simp
  moreover have "carries ''body'' \<lparr>fr_fin = False, fr_offset = 0, fr_data = ''b''\<rparr>"
    unfolding carries_def by (intro exI[of _ "[]"] exI[of _ "''ody''"]) simp
  ultimately have ok: "\<forall>(env, e) \<in> set [(plain_env, PeerFrame \<lparr>fr_fin = True, fr_offset = 1, fr_data = ''ody''\<rparr>),
         (plain_env, PeerHeaders ''200''), (plain_env, PeerHeadersComplete False),
         (plain_env, PeerFrame \<lparr>fr_fin = False, fr_offset = 0, fr_data = ''b''\<rparr>)]. event_ok (carries ''body'') e"
    by (simp add: event_ok_def)
  from body_told_in_order[OF s0 lim ok] s0 show ?thesis by blast
qed

end
