(* ===== verification/QuicConnections.thy ===== *)
theory QuicConnections
  imports RequestPath StreamRequest
begin

text \<open>
  The QUIC connection of a request (\<open>Connection/QUICConnection.mm\<close>): the header block and the body it
  hands to the session, and what it makes of the session's calls, among them redirections. The
  composition with the stream gives what the proxy, and with it the application, hears in every run.

  The connection made for a redirection is never started; only its depth is kept. Anchors are the
  references that keep the connection alive. Log lines and the time stamps in them are left out.
\<close>

record quic_connection = connection +
  qc_URL :: string
  qc_delegate :: bool
  qc_request :: "request option"
  qc_response :: "response option"
  qc_redirect :: "nat option"
  mDepth :: nat
  mAnchor0 :: bool
  mAnchor1 :: bool

definition QUICConnection_new :: "string \<Rightarrow> bool \<Rightarrow> 32 word \<Rightarrow> quic_connection" where
  "QUICConnection_new edge fake gLastConnectionID =
     connection.extend (fst (Connection_new edge fake gLastConnectionID))
       (quic_connection.fields [] False None None None 0 False False)"

subsection \<open>The request on the session\<close>

text \<open>Assignment in a \<open>SpdyHeaderBlock\<close>, which keeps the order of insertion.\<close>

fun set_header :: "string \<Rightarrow> string \<Rightarrow> header_block \<Rightarrow> header_block" where
  "set_header k v [] = [(k, v)]"
| "set_header k v (e # hs) = (if fst e = k then (k, v) # hs else e # set_header k v hs)"

text \<open>The entries of a \<open>std::map\<close>, in the order of the names.\<close>

definition map_entries :: "(string \<rightharpoonup> string) \<Rightarrow> header_block" where
  "map_entries m = map (\<lambda>k. (k, the (m k))) (sorted_list_of_set (dom m))"

definition quic_path :: "string \<Rightarrow> string" where
  "quic_path rest =
     (let r = (if rest = [] then ''/'' else rest) in if hd r \<noteq> CHR ''/'' then CHR ''/'' # r else r)"

definition request_block :: "request \<Rightarrow> header_block" where
  "request_block r =
     (let hs = [('':authority'', mHost r), ('':method'', mMethod r), ('':path'', quic_path (mRest r)),
                ('':scheme'', ''https''), (''accept-encoding'', ''identity'')]
      in set_header ''X-Rev-Proto'' (mOriginalScheme r) (set_header ''X-Rev-Host'' (mHost r)
           (fold (\<lambda>(k, v). set_header k v) (map_entries (mHeaders r)) hs)))"

text \<open>
  The body as a zero-terminated string. Nothing terminates the bytes of a \<open>Data\<close>: a body without a
  zero is read behind its end.
\<close>

fun read_c_str :: "data \<Rightarrow> fault + string" where
  "read_c_str [] = Inl UndefinedBehaviour"
| "read_c_str (b # bs) =
     (case b of None \<Rightarrow> Inl UndefinedBehaviour
      | Some c \<Rightarrow> if c = CHR 0x00 then Inr [] else and_then (read_c_str bs) (\<lambda>t. Inr (c # t)))"

definition request_body :: "data \<Rightarrow> fault + string" where
  "request_body body = (if body = [] then Inr [] else read_c_str body)"

definition p_startWithRequest ::
  "int \<Rightarrow> request \<Rightarrow> bool \<Rightarrow> quic_connection \<Rightarrow> fault + (quic_connection \<times> header_block \<times> string)" where
  "p_startWithRequest ms aRequest aDelegate c =
     (let c1 = c\<lparr>qc_request := Some (Request_clone aRequest), mAnchor0 := True, qc_delegate := aDelegate, qc_URL := mURL aRequest\<rparr>
      in and_then (request_body (mBody aRequest)) (\<lambda>body.
         and_then (onStart ms c1) (\<lambda>c2. Inr (c2, request_block aRequest, body))))"

definition startWithRequest_quic ::
  "int \<Rightarrow> request \<Rightarrow> bool \<Rightarrow> quic_connection \<Rightarrow> fault + (quic_connection \<times> header_block \<times> string)" where
  "startWithRequest_quic ms aRequest aDelegate c = p_startWithRequest ms aRequest aDelegate c"

subsection \<open>The calls of the session\<close>

definition plain_headers :: "header_block \<Rightarrow> string \<rightharpoonup> string" where
  "plain_headers hs = fold (\<lambda>(k, v) m. if k \<noteq> [] \<and> hd k \<noteq> CHR '':'' then m(k \<mapsto> v) else m) hs Map.empty"

definition status_of :: "int \<Rightarrow> nat" where
  "status_of aCode = nat (aCode mod 2 ^ 64)"

definition tell_response :: "int \<Rightarrow> header_block \<Rightarrow> quic_connection \<Rightarrow> quic_connection \<times> delegate_call list" where
  "tell_response aCode aHeaders c =
     (if qc_delegate c
      then let response = Response_new (qc_URL c) (plain_headers aHeaders) (status_of aCode)
           in (c\<lparr>qc_response := Some response\<rparr>, [DidReceiveResponse response])
      else (c, []))"

text \<open>The redirection of a request: the new request, or \<open>None\<close> when the URL is not understood.\<close>

definition redirected_request :: "foundation \<Rightarrow> string \<Rightarrow> request \<Rightarrow> header_block \<Rightarrow> fault + request option" where
  "redirected_request fo baseURL r aHeaders =
     (case map_of aHeaders ''Location'' of None \<Rightarrow> Inl AssertFailed
      | Some location \<Rightarrow>
        and_then (correctURLIfNeeded fo location (mOriginalScheme r)) (\<lambda>url.
        and_then (decomposeURL fo baseURL url) (\<lambda>parts.
          Inr (case parts of None \<Rightarrow> None
               | Some (host, path, scheme) \<Rightarrow>
                 Some ((Request_clone r)\<lparr>mURL := url, mHost := host, mPath := path, mRest := path, mOriginalScheme := scheme\<rparr>)))))"

definition quicSessionDidReceiveResponse ::
  "foundation \<Rightarrow> int \<Rightarrow> int \<Rightarrow> header_block \<Rightarrow> quic_connection \<Rightarrow> fault + (quic_connection \<times> delegate_call list)" where
  "quicSessionDidReceiveResponse fo ms aCode aHeaders c =
     (let c1 = onResponseReceived ms c in
      if qc_redirect c1 = None \<and> (aCode = 301 \<or> aCode = 302) \<and> mDepth c1 < 10
      then case qc_request c1 of None \<Rightarrow> Inl UndefinedBehaviour
        | Some r \<Rightarrow>
          let c2 = c1\<lparr>mAnchor1 := mAnchor0 c1\<rparr> in
          and_then (redirected_request fo (qc_URL c2) r aHeaders) (\<lambda>new.
            case new of None \<Rightarrow> Inr (tell_response aCode aHeaders c2)
            | Some q \<Rightarrow>
              if \<not> qc_delegate c2 then Inl UndefinedBehaviour
              else Inr (c2\<lparr>qc_redirect := Some (mDepth c2 + 1)\<rparr>,
                        [WasRedirected q (Response_new (qc_URL c2) (plain_headers aHeaders) (status_of aCode))]))
      else Inr (tell_response aCode aHeaders c1))"

definition quicSessionDidReceiveData :: "string \<Rightarrow> quic_connection \<Rightarrow> quic_connection \<times> delegate_call list" where
  "quicSessionDidReceiveData d c =
     (let c1 = addReceivedBytesCount (int (length d)) c
      in (c1, if qc_redirect c1 = None \<and> qc_delegate c1 then [DidReceiveData (Data_new (Some d) (length d))] else []))"

text \<open>The calls of the usage counters.\<close>

datatype quic_tracked = SuccessTracked | ErrorTracked

text \<open>\<open>collect\<close> is the model's \<open>shouldCollectRequestsData\<close>; the record is made before the proxy is told.\<close>

definition quicSessionDidFinish ::
  "foundation \<Rightarrow> bool \<Rightarrow> int \<Rightarrow> quic_connection
    \<Rightarrow> fault + (quic_connection \<times> delegate_call list \<times> quic_tracked list \<times> (string \<rightharpoonup> json) option)" where
  "quicSessionDidFinish fo collect ms c =
     and_then (onEnd ms c) (\<lambda>c1.
       if qc_redirect c1 \<noteq> None then Inr (c1, [], [SuccessTracked], None)
       else if \<not> qc_delegate c1 then Inr (c1\<lparr>mAnchor0 := False\<rparr>, [], [SuccessTracked], None)
       else and_then (if collect
           then (case qc_request c1 of None \<Rightarrow> Inl UndefinedBehaviour
                 | Some r \<Rightarrow> and_then (record_of_request fo r (qc_response c1) c1 quicProtocolName) (\<lambda>d. Inr (Some d)))
           else Inr None) (\<lambda>d.
         Inr (c1\<lparr>mAnchor0 := False\<rparr>, [if mIsFake c1 then DidFailWithError fake_error else DidFinish],
              [SuccessTracked], d)))"

definition quicSessionDidFail ::
  "rs_error \<Rightarrow> quic_connection \<Rightarrow> quic_connection \<times> delegate_call list \<times> quic_tracked list" where
  "quicSessionDidFail e c =
     (if qc_redirect c \<noteq> None then (c, [], [ErrorTracked])
      else (c\<lparr>mAnchor0 := False\<rparr>, if qc_delegate c then [DidFailWithError e] else [], [ErrorTracked]))"

text \<open>As the delegate of a redirected connection it would pass calls on; that connection makes none.\<close>

fun redirected_call :: "delegate_call \<Rightarrow> quic_connection \<Rightarrow> quic_connection \<times> delegate_call list" where
  "redirected_call (DidReceiveResponse r) c = (c, [DidReceiveResponse r])"
| "redirected_call (DidReceiveData d) c = (c, [DidReceiveData d])"
| "redirected_call DidFinish c = (c\<lparr>mAnchor1 := False\<rparr>, [DidFinish])"
| "redirected_call (DidFailWithError e) c = (c\<lparr>mAnchor1 := False\<rparr>, [DidFailWithError e])"
| "redirected_call (WasRedirected q r) c = (c, [])"

text \<open>The error of a stream that was registered when it failed: only the timer fails such a stream.\<close>

definition timeout_error :: rs_error where
  "timeout_error = setDescription ''QUIC connection timeout'' \<lparr>code = 0, domain = ''revsdk.quic'', userInfo = Map.empty\<rparr>"

text \<open>The session passes what the stream tells to the connection that is registered for it.\<close>

fun quic_hear :: "foundation \<Rightarrow> bool \<Rightarrow> int \<Rightarrow> quic_effect \<Rightarrow> quic_connection
    \<Rightarrow> fault + (quic_connection \<times> delegate_call list)" where
  "quic_hear fo collect ms (AppResponse aCode hs) c = quicSessionDidReceiveResponse fo ms aCode hs c"
| "quic_hear fo collect ms (AppData d) c = Inr (quicSessionDidReceiveData d c)"
| "quic_hear fo collect ms AppCompleted c =
     and_then (quicSessionDidFinish fo collect ms c) (\<lambda>(c1, calls, tracked, d). Inr (c1, calls))"
| "quic_hear fo collect ms AppFailed c =
     (case quicSessionDidFail timeout_error c of (c1, calls, tracked) \<Rightarrow> Inr (c1, calls))"
| "quic_hear fo collect ms e c = Inr (c, [])"

text \<open>\<open>clk\<close> gives the time of each call.\<close>

fun quic_hears :: "foundation \<Rightarrow> bool \<Rightarrow> (nat \<Rightarrow> int) \<Rightarrow> quic_effect list \<Rightarrow> quic_connection
    \<Rightarrow> fault + (quic_connection \<times> delegate_call list)" where
  "quic_hears fo collect clk [] c = Inr (c, [])"
| "quic_hears fo collect clk (e # es) c =
     and_then (quic_hear fo collect (clk 0) e c) (\<lambda>(c1, calls).
     and_then (quic_hears fo collect (\<lambda>i. clk (Suc i)) es c1) (\<lambda>(c2, more). Inr (c2, calls @ more)))"

subsection \<open>What the proxy hears\<close>

fun told_call :: "string \<Rightarrow> quic_effect \<Rightarrow> delegate_call" where
  "told_call url (AppResponse aCode hs) = DidReceiveResponse (Response_new url (plain_headers hs) (status_of aCode))"
| "told_call url (AppData d) = DidReceiveData (map Some d)"
| "told_call url AppFailed = DidFailWithError timeout_error"
| "told_call url e = DidFinish"

text \<open>The forms of a story.\<close>

lemma data_then_end_form:
  "data_then_end es \<Longrightarrow> \<exists>ds t. es = map AppData ds @ t \<and> t \<in> {[], [AppCompleted], [AppFailed]}"
proof (induction es)
  case (Cons e es)
  show ?case
  proof (cases "\<exists>d. e = AppData d")
    case True
    with Cons obtain d ds t where "e = AppData d" "es = map AppData ds @ t" "t \<in> {[], [AppCompleted], [AppFailed]}" by auto
    then have "e # es = map AppData (d # ds) @ t" "t \<in> {[], [AppCompleted], [AppFailed]}" by simp_all
    then show ?thesis by blast
  next
    case False
    with Cons.prems have "e # es = map AppData [] @ [e]" "[e] \<in> {[], [AppCompleted], [AppFailed]}" by auto
    then show ?thesis by blast
  qed
qed simp

lemma quic_hears_append:
  "quic_hears fo collect clk (xs @ ys) c =
     and_then (quic_hears fo collect clk xs c) (\<lambda>(c1, calls).
     and_then (quic_hears fo collect (\<lambda>i. clk (i + length xs)) ys c1) (\<lambda>(c2, more). Inr (c2, calls @ more)))"
proof (induction xs arbitrary: clk c)
  case Nil
  show ?case by (cases "quic_hears fo collect clk ys c") auto
next
  case (Cons x xs)
  show ?case
  proof (cases "quic_hear fo collect (clk 0) x c")
    case (Inr p)
    then obtain c1 calls where p: "quic_hear fo collect (clk 0) x c = Inr (c1, calls)" by (cases p) simp
    show ?thesis
      by (cases "quic_hears fo collect (\<lambda>i. clk (Suc i)) xs c1")
        (auto simp: p Cons.IH split: prod.splits sum.splits simp: and_then_def)
  qed simp
qed

lemma hears_data:
  "quic_hears fo collect clk (map AppData ds) c =
     Inr (c\<lparr>mBytesReceived := mBytesReceived c + int (length (concat ds))\<rparr>,
          if qc_redirect c = None \<and> qc_delegate c then map (told_call url) (map AppData ds) else [])"
proof (induction ds arbitrary: clk c)
  case (Cons d ds)
  show ?case
    by (simp add: Cons.IH quicSessionDidReceiveData_def addReceivedBytesCount_def Data_new_bytes Let_def algebra_simps)
qed simp

lemma one_story_form:
  "one_story es \<Longrightarrow> es = [] \<or> es = [AppFailed]
     \<or> (\<exists>aCode hs ds t. es = AppResponse aCode hs # map AppData ds @ t \<and> t \<in> {[], [AppCompleted], [AppFailed]})"
  by (cases es) (auto dest: data_then_end_form)

text \<open>A connection that waits for the answer to its request.\<close>

definition waiting :: "request \<Rightarrow> quic_connection \<Rightarrow> bool" where
  "waiting r c \<longleftrightarrow> qc_request c = Some r \<and> qc_delegate c \<and> mEndTimestamp c = 0 \<and> \<not> mIsFake c \<and> mAnchor0 c \<and> qc_URL c = mURL r"

lemma p_startWithRequest_waiting:
  assumes "p_startWithRequest ms r True (QUICConnection_new edge False g) = Inr (c, hs, body)"
  shows "waiting r c" and "qc_redirect c = None" and "mDepth c = 0" and "mBytesReceived c = 0"
    and "hs = request_block r" and "request_body (mBody r) = Inr body"
  using assms
  by (cases "request_body (mBody r)";
      auto simp: p_startWithRequest_def QUICConnection_new_def connection.extend_def quic_connection.fields_def
        Connection_new_def onStart_def waiting_def Request_clone_id Let_def)+

text \<open>Whether the record of a finished request can be made.\<close>

definition recordable :: "foundation \<Rightarrow> bool \<Rightarrow> request \<Rightarrow> bool" where
  "recordable fo collect r \<longleftrightarrow> (collect \<longrightarrow> (\<forall>resp c. returns (record_of_request fo r resp (c :: quic_connection) quicProtocolName)))"

lemma hears_end:
  assumes "t \<in> {[], [AppCompleted], [AppFailed]}" and "waiting r c" and "qc_redirect c = None" and "recordable fo collect r"
  shows "\<exists>c'. quic_hears fo collect clk t c = Inr (c', map (told_call url) t)
    \<and> mBytesReceived c' = mBytesReceived c \<and> mAnchor0 c' = (t = []) \<and> mAnchor1 c' = mAnchor1 c"
proof -
  have "\<exists>d. (if collect then (case qc_request c1 of None \<Rightarrow> Inl UndefinedBehaviour
      | Some r \<Rightarrow> and_then (record_of_request fo r (qc_response c1) c1 quicProtocolName) (\<lambda>d. Inr (Some d))) else Inr None) = Inr d"
    if "qc_request c1 = Some r" for c1 :: quic_connection
  proof (cases collect)
    case True
    with assms(4) have "returns (record_of_request fo r (qc_response c1) c1 quicProtocolName)"
      unfolding recordable_def by blast
    then obtain d where "record_of_request fo r (qc_response c1) c1 quicProtocolName = Inr d" by (rule returnsE)
    with True that show ?thesis by simp
  qed simp
  from this[of "c\<lparr>mEndTimestamp := clk 0\<rparr>"] assms(1-3) show ?thesis
    by (auto simp: waiting_def quicSessionDidFinish_def quicSessionDidFail_def onEnd_def)
qed

lemma waiting_bytes: "waiting r (c\<lparr>mBytesReceived := n\<rparr>) = waiting r c"
  by (simp add: waiting_def)

lemma hears_data_then_end:
  assumes "t \<in> {[], [AppCompleted], [AppFailed]}" and "waiting r c" and "qc_redirect c = None" and "recordable fo collect r"
  shows "\<exists>c'. quic_hears fo collect clk (map AppData ds @ t) c = Inr (c', map (told_call url) (map AppData ds @ t))
    \<and> mBytesReceived c' = mBytesReceived c + int (length (concat ds)) \<and> mAnchor0 c' = (t = []) \<and> mAnchor1 c' = mAnchor1 c"
proof -
  let ?c = "c\<lparr>mBytesReceived := mBytesReceived c + int (length (concat ds))\<rparr>"
  have "waiting r ?c" "qc_redirect ?c = None" using assms(2,3) by (simp_all add: waiting_bytes)
  from hears_end[OF assms(1) this assms(4), of "\<lambda>i. clk (i + length (map AppData ds))" url] obtain c' where
    c': "quic_hears fo collect (\<lambda>i. clk (i + length (map AppData ds))) t ?c = Inr (c', map (told_call url) t)"
      "mBytesReceived c' = mBytesReceived ?c" "mAnchor0 c' = (t = [])" "mAnchor1 c' = mAnchor1 ?c" by blast
  have d: "qc_delegate c" using assms(2) by (simp add: waiting_def)
  show ?thesis
    unfolding quic_hears_append hears_data[of fo collect clk ds c url] and_then_simps prod.case c'(1)
    using c'(2-4) d assms(3) by simp
qed

definition redirects :: "int \<Rightarrow> bool" where
  "redirects aCode \<longleftrightarrow> aCode = 301 \<or> aCode = 302"

lemma hears_story:
  assumes story: "one_story es" and w: "waiting r c" and n: "qc_redirect c = None" and rec: "recordable fo collect r"
    and plain: "\<forall>aCode hs. AppResponse aCode hs \<in> set es \<longrightarrow> \<not> redirects aCode"
  shows "\<exists>c'. quic_hears fo collect clk es c = Inr (c', map (told_call (mURL r)) es)
    \<and> mBytesReceived c' = mBytesReceived c + int (length (concat (map data_of es))) \<and> mAnchor0 c' = (\<not> ended es)"
  using one_story_form[OF story]
proof (elim disjE exE conjE)
  assume "es = []"
  then show ?thesis using w by (simp add: waiting_def ended_def)
next
  assume "es = [AppFailed]"
  then show ?thesis using hears_end[OF _ w n rec, of "[AppFailed]" clk "mURL r"] by (force simp: ended_def)
next
  fix aCode hs ds t
  assume es: "es = AppResponse aCode hs # map AppData ds @ t" and t: "t \<in> {[], [AppCompleted], [AppFailed]}"
  let ?c = "c\<lparr>mFirstByteReceivedTimestamp := clk 0,
      qc_response := Some (Response_new (mURL r) (plain_headers hs) (status_of aCode))\<rparr>"
  have hear: "quic_hear fo collect (clk 0) (AppResponse aCode hs) c = Inr (?c, [told_call (mURL r) (AppResponse aCode hs)])"
    using plain w by (simp add: es redirects_def quicSessionDidReceiveResponse_def onResponseReceived_def tell_response_def
        waiting_def Let_def)
  have "waiting r ?c" "qc_redirect ?c = None" using w n by (simp_all add: waiting_def)
  from hears_data_then_end[OF t this rec, of "\<lambda>i. clk (Suc i)" ds "mURL r"] obtain c' where
    c': "quic_hears fo collect (\<lambda>i. clk (Suc i)) (map AppData ds @ t) ?c = Inr (c', map (told_call (mURL r)) (map AppData ds @ t))"
      "mBytesReceived c' = mBytesReceived c + int (length (concat ds))" "mAnchor0 c' = (t = [])" by auto
  have "concat (map data_of es) = concat ds" using t by (auto simp: es comp_def)
  moreover have "ended es = (t \<noteq> [])" using t by (auto simp: es ended_def last_map)
  ultimately show ?thesis
    using c' unfolding es quic_hears.simps hear and_then_simps prod.case by simp
qed

text \<open>
  Property C4. A QUIC connection passes on what its stream tells, call by call: in every run of a request, whatever the
  peer, the network and the timer do, the proxy hears a response, then the bytes of the body, then at most one
  end, with the URL of the request and the status and headers of the response; no assertion of the connection
  fires, it counts exactly the bytes it passed on, and it lets go of itself exactly when it told the end.
  Redirections are excluded here.
\<close>

theorem connection_passes_story_on:
  assumes "p_startWithRequest ms r True (QUICConnection_new edge False g) = Inr (c, hs, body)"
    and "p_sendRequest True (Some (QUICDataStream_new sid window sf)) env hs body = Some s0"
    and "stream_run es s0 = Some s"
    and "\<forall>aCode h. AppResponse aCode h \<in> set (app s) \<longrightarrow> \<not> redirects aCode"
    and "recordable fo collect r"
  shows "\<exists>c'. quic_hears fo collect clk (app s) c = Inr (c', map (told_call (mURL r)) (app s))
    \<and> one_story (app s) \<and> mBytesReceived c' = int (length (body_told s)) \<and> mAnchor0 c' = registered s"
proof -
  note c = p_startWithRequest_waiting[OF assms(1)]
  note story = request_story[OF assms(2,3)]
  from hears_story[OF story(2) c(1,2) assms(5,4), of clk] show ?thesis
    using story(2,3) c(4) by (auto simp: body_told_def)
qed

lemma simple_record: "URLWithString simple_foundation (mURL r) \<noteq> None \<Longrightarrow> None \<notin> set (mBody r) \<Longrightarrow> mURL r = c_str (mURL r)
    \<Longrightarrow> recordable simple_foundation collect r"
  by (auto simp: recordable_def record_of_request_def URLRequestFromRequest_def NSStringFromStdString_def simple_foundation_def
      NSDictionaryFromStdMap_def toString_def NSHTTPURLResponseFromResponse_def dataFromRequestAndResponse_def
      dataFromRequestsDictionary_def Let_def split: option.splits)

lemma socket_error_story:
  assumes "p_sendRequest True (Some (QUICDataStream_new sid window sf)) plain_env hs [] = Some s0"
  shows "\<exists>s. stream_run [(plain_env, SocketError)] s0 = Some s \<and> app s = [AppResponse 0 [], AppCompleted]"
proof -
  note pend = request_pending[OF assms]
  have st: "steady s0" by (rule request_steady(1)[OF assms])
  with pend(1) have l: "live s0" "connected s0" by (auto simp: steady_def known_def gone_def)
  have "interrupts SocketError" by (simp add: interrupts_def)
  from interrupted_closes[OF l this, of plain_env] obtain s where
    s: "stream_step plain_env SocketError s0 = Some s" "closed_from s0 s" by blast
  then have "app s = closing_log s0" by (simp add: closed_from_def pend(2))
  moreover have "\<not> mFailed s0" using l pend(1) by (simp add: live_def closable_def)
  ultimately have "app s = [AppResponse 0 [], AppCompleted]" using pend by (simp add: closing_log_def)
  with s(1) show ?thesis by simp
qed

theorem connection_passes_story_on_witness:
  "\<exists>c hs s0 s c'. p_startWithRequest 5 (Request_new ''http://a.example/'' Map.empty ''GET'' []) True
        (QUICConnection_new ''edge.example'' False 0) = Inr (c, hs, [])
     \<and> p_sendRequest True (Some (QUICDataStream_new 5 16384 plain_session)) plain_env hs [] = Some s0
     \<and> stream_run [(plain_env, SocketError)] s0 = Some s
     \<and> quic_hears simple_foundation True (\<lambda>i. 6) (app s) c =
         Inr (c', [DidReceiveResponse (Response_new ''http://a.example/'' Map.empty 0), DidFinish])"
proof -
  let ?r = "Request_new ''http://a.example/'' Map.empty ''GET'' []"
  obtain c hs where c: "p_startWithRequest 5 ?r True (QUICConnection_new ''edge.example'' False 0) = Inr (c, hs, [])"
    by (simp add: p_startWithRequest_def request_body_def Request_new_def onStart_def QUICConnection_new_def
        connection.extend_def quic_connection.fields_def Connection_new_def Let_def)
  obtain s0 where s0: "p_sendRequest True (Some (QUICDataStream_new 5 16384 plain_session)) plain_env hs [] = Some s0"
    by (simp add: p_sendRequest_def)
  from socket_error_story[OF s0] obtain s where
    s: "stream_run [(plain_env, SocketError)] s0 = Some s" "app s = [AppResponse 0 [], AppCompleted]" by blast
  have "\<forall>aCode h. AppResponse aCode h \<in> set (app s) \<longrightarrow> \<not> redirects aCode" by (simp add: s(2) redirects_def)
  moreover have "recordable simple_foundation True ?r"
    by (rule simple_record) (simp_all add: simple_foundation_def simple_URL_def Request_new_def c_str_def Let_def)
  ultimately obtain c' where
    "quic_hears simple_foundation True (\<lambda>i. 6) (app s) c = Inr (c', map (told_call (mURL ?r)) (app s))"
    using connection_passes_story_on[OF c s0 s(1)] by blast
  with c s0 s show ?thesis
    by (auto simp: s(2) Request_new_def plain_headers_def status_of_def)
qed

subsection \<open>Redirections\<close>

lemma hears_nothing_more:
  assumes "data_then_end es" and "qc_redirect c \<noteq> None" and "mEndTimestamp c = 0"
  shows "\<exists>c'. quic_hears fo collect clk es c = Inr (c', []) \<and> mAnchor0 c' = mAnchor0 c \<and> mAnchor1 c' = mAnchor1 c
    \<and> qc_redirect c' = qc_redirect c"
proof -
  from data_then_end_form[OF assms(1)] obtain ds t where es: "es = map AppData ds @ t" "t \<in> {[], [AppCompleted], [AppFailed]}"
    by blast
  let ?c = "c\<lparr>mBytesReceived := mBytesReceived c + int (length (concat ds))\<rparr>"
  have "\<exists>c'. quic_hears fo collect clk' t ?c = Inr (c', []) \<and> mAnchor0 c' = mAnchor0 c \<and> mAnchor1 c' = mAnchor1 c
    \<and> qc_redirect c' = qc_redirect c" for clk'
    using es(2) assms(2,3) by (auto simp: quicSessionDidFinish_def quicSessionDidFail_def onEnd_def)
  from this[of "\<lambda>i. clk (i + length (map AppData ds))"] obtain c' where
    "quic_hears fo collect (\<lambda>i. clk (i + length (map AppData ds))) t ?c = Inr (c', [])" "mAnchor0 c' = mAnchor0 c"
    "mAnchor1 c' = mAnchor1 c" "qc_redirect c' = qc_redirect c" by blast
  then show ?thesis
    unfolding es(1) quic_hears_append hears_data[of fo collect clk ds c "[]"] and_then_simps prod.case using assms(2) by auto
qed

lemma hears_response_as_usual:
  assumes "data_then_end es" and "waiting r c" and "qc_redirect c = None" and "recordable fo collect r"
  shows "\<exists>c'. quic_hears fo collect clk es c = Inr (c', map (told_call (mURL r)) es)
    \<and> mAnchor0 c' = (\<not> ended es) \<and> mAnchor1 c' = mAnchor1 c"
proof -
  from data_then_end_form[OF assms(1)] obtain ds t where es: "es = map AppData ds @ t" "t \<in> {[], [AppCompleted], [AppFailed]}"
    by blast
  have "ended es = (t \<noteq> [])" using es(2) by (auto simp: es(1) ended_def last_map)
  then show ?thesis using hears_data_then_end[OF es(2) assms(2-4), of clk ds "mURL r"] by (auto simp: es(1))
qed

text \<open>
  Property C34. A redirection over QUIC has four outcomes. Without a header spelled \<open>Location\<close>, which HTTP/2
  spells in small letters, the response runs into an assertion; a fault of Foundation on the new URL ends the call
  with that fault. When the new URL is understood the proxy is told of the redirection and of nothing else, whatever
  the stream still tells; the connection keeps both references to itself for good, and the depth
  it keeps for the limit of ten redirections is 1, because the connection made for it is never started.
  When the new URL is not understood the response is told as any other, and so are the body and the end; the
  connection drops its first reference to itself with the end and keeps the second for good.
\<close>

theorem redirection_told_once:
  assumes "p_startWithRequest ms r True (QUICConnection_new edge False g) = Inr (c, hs, body)"
    and "redirects aCode" and "one_story (AppResponse aCode h # es)"
  shows "(map_of h ''Location'' = None \<longrightarrow> quic_hears fo collect clk (AppResponse aCode h # es) c = Inl AssertFailed)
    \<and> (\<forall>f. redirected_request fo (mURL r) r h = Inl f \<longrightarrow>
        quic_hears fo collect clk (AppResponse aCode h # es) c = Inl f)
    \<and> (\<forall>q. redirected_request fo (mURL r) r h = Inr (Some q) \<longrightarrow>
        (\<exists>c'. quic_hears fo collect clk (AppResponse aCode h # es) c =
            Inr (c', [WasRedirected q (Response_new (mURL r) (plain_headers h) (status_of aCode))])
          \<and> mAnchor0 c' \<and> mAnchor1 c' \<and> qc_redirect c' = Some 1))
    \<and> (redirected_request fo (mURL r) r h = Inr None \<and> recordable fo collect r \<longrightarrow>
        (\<exists>c'. quic_hears fo collect clk (AppResponse aCode h # es) c =
            Inr (c', DidReceiveResponse (Response_new (mURL r) (plain_headers h) (status_of aCode)) # map (told_call (mURL r)) es)
          \<and> mAnchor0 c' = (\<not> ended es) \<and> mAnchor1 c'))"
proof -
  note c = p_startWithRequest_waiting[OF assms(1)]
  have redirect: "quicSessionDidReceiveResponse fo (clk 0) aCode h c = and_then (redirected_request fo (mURL r) r h) (\<lambda>new.
      case new of None \<Rightarrow> Inr (tell_response aCode h (c\<lparr>mFirstByteReceivedTimestamp := clk 0, mAnchor1 := True\<rparr>))
      | Some q \<Rightarrow> Inr (c\<lparr>mFirstByteReceivedTimestamp := clk 0, mAnchor1 := True, qc_redirect := Some 1\<rparr>,
          [WasRedirected q (Response_new (mURL r) (plain_headers h) (status_of aCode))]))"
    using c(1-3) assms(2)
    by (auto simp: quicSessionDidReceiveResponse_def redirects_def waiting_def onResponseReceived_def Let_def
        intro!: arg_cong[where f = "and_then _"] split: option.split)
  have dte: "data_then_end es" using assms(3) by simp
  have assertion: "map_of h ''Location'' = None \<longrightarrow> redirected_request fo (mURL r) r h = Inl AssertFailed"
    by (simp add: redirected_request_def)
  have understood: "\<exists>c'. quic_hears fo collect clk (AppResponse aCode h # es) c =
            Inr (c', [WasRedirected q (Response_new (mURL r) (plain_headers h) (status_of aCode))])
          \<and> mAnchor0 c' \<and> mAnchor1 c' \<and> qc_redirect c' = Some 1"
    if q: "redirected_request fo (mURL r) r h = Inr (Some q)" for q
  proof -
    let ?c = "c\<lparr>mFirstByteReceivedTimestamp := clk 0, mAnchor1 := True, qc_redirect := Some 1\<rparr>"
    have "mEndTimestamp ?c = 0" "mAnchor0 ?c" using c(1) by (auto simp: waiting_def)
    with hears_nothing_more[OF dte, of ?c fo collect "\<lambda>i. clk (Suc i)"] obtain c' where
      "quic_hears fo collect (\<lambda>i. clk (Suc i)) es ?c = Inr (c', [])" "mAnchor0 c'" "mAnchor1 c'" "qc_redirect c' = Some 1"
      by auto
    then show ?thesis by (simp add: redirect q)
  qed
  have passed_on: "\<exists>c'. quic_hears fo collect clk (AppResponse aCode h # es) c =
            Inr (c', DidReceiveResponse (Response_new (mURL r) (plain_headers h) (status_of aCode)) # map (told_call (mURL r)) es)
          \<and> mAnchor0 c' = (\<not> ended es) \<and> mAnchor1 c'"
    if n: "redirected_request fo (mURL r) r h = Inr None" and rec: "recordable fo collect r"
  proof -
    let ?p = "Response_new (mURL r) (plain_headers h) (status_of aCode)"
    let ?c = "c\<lparr>mFirstByteReceivedTimestamp := clk 0, mAnchor1 := True, qc_response := Some ?p\<rparr>"
    have "waiting r ?c" "qc_redirect ?c = None" using c(1,2) by (simp_all add: waiting_def)
    from hears_response_as_usual[OF dte this rec, of "\<lambda>i. clk (Suc i)"] obtain c' where
      "quic_hears fo collect (\<lambda>i. clk (Suc i)) es ?c = Inr (c', map (told_call (mURL r)) es)"
      "mAnchor0 c' = (\<not> ended es)" "mAnchor1 c'" by auto
    moreover have "quic_hear fo collect (clk 0) (AppResponse aCode h) c = Inr (?c, [DidReceiveResponse ?p])"
      using c(1) by (simp add: redirect n tell_response_def waiting_def Let_def)
    ultimately show ?thesis by simp
  qed
  have fault: "quic_hears fo collect clk (AppResponse aCode h # es) c = Inl f"
    if "redirected_request fo (mURL r) r h = Inl f" for f
    by (simp add: redirect that)
  show ?thesis using assertion fault understood passed_on by blast
qed

definition sample_redirected :: request where
  "sample_redirected = Request_new ''http://a.example/'' Map.empty ''GET'' []"

theorem redirection_told_once_witness:
  "\<exists>c hs c' q. p_startWithRequest 5 sample_redirected True (QUICConnection_new ''edge.example'' False 0) = Inr (c, hs, [])
     \<and> quic_hears simple_foundation True (\<lambda>i. 6)
         [AppResponse 302 [(''Location'', ''https://b.example/y'')], AppData ''moved'', AppCompleted] c =
       Inr (c', [WasRedirected q (Response_new ''http://a.example/'' [''Location'' \<mapsto> ''https://b.example/y''] 302)])
     \<and> mHost q = ''b.example'' \<and> mRest q = ''/y''
     \<and> quic_hears simple_foundation True (\<lambda>i. 6) [AppResponse 302 [(''location'', ''/y'')], AppCompleted] c = Inl AssertFailed
     \<and> (\<exists>c2. quic_hears simple_foundation True (\<lambda>i. 6) [AppResponse 302 [(''Location'', [])], AppCompleted] c =
          Inr (c2, [DidReceiveResponse (Response_new ''http://a.example/'' [''Location'' \<mapsto> []] 302), DidFinish])
        \<and> \<not> mAnchor0 c2 \<and> mAnchor1 c2)"
proof -
  obtain c hs where c: "p_startWithRequest 5 sample_redirected True (QUICConnection_new ''edge.example'' False 0) = Inr (c, hs, [])"
    by (simp add: p_startWithRequest_def request_body_def sample_redirected_def Request_new_def onStart_def QUICConnection_new_def
        connection.extend_def quic_connection.fields_def Connection_new_def Let_def)
  have d: "decomposeURL simple_foundation ''http://a.example/'' ''https://b.example/y'' = Inr (Some (''b.example'', ''/y'', ''https''))"
    by code_simp
  have "correctURLIfNeeded simple_foundation ''https://b.example/y'' [] = Inr ''https://b.example/y''"
    by code_simp
  then obtain q where q: "redirected_request simple_foundation (mURL sample_redirected) sample_redirected
      [(''Location'', ''https://b.example/y'')] = Inr (Some q)" "mHost q = ''b.example''" "mRest q = ''/y''"
    using d by (simp add: redirected_request_def sample_redirected_def Request_new_def)
  have r: "redirects 302" by (simp add: redirects_def)
  from redirection_told_once[OF c r, of "[(''Location'', ''https://b.example/y'')]" "[AppData ''moved'', AppCompleted]"
      simple_foundation True "\<lambda>i. 6"] q
  obtain c' where "quic_hears simple_foundation True (\<lambda>i. 6)
         [AppResponse 302 [(''Location'', ''https://b.example/y'')], AppData ''moved'', AppCompleted] c =
       Inr (c', [WasRedirected q (Response_new (mURL sample_redirected)
          (plain_headers [(''Location'', ''https://b.example/y'')]) (status_of 302))])" by auto
  moreover have "quic_hears simple_foundation True (\<lambda>i. 6) [AppResponse 302 [(''location'', ''/y'')], AppCompleted] c = Inl AssertFailed"
    using redirection_told_once[OF c r, of "[(''location'', ''/y'')]" "[AppCompleted]" simple_foundation True "\<lambda>i. 6",
      THEN conjunct1] by (simp del: quic_hears.simps)
  moreover have "\<exists>c2. quic_hears simple_foundation True (\<lambda>i. 6) [AppResponse 302 [(''Location'', [])], AppCompleted] c =
          Inr (c2, [DidReceiveResponse (Response_new ''http://a.example/'' [''Location'' \<mapsto> []] 302), DidFinish])
        \<and> \<not> mAnchor0 c2 \<and> mAnchor1 c2"
  proof -
    have "correctURLIfNeeded simple_foundation [] [] = Inr []" by code_simp
    moreover have "decomposeURL simple_foundation ''http://a.example/'' [] = Inr None" by code_simp
    ultimately have n: "redirected_request simple_foundation (mURL sample_redirected) sample_redirected [(''Location'', [])] = Inr None"
      by (simp add: redirected_request_def sample_redirected_def Request_new_def)
    have "recordable simple_foundation True sample_redirected"
      by (rule simple_record)
        (simp_all add: simple_foundation_def simple_URL_def sample_redirected_def Request_new_def c_str_def Let_def)
    with n redirection_told_once[OF c r, of "[(''Location'', [])]" "[AppCompleted]" simple_foundation True "\<lambda>i. 6",
      THEN conjunct2, THEN conjunct2, THEN conjunct2]
    obtain c2 where "quic_hears simple_foundation True (\<lambda>i. 6) [AppResponse 302 [(''Location'', [])], AppCompleted] c =
        Inr (c2, DidReceiveResponse (Response_new (mURL sample_redirected) (plain_headers [(''Location'', [])]) (status_of 302))
          # map (told_call (mURL sample_redirected)) [AppCompleted])"
      "mAnchor0 c2 = (\<not> ended [AppCompleted])" "mAnchor1 c2" by (auto simp del: quic_hears.simps)
    then show ?thesis
      by (auto simp: sample_redirected_def Request_new_def plain_headers_def status_of_def ended_def)
  qed
  ultimately show ?thesis using c q by (auto simp: sample_redirected_def Request_new_def plain_headers_def status_of_def)
qed

subsection \<open>The request on the wire\<close>

lemma map_of_set_header [simp]: "map_of (set_header k v hs) = (map_of hs)(k \<mapsto> v)"
  by (induction hs) (auto simp: fun_eq_iff)

lemma set_header_names: "fst ` set (set_header k v hs) = insert k (fst ` set hs)"
  by (induction hs) auto

lemma set_header_distinct: "distinct (map fst hs) \<Longrightarrow> distinct (map fst (set_header k v hs))"
proof (induction hs)
  case (Cons e hs)
  then show ?case using set_header_names[of k v hs] by (auto simp: image_iff)
qed simp

lemma fold_set_header:
  "map_of (fold (\<lambda>(k, v). set_header k v) (map (\<lambda>k. (k, the (m k))) ks) hs) k
     = (if k \<in> set ks then Some (the (m k)) else map_of hs k)"
  "distinct (map fst hs) \<Longrightarrow> distinct (map fst (fold (\<lambda>(k, v). set_header k v) es hs))"
  by (induction ks arbitrary: hs) (auto, induction es arbitrary: hs, auto simp: set_header_distinct)

lemma fold_map_entries:
  assumes "finite (dom m)"
  shows "map_of (fold (\<lambda>(k, v). set_header k v) (map_entries m) hs) = map_of hs ++ m"
proof
  fix k
  have "k \<in> set (sorted_list_of_set (dom m)) \<longleftrightarrow> k \<in> dom m" using assms by simp
  then show "map_of (fold (\<lambda>(k, v). set_header k v) (map_entries m) hs) k = (map_of hs ++ m) k"
    unfolding map_entries_def fold_set_header(1) by (auto simp: map_add_def split: option.split)
qed

lemma request_block_fields:
  assumes "finite (dom (mHeaders r))"
  shows "map_of (request_block r) = (map_of [('':authority'', mHost r), ('':method'', mMethod r), ('':path'', quic_path (mRest r)),
      ('':scheme'', ''https''), (''accept-encoding'', ''identity'')] ++ mHeaders r)
      (''X-Rev-Host'' \<mapsto> mHost r, ''X-Rev-Proto'' \<mapsto> mOriginalScheme r)"
    and "distinct (map fst (request_block r))"
  unfolding request_block_def Let_def map_of_set_header fold_map_entries[OF assms]
  by (rule refl) (intro set_header_distinct fold_set_header(2), simp)

text \<open>
  Property C14. The header block of a request for a page of the web sent over QUIC: the host as the authority and as
  \<open>X-Rev-Host\<close>, the scheme the application used as \<open>X-Rev-Proto\<close>, every other header of the application, and each name
  once. The path is what follows the host, with a slash in front when there is none: of a URL with a port the
  port becomes a part of the path.
\<close>

theorem quic_request_on_the_wire:
  assumes "web_request fo scheme host rest q" and "plain (utf8 fo) (edgeHost conf)" and "host_name (edgeHost conf)"
    and "plain (utf8 fo) key" and "plain (utf8 fo) (SDKDomain conf)" and "HTTPBody q = []"
    and "finite (dom (allHTTPHeaderFields q))"
    and "\<forall>k \<in> dom (allHTTPHeaderFields q). k \<notin> {'':authority'', '':method'', '':path'', '':scheme''}"
  shows "\<exists>r c hs. RSURLConnection_new fo conf key quicProtocolName q = Inr r
     \<and> p_startWithRequest ms r True (QUICConnection_new edge fake g) = Inr (c, hs, [])
     \<and> distinct (map fst hs)
     \<and> map_of hs '':authority'' = Some host \<and> map_of hs '':method'' = Some (c_str (HTTPMethod q))
     \<and> map_of hs '':scheme'' = Some ''https''
     \<and> map_of hs '':path'' = Some (if rest = [] then ''/'' else if hd rest = CHR ''/'' then rest else CHR ''/'' # rest)
     \<and> map_of hs ''X-Rev-Host'' = Some host \<and> map_of hs ''X-Rev-Proto'' = Some scheme
     \<and> map_of hs ''Host'' = Some (if host \<in> set (domainsProvisionedList conf) then host else key @ ''.'' @ SDKDomain conf)
     \<and> (\<forall>k v. allHTTPHeaderFields q k = Some v \<longrightarrow> k \<notin> {''X-Rev-Host'', ''X-Rev-Proto'', ''Host''} \<longrightarrow> map_of hs k = Some (c_str v))"
proof -
  let ?kept = "stdMapFromNSDictionary (allHTTPHeaderFields q)"
  from RSURLConnection_web[OF assms(1-5), of quicProtocolName] obtain r where
    r: "RSURLConnection_new fo conf key quicProtocolName q = Inr r" "mHost r = host" "mRest r = (if rest = [] then ''/'' else rest)"
      "mOriginalScheme r = scheme" "mMethod r = c_str (HTTPMethod q)" "mBody r = []"
    and hs: "mHeaders r = (if host \<in> set (domainsProvisionedList conf) then ?kept(''Host'' \<mapsto> host)
         else ?kept(''X-Rev-Host'' \<mapsto> host, ''X-Rev-Proto'' \<mapsto> scheme, ''Host'' \<mapsto> key @ ''.'' @ SDKDomain conf))"
    using assms(6) by (auto simp: Let_def sent_host_def standardProtocolName_def quicProtocolName_def)
  have dom: "dom ?kept = dom (allHTTPHeaderFields q)" by (auto simp: stdMapFromNSDictionary_def)
  then have "finite (dom (mHeaders r))" using assms(7) by (simp add: hs)
  note block = request_block_fields[OF this]
  obtain c where c: "p_startWithRequest ms r True (QUICConnection_new edge fake g) = Inr (c, request_block r, [])"
    by (simp add: p_startWithRequest_def request_body_def r(6) onStart_def QUICConnection_new_def
        connection.extend_def quic_connection.fields_def Connection_new_def Let_def)
  have pseudo: "?kept k = None" if "k \<in> {'':authority'', '':method'', '':path'', '':scheme''}" for k
  proof -
    have "k \<notin> dom (allHTTPHeaderFields q)" by (rule notI) (use assms(8)[rule_format, of k] that in argo)
    then show ?thesis unfolding dom[symmetric] domIff by simp
  qed
  have path: "quic_path (mRest r) = (if rest = [] then ''/'' else if hd rest = CHR ''/'' then rest else CHR ''/'' # rest)"
    by (simp add: quic_path_def r(3))
  have "map_of (request_block r) '':authority'' = Some host" "map_of (request_block r) '':method'' = Some (c_str (HTTPMethod q))"
    "map_of (request_block r) '':scheme'' = Some ''https''" "map_of (request_block r) '':path'' = Some (quic_path (mRest r))"
    unfolding block(1) hs using pseudo by (simp_all add: r map_add_def)
  moreover have "map_of (request_block r) ''X-Rev-Host'' = Some host" "map_of (request_block r) ''X-Rev-Proto'' = Some scheme"
    "map_of (request_block r) ''Host'' = Some (if host \<in> set (domainsProvisionedList conf) then host else key @ ''.'' @ SDKDomain conf)"
    unfolding block(1) hs by (simp_all add: r map_add_def)
  moreover have "map_of (request_block r) k = Some (c_str v)"
    if "allHTTPHeaderFields q k = Some v" "k \<notin> {''X-Rev-Host'', ''X-Rev-Proto'', ''Host''}" for k v
  proof -
    have "mHeaders r k = Some (c_str v)" using that by (simp add: hs stdMapFromNSDictionary_def)
    then show ?thesis using that(2) unfolding block(1) by (simp add: map_add_Some_iff)
  qed
  ultimately show ?thesis using r(1) c block(2) unfolding path by blast
qed

theorem quic_request_on_the_wire_witness:
  "\<exists>r c hs. RSURLConnection_new simple_foundation sample_configuration ''key'' quicProtocolName sample_get = Inr r
     \<and> p_startWithRequest 5 r True (QUICConnection_new ''edge.example'' False 0) = Inr (c, hs, [])
     \<and> map_of hs '':path'' = Some ''/x?y'' \<and> map_of hs ''Accept'' = Some ''*''"
proof -
  have c: "edgeHost sample_configuration = ''edge.example''" "SDKDomain sample_configuration = ''revsdk.net''"
    by (simp_all add: sample_configuration_def Configuration_new_def)
  have p: "plain (utf8 simple_foundation) t" if "CHR 0x00 \<notin> set t" for t
    using that by (simp add: plain_def simple_foundation_def)
  have h: "HTTPBody sample_get = []" "allHTTPHeaderFields sample_get = [''Accept'' \<mapsto> ''*'']" by (simp_all add: sample_get_def)
  have star: "c_str ''*'' = ''*''" by (simp add: c_str_def)
  have "\<exists>r c hs. RSURLConnection_new simple_foundation sample_configuration ''key'' quicProtocolName sample_get = Inr r
     \<and> p_startWithRequest 5 r True (QUICConnection_new ''edge.example'' False 0) = Inr (c, hs, [])
     \<and> map_of hs '':path'' = Some (if ''/x?y'' = [] then ''/'' else if hd ''/x?y'' = CHR ''/'' then ''/x?y'' else CHR ''/'' # ''/x?y'')
     \<and> (\<forall>k v. allHTTPHeaderFields sample_get k = Some v \<longrightarrow> k \<notin> {''X-Rev-Host'', ''X-Rev-Proto'', ''Host''}
          \<longrightarrow> map_of hs k = Some (c_str v))"
    using quic_request_on_the_wire[OF sample_web p _ p p h(1), of sample_configuration "''key''" 5 "''edge.example''" False 0]
    unfolding c h(2) using sample_names by fastforce
  then obtain r c hs where
    r: "RSURLConnection_new simple_foundation sample_configuration ''key'' quicProtocolName sample_get = Inr r"
      "p_startWithRequest 5 r True (QUICConnection_new ''edge.example'' False 0) = Inr (c, hs, [])"
      "map_of hs '':path'' = Some ''/x?y''"
    and keep: "\<And>k v. allHTTPHeaderFields sample_get k = Some v \<Longrightarrow> k \<notin> {''X-Rev-Host'', ''X-Rev-Proto'', ''Host''}
          \<Longrightarrow> map_of hs k = Some (c_str v)" by auto
  have "map_of hs ''Accept'' = Some ''*''" using keep[of "''Accept''" "''*''"] h(2) star by simp
  with r show ?thesis by blast
qed

text \<open>
  Property C35. No body is sent whole over QUIC: one without a zero byte is read behind its end, one with a zero byte is cut
  in front of it. Only requests without a body are sent as they are.
\<close>

theorem quic_body_never_whole:
  assumes "mBody r = map Some b" and "b \<noteq> []"
  shows "(CHR 0x00 \<notin> set b \<longrightarrow> p_startWithRequest ms r d c = Inl UndefinedBehaviour)
    \<and> (\<forall>c' hs t. p_startWithRequest ms r d c = Inr (c', hs, t) \<longrightarrow> (\<exists>u. b = t @ CHR 0x00 # u \<and> CHR 0x00 \<notin> set t))"
proof -
  have read: "(CHR 0x00 \<notin> set b \<longrightarrow> read_c_str (map Some b) = Inl UndefinedBehaviour)
    \<and> (\<forall>t. read_c_str (map Some b) = Inr t \<longrightarrow> (\<exists>u. b = t @ CHR 0x00 # u \<and> CHR 0x00 \<notin> set t))" for b
  proof (induction b)
    case (Cons x b)
    then show ?case by (cases "read_c_str (map Some b)") auto
  qed simp
  have body: "request_body (mBody r) = read_c_str (map Some b)" using assms by (simp add: request_body_def)
  show ?thesis
    using read[of b] unfolding p_startWithRequest_def body Let_def by (auto simp: and_then_eq_Inr)
qed

theorem quic_body_never_whole_witness:
  "p_startWithRequest 5 (Request_new ''http://a.example/'' Map.empty ''POST'' (map Some ''a=1'')) True
     (QUICConnection_new [] False 0) = Inl UndefinedBehaviour"
  using quic_body_never_whole[of "Request_new ''http://a.example/'' Map.empty ''POST'' (map Some ''a=1'')" "''a=1''" 5 True]
  by (simp add: Request_new_def)

subsection \<open>The URL of the response\<close>

text \<open>
  Property C36. The URL the application sees in a response: over the standard protocol the one it asked for, although the
  edge answered; over QUIC the one that was sent, which is not the page it asked for when that was an \<open>http\<close> page of a
  domain that is not provisioned.
\<close>

theorem response_names_page:
  assumes "web_request fo scheme host rest q" and "plain (utf8 fo) (edgeHost conf)" and "host_name (edgeHost conf)"
    and "plain (utf8 fo) key" and "plain (utf8 fo) (SDKDomain conf)" and "HTTPBody q = []" and "\<not> redirects aCode"
    and "utf8 fo (web_url scheme host rest)"
  shows "\<exists>r1 c1 p1 r2 c2 hs c2' p2.
       RSURLConnection_new fo conf key standardProtocolName q = Inr r1
     \<and> didReceiveResponse_standard fo ms resp (c\<lparr>mCurrentRequest := Some r1\<rparr>) = Inr (c1, [DidReceiveResponse p1])
     \<and> r_URL p1 = web_url scheme host rest
     \<and> RSURLConnection_new fo conf key quicProtocolName q = Inr r2
     \<and> p_startWithRequest ms r2 True (QUICConnection_new edge fake g) = Inr (c2, hs, [])
     \<and> quicSessionDidReceiveResponse fo ms aCode h c2 = Inr (c2', [DidReceiveResponse p2])
     \<and> r_URL p2 = web_url (sent_scheme conf scheme host) host rest"
proof -
  have w: "scheme \<in> {''http'', ''https''}" "host_name host" "parses_web fo rest" "CHR 0x00 \<notin> set rest"
    using assms(1) by (auto simp: web_request_def)
  obtain p where u: "URLWithString fo (web_url scheme host rest) = Some \<lparr>absoluteString = web_url scheme host rest,
      url_scheme = Some scheme, url_host = Some host, url_path = p\<rparr>"
    using w(1-3) unfolding parses_web_def by blast
  note nul = web_url_no_nul[OF w(1,2,4)]
  from RSURLConnection_web[OF assms(1-5), of standardProtocolName] obtain r1 where
    r1: "RSURLConnection_new fo conf key standardProtocolName q = Inr r1" "mOriginalURL r1 = web_url scheme host rest" by blast
  from RSURLConnection_web[OF assms(1-5), of quicProtocolName] obtain r2 where
    r2: "RSURLConnection_new fo conf key quicProtocolName q = Inr r2" "mBody r2 = []"
      "mURL r2 = web_url (sent_scheme conf scheme host) host rest"
    using assms(6) by (auto simp: Let_def sent_host_def standardProtocolName_def quicProtocolName_def)
  have "\<exists>c1 p1. didReceiveResponse_standard fo ms resp (c\<lparr>mCurrentRequest := Some r1\<rparr>) = Inr (c1, [DidReceiveResponse p1])
     \<and> r_URL p1 = web_url scheme host rest"
    using assms(8) nul u
    by (simp add: didReceiveResponse_standard_def processed_response_def r1(2) NSStringFromStdString_def
        responseFromHTTPURLResponse_def Response_new_def std_of_ns_def)
  moreover have "\<exists>c2 hs c2' p2. p_startWithRequest ms r2 True (QUICConnection_new edge fake g) = Inr (c2, hs, [])
     \<and> quicSessionDidReceiveResponse fo ms aCode h c2 = Inr (c2', [DidReceiveResponse p2])
     \<and> r_URL p2 = web_url (sent_scheme conf scheme host) host rest"
    using assms(7) r2(2,3)
    by (simp add: p_startWithRequest_def request_body_def onStart_def QUICConnection_new_def
        connection.extend_def quic_connection.fields_def Connection_new_def Let_def redirects_def
        quicSessionDidReceiveResponse_def onResponseReceived_def tell_response_def Response_new_def)
  ultimately show ?thesis using r1(1) r2(1) by blast
qed

theorem response_names_page_witness:
  "\<exists>r c hs c' p. RSURLConnection_new simple_foundation sample_configuration ''key'' quicProtocolName sample_get = Inr r
     \<and> p_startWithRequest 5 r True (QUICConnection_new ''edge.example'' False 0) = Inr (c, hs, [])
     \<and> quicSessionDidReceiveResponse simple_foundation 5 200 [('':status'', ''200'')] c = Inr (c', [DidReceiveResponse p])
     \<and> r_URL p = ''https://a.example/x?y''"
proof -
  have c: "edgeHost sample_configuration = ''edge.example''" "domainsProvisionedList sample_configuration = []"
    "SDKDomain sample_configuration = ''revsdk.net''"
    by (simp_all add: sample_configuration_def Configuration_new_def)
  have p: "plain (utf8 simple_foundation) t" if "CHR 0x00 \<notin> set t" for t
    using that by (simp add: plain_def simple_foundation_def)
  have h: "HTTPBody sample_get = []" "\<not> redirects 200" "utf8 simple_foundation (web_url ''http'' ''a.example'' ''/x?y'')"
    by (simp_all add: sample_get_def redirects_def simple_foundation_def)
  have url: "web_url (sent_scheme sample_configuration ''http'' ''a.example'') ''a.example'' ''/x?y'' = ''https://a.example/x?y''"
    by (simp add: sent_scheme_def c web_url_def)
  have pre: "CHR 0x00 \<notin> set (edgeHost sample_configuration)" "host_name (edgeHost sample_configuration)"
    "CHR 0x00 \<notin> set ''key''" "CHR 0x00 \<notin> set (SDKDomain sample_configuration)"
    by (simp_all add: c sample_names)
  show ?thesis
    using response_names_page[OF sample_web p[OF pre(1)] pre(2) p[OF pre(3)] p[OF pre(4)] h, of 5
        "\<lparr>statusCode = 200, allHeaderFields = Map.empty\<rparr>" "connection.extend (fst (Connection_new [] False 0)) (standard_connection.fields None None)" "''edge.example''" False 0 "[('':status'', ''200'')]"]
    unfolding url by blast
qed

end
