(* ===== verification/StreamWriting.thy ===== *)
theory StreamWriting
  imports StreamRequest
begin

text \<open>
  The body of a request on its way out: what the stream puts on the wire of the bytes the SDK gave
  it, in every run, under the windows of the stream and of the connection.
\<close>

subsection \<open>Closing and reading write nothing\<close>

lemma sending_data [simp]: "sending (s\<lparr>out := out s @ map AppData ds\<rparr>) = sending s"
  by (induction ds rule: rev_induct) (auto simp: sending_def)

lemma sending_told [simp]:
  "sending (onQUICStreamReceivedData d s) = sending s" "sending (onQUICStreamReceivedResponse c h s) = sending s"
  "sending (onQUICStreamCompleted s) = sending s" "sending (onQUICStreamFailed s) = sending s"
  "sending (should_add_incoming_data d s) = sending s" "sending (add_incoming_data d s) = sending s"
  "sending (onVisitorSentClose s) = sending s"
proof -
  show told: "sending (onQUICStreamReceivedData d s) = sending s" "sending (onQUICStreamReceivedResponse c h s) = sending s"
    "sending (onQUICStreamCompleted s) = sending s" "sending (onQUICStreamFailed s) = sending s" for c d h s
    by (simp_all add: onQUICStreamReceivedData_def onQUICStreamReceivedResponse_def onQUICStreamCompleted_def
        onQUICStreamFailed_def)
  show add: "sending (should_add_incoming_data d s) = sending s" for d s
    by (simp add: should_add_incoming_data_def fold_received told(1) Let_def)
  then show "sending (add_incoming_data d s) = sending s"
    by (simp add: add_incoming_data_def Let_def)
  show "sending (onVisitorSentClose s) = sending s"
    by (simp add: onVisitorSentClose_def Let_def told add)
qed

text \<open>Nothing is written, and the write side is not opened again.\<close>

definition keeps :: "quic_stream \<Rightarrow> quic_stream \<Rightarrow> bool" where
  "keeps s s' \<longleftrightarrow> sending s' = sending s \<and> (write_side_closed s \<longrightarrow> write_side_closed s')"

lemma keeps_trans: "keeps s t \<Longrightarrow> keeps t u \<Longrightarrow> keeps s u"
  by (simp add: keeps_def)

lemma view_write_side: "view s = view s' \<Longrightarrow> write_side_closed s = write_side_closed s'"
  by (rule view_cong)

lemma keeps_same: "view s' = view s \<Longrightarrow> sending s' = sending s \<Longrightarrow> keeps s s'"
  using view_write_side[of s' s] by (simp add: keeps_def)

lemma told_write_side [simp]:
  "write_side_closed (onVisitorSentClose s) = write_side_closed s"
  "write_side_closed (add_incoming_data d s) = write_side_closed s"
  "write_side_closed (AddBytesConsumed env n s) = write_side_closed s"
  using view_write_side[OF view_AddBytesConsumed]
  by (simp_all add: onVisitorSentClose_def add_incoming_data_def should_add_incoming_data_def fold_received
      onQUICStreamReceivedData_def onQUICStreamReceivedResponse_def onQUICStreamCompleted_def emit_def Let_def)

lemma keeps_close:
  assumes "\<And>l s. keeps s (close l s)"
  shows "keeps s (rel_CloseReadSide close s)" and "keeps s (rel_CloseWriteSide close s)"
    and "keeps s (SendRstStream close code s)" and "keeps s (rel_Reset close code s)"
    and "keeps s (spdy_CloseWriteSide env close s)" and "keeps s (rel_OnClose env close s)"
    and "keeps s (spdy_OnClose env close s)"
proof -
  have c: "sending (close l s) = sending s" "write_side_closed s \<Longrightarrow> write_side_closed (close l s)" for l s
    using assms by (simp_all add: keeps_def)
  show read: "keeps s (rel_CloseReadSide close s)" for s
    by (simp add: rel_CloseReadSide_def keeps_def Let_def c)
  show wr: "keeps s (rel_CloseWriteSide close s)" for s
    by (simp add: rel_CloseWriteSide_def keeps_def Let_def c)
  show rst: "keeps s (SendRstStream close code s)" for s code
    by (auto simp: SendRstStream_def keeps_def c intro!: c(2)) (simp add: emit_def)
  then show reset: "keeps s (rel_Reset close code s)" for s code
    using rst[of "s\<lparr>stream_error := code\<rparr>" code] by (simp add: rel_Reset_def keeps_def)
  show spdy: "keeps s (spdy_CloseWriteSide env close s)" for s
    using wr reset keeps_trans[OF reset wr] by (simp add: spdy_CloseWriteSide_def)
  show on: "keeps s (rel_OnClose env close s)" for s
  proof -
    have "keeps s (spdy_CloseWriteSide env close (rel_CloseReadSide close s))" (is "keeps s ?t")
      using read spdy by (rule keeps_trans)
    with rst[of ?t QUIC_RST_ACKNOWLEDGEMENT] show ?thesis
      by (simp add: rel_OnClose_def Let_def keeps_def)
  qed
  then show "keeps s (spdy_OnClose env close s)" by (simp add: spdy_OnClose_def Let_def keeps_def)
qed

lemma keeps_closes:
  "keeps s (CloseStreamInner env l s)" "keeps s (CloseReadSide env s)" "keeps s (CloseWriteSide env s)"
  "keeps s (Reset env code s)" "keeps s (CloseConnection env e s)" "write_side_closed (CloseWriteSide env s)"
proof -
  have "keeps t (spdy_OnClose env (\<lambda>_ s. s) t)" for t
    by (rule keeps_close) (simp add: keeps_def)
  then show inner: "keeps s (CloseStreamInner env l s)" for l s
    by (simp add: CloseStreamInner_def Let_def keeps_def)
  note close = keeps_close[of "CloseStreamInner env", OF inner]
  show sides: "keeps s (CloseReadSide env s)" "keeps s (CloseWriteSide env s)"
    "keeps s (Reset env code s)" for s
    by (simp_all add: CloseReadSide_def CloseWriteSide_def Reset_def close)
  have con: "keeps s (rel_OnConnectionClosed env e s)" for s
    using keeps_trans[OF sides(2) sides(1), of s] keeps_trans[OF sides(2) sides(1),
        of "s\<lparr>stream_error := QUIC_STREAM_CONNECTION_ERROR, connection_error := e\<rparr>"]
    by (simp add: rel_OnConnectionClosed_def keeps_def)
  have "keeps s (session_OnConnectionClosed env e s)" for s
    using con[of s] con[of "s\<lparr>session_error := e\<rparr>"] inner
    by (auto simp: session_OnConnectionClosed_def CloseStream_def Let_def keeps_def)
  from this[of "s\<lparr>connected := False\<rparr>"] show "keeps s (CloseConnection env e s)"
    by (simp add: CloseConnection_def keeps_def)
  have "write_side_closed (rel_CloseWriteSide (CloseStreamInner env) t)" for t
    using inner[of "t\<lparr>write_side_closed := True\<rparr>" False] by (simp add: rel_CloseWriteSide_def Let_def keeps_def)
  then show "write_side_closed (CloseWriteSide env s)"
    by (simp add: CloseWriteSide_def spdy_CloseWriteSide_def)
qed

lemma keeps_MaybeSendBlocked: "keeps s (MaybeSendBlocked env s)"
proof -
  have none: "CloseSentTooMuch \<notin> set (snd (fc_MaybeSendBlocked fc))" for fc by (simp add: fc_MaybeSendBlocked_def)
  have step: "keeps s (emit_flow fx (s\<lparr>stream_flow := fst (fc_MaybeSendBlocked (stream_flow s))\<rparr>))"
    "keeps s (emit_flow fx (s\<lparr>session_flow := fst (fc_MaybeSendBlocked (session_flow s))\<rparr>))"
    "keeps s (MarkConnectionLevelWriteBlocked s)" for fx s
    by (simp_all add: keeps_def sending_flow MarkConnectionLevelWriteBlocked_def) (simp_all add: emit_flow_def emit_def)
  show ?thesis
    unfolding MaybeSendBlocked_def Let_def case_prod_unfold flow_out_def
    using none step keeps_trans by (simp add: ) (meson keeps_trans)
qed

subsection \<open>The bytes on the wire\<close>

definition total :: "(nat \<times> string \<times> bool) list \<Rightarrow> nat" where
  "total ws = sum_list (map (\<lambda>(_, d, _). length d) ws)"

text \<open>Pieces of \<open>body\<close> from byte \<open>n\<close> on, without a gap; the end of the stream goes with the last byte.\<close>

fun in_sequence :: "nat \<Rightarrow> string \<Rightarrow> (nat \<times> string \<times> bool) list \<Rightarrow> bool" where
  "in_sequence n body [] = True"
| "in_sequence n body ((off, d, fin) # ws) =
     (off = n \<and> d = take (length d) (drop n body) \<and> (fin = (n + length d = length body \<and> ws = []))
       \<and> in_sequence (n + length d) body ws)"

text \<open>
  What the code relies on of the connection: it takes a prefix of the bytes it is offered, and
  the end of the stream exactly with the last of them.
\<close>

definition takes_prefix :: "stream_env \<Rightarrow> bool" where
  "takes_prefix env \<longleftrightarrow> (\<forall>off d fin n f err. send_data env off d fin = (n, f, err) \<longrightarrow>
     n \<le> length d \<and> (d \<noteq> [] \<longrightarrow> f = (fin \<and> n = length d)))"

definition sent_ok :: "string \<Rightarrow> flow_controller \<Rightarrow> quic_stream \<Rightarrow> bool" where
  "sent_ok body sf s \<longleftrightarrow>
     in_sequence 0 body (writes (out s)) \<and> total (writes (out s)) = stream_bytes_written s
     \<and> stream_bytes_written s \<le> length body \<and> (stream_bytes_written s = length body \<longrightarrow> write_side_closed s)
     \<and> sent_part (stream_flow s) = (stream_bytes_written s, send_window_offset (stream_flow s))
     \<and> sent_part (session_flow s) = (fc_bytes_sent sf + stream_bytes_written s, send_window_offset (session_flow s))
     \<and> stream_bytes_written s \<le> send_window_offset (stream_flow s)
     \<and> fc_bytes_sent sf + stream_bytes_written s \<le> send_window_offset (session_flow s)
     \<and> SentConnectionClose QUIC_FLOW_CONTROL_SENT_TOO_MUCH_DATA \<notin> set (out s) \<and> \<not> ignore_read_data s"

definition waiting_ok :: "string \<Rightarrow> quic_stream \<Rightarrow> bool" where
  "waiting_ok body s \<longleftrightarrow> (\<not> write_side_closed s \<longrightarrow> fin_buffered s
     \<and> queued_data_bytes s = length body - stream_bytes_written s
     \<and> (\<exists>d off. queued_data s = [(d, off)] \<and> drop off d = drop (stream_bytes_written s) body))"

definition writing :: "string \<Rightarrow> flow_controller \<Rightarrow> quic_stream \<Rightarrow> bool" where
  "writing body sf s \<longleftrightarrow> sent_ok body sf s \<and> waiting_ok body s"

lemma total_append [simp]: "total (ws @ ws') = total ws + total ws'" "total [] = 0" "total [(off, d, f)] = length d"
  by (simp_all add: total_def)

lemma in_sequence_append:
  "in_sequence n body ws \<Longrightarrow> n + total ws < length body \<Longrightarrow> off = n + total ws \<Longrightarrow>
     d = take (length d) (drop off body) \<Longrightarrow> fin = (off + length d = length body) \<Longrightarrow>
     in_sequence n body (ws @ [(off, d, fin)])"
  by (induction n body ws rule: in_sequence.induct) (auto simp: total_def add.assoc)

lemma sending_cong:
  assumes "sending s' = sending s"
  shows "writes (out s') = writes (out s)"
    and "(SentConnectionClose QUIC_FLOW_CONTROL_SENT_TOO_MUCH_DATA \<in> set (out s'))
      = (SentConnectionClose QUIC_FLOW_CONTROL_SENT_TOO_MUCH_DATA \<in> set (out s))"
    and "queued_data s' = queued_data s" and "queued_data_bytes s' = queued_data_bytes s"
    and "fin_buffered s' = fin_buffered s" and "stream_bytes_written s' = stream_bytes_written s"
    and "sent_part (stream_flow s') = sent_part (stream_flow s)"
    and "sent_part (session_flow s') = sent_part (session_flow s)"
    and "fc_bytes_sent (stream_flow s') = fc_bytes_sent (stream_flow s)"
    and "send_window_offset (stream_flow s') = send_window_offset (stream_flow s)"
    and "fc_bytes_sent (session_flow s') = fc_bytes_sent (session_flow s)"
    and "send_window_offset (session_flow s') = send_window_offset (session_flow s)"
    and "ignore_read_data s' = ignore_read_data s"
  using assms by (auto simp: sending_def sent_part_def)

lemma keeps_sent_ok: "keeps s s' \<Longrightarrow> sent_ok body sf s \<Longrightarrow> sent_ok body sf s'"
  using sending_cong[of s' s] unfolding keeps_def sent_ok_def by simp

lemma keeps_writing: "keeps s s' \<Longrightarrow> writing body sf s \<Longrightarrow> writing body sf s'"
  using keeps_sent_ok[of s s'] sending_cong[of s' s] unfolding writing_def waiting_ok_def keeps_def by auto

lemma in_window:
  "sent_ok body sf s \<Longrightarrow> k \<le> min (SendWindowSize (stream_flow s)) (SendWindowSize (session_flow s)) \<Longrightarrow>
     stream_bytes_written s + k \<le> send_window_offset (stream_flow s)
     \<and> fc_bytes_sent sf + stream_bytes_written s + k \<le> send_window_offset (session_flow s)"
  by (auto simp: sent_ok_def sent_part_def SendWindowSize_def split: if_splits)

text \<open>Bytes within the window are counted, and no window is overrun.\<close>

lemma AddBytesSent_counts:
  assumes "sent_part (stream_flow s) = (n, w)" and "n + k \<le> w" and "n + k < 2 ^ 64"
    and "sent_part (session_flow s) = (m, v)" and "m + k \<le> v" and "m + k < 2 ^ 64"
  shows "\<exists>f1 f2. AddBytesSent env k s = s\<lparr>stream_flow := f1, session_flow := f2\<rparr>
    \<and> sent_part f1 = (n + k, w) \<and> sent_part f2 = (m + k, v)"
proof -
  have a: "fc_bytes_sent (stream_flow s) = n" "send_window_offset (stream_flow s) = w"
    "fc_bytes_sent (session_flow s) = m" "send_window_offset (session_flow s) = v"
    using assms(1,4) by (simp_all add: sent_part_def)
  have 1: "fc_AddBytesSent k (stream_flow s) = (stream_flow s\<lparr>fc_bytes_sent := n + k\<rparr>, [])"
    using assms a by (simp add: fc_AddBytesSent_def u64_def)
  have 2: "fc_AddBytesSent k (session_flow s) = (session_flow s\<lparr>fc_bytes_sent := m + k\<rparr>, [])"
    using assms a by (simp add: fc_AddBytesSent_def u64_def)
  have "AddBytesSent env k s = s\<lparr>stream_flow := stream_flow s\<lparr>fc_bytes_sent := n + k\<rparr>,
      session_flow := session_flow s\<lparr>fc_bytes_sent := m + k\<rparr>\<rparr>"
    by (simp add: AddBytesSent_def 1 2 flow_out_def emit_flow_def)
  then show ?thesis using a by (fastforce simp: sent_part_def)
qed

lemma keeps_after_write: "keeps s (after_write env z fin l n f s)"
proof -
  have mark: "keeps t (MarkConnectionLevelWriteBlocked t)" for t
    by (simp add: keeps_def MarkConnectionLevelWriteBlocked_def) (simp add: emit_def)
  have close: "keeps t (CloseWriteSide env (if fin_received (t\<lparr>fin_sent := True\<rparr>)
      then t\<lparr>fin_sent := True, draining := True\<rparr> else t\<lparr>fin_sent := True\<rparr>))" for t
    using keeps_closes(3)[of "t\<lparr>fin_sent := True, draining := True\<rparr>" env] keeps_closes(3)[of "t\<lparr>fin_sent := True\<rparr>" env]
    by (simp add: keeps_def)
  define s1 where "s1 = (if \<not> z then MaybeSendBlocked env s else s)"
  have s1: "keeps s s1" using keeps_MaybeSendBlocked by (simp add: s1_def keeps_def)
  show ?thesis
    unfolding after_write_def Let_def s1_def[symmetric]
    using mark[of s] keeps_trans[OF s1 mark] keeps_trans[OF s1 close] s1 by (simp add: keeps_def)
qed

lemma after_write_fin:
  "f \<Longrightarrow> fin \<Longrightarrow> n = l \<Longrightarrow> write_side_closed (after_write env z fin l n f s)"
  by (simp add: after_write_def Let_def keeps_closes(6))

text \<open>
  As long as the read side is open and the connection takes the bytes without an error, writing changes
  nothing the application sees, but may close the write side.
\<close>

definition quiet :: "quic_stream \<Rightarrow> quic_stream \<Rightarrow> bool" where
  "quiet s s' \<longleftrightarrow> view (s'\<lparr>write_side_closed := False\<rparr>) = view (s\<lparr>write_side_closed := False\<rparr>)
     \<and> mInitialMS s' = mInitialMS s"

definition no_errors :: "stream_env \<Rightarrow> bool" where
  "no_errors env \<longleftrightarrow> (\<forall>off d fin. snd (snd (send_data env off d fin)) = None)"

lemma quiet_trans: "quiet s t \<Longrightarrow> quiet t u \<Longrightarrow> quiet s u"
  by (simp add: quiet_def)

lemma quiet_view: "view s' = view s \<Longrightarrow> mInitialMS s' = mInitialMS s \<Longrightarrow> quiet s s'"
  using view_close_sides(2)[of s' s False] by (simp add: quiet_def)

lemma quiet_D:
  assumes "quiet s s'"
  shows "app s' = app s" and "registered s' = registered s" and "mFailed s' = mFailed s"
    and "mDelegate s' = mDelegate s" and "in_session s' = in_session s" and "connected s' = connected s"
    and "read_side_closed s' = read_side_closed s" and "mInitialMS s' = mInitialMS s"
  using assms view_cong[of "s'\<lparr>write_side_closed := False\<rparr>" "s\<lparr>write_side_closed := False\<rparr>"]
  by (simp_all add: quiet_def app_def)

lemma quiet_CloseWriteSide:
  "\<not> read_side_closed s \<Longrightarrow> \<not> ignore_read_data s \<Longrightarrow> quiet s (CloseWriteSide env s)"
  by (simp add: CloseWriteSide_def spdy_CloseWriteSide_def rel_CloseWriteSide_def quiet_def Let_def)

lemma quiet_flow:
  "quiet s (emit_flow fx s)" "quiet s (MarkConnectionLevelWriteBlocked s)" "quiet s (s\<lparr>stream_flow := f\<rparr>)"
  "quiet s (s\<lparr>session_flow := f\<rparr>)" "quiet s (emit (Wrote off d fin) s)"
  by (auto intro!: quiet_view simp: MarkConnectionLevelWriteBlocked_def) (simp_all add: emit_flow_def emit_def)

lemma quiet_MaybeSendBlocked: "quiet s (MaybeSendBlocked env s)"
proof -
  have none: "CloseSentTooMuch \<notin> set (snd (fc_MaybeSendBlocked fc))" for fc by (simp add: fc_MaybeSendBlocked_def)
  have step: "quiet s (emit_flow fx (s\<lparr>stream_flow := f\<rparr>))" "quiet s (emit_flow fx (s\<lparr>session_flow := f\<rparr>))" for fx f s
    using quiet_flow quiet_trans by blast+
  show ?thesis
    unfolding MaybeSendBlocked_def Let_def case_prod_unfold flow_out_def
    using none step quiet_flow(2) quiet_trans by (simp add: ) (meson quiet_trans)
qed

lemma quiet_after_write:
  assumes "\<not> read_side_closed s" and "\<not> ignore_read_data s"
  shows "quiet s (after_write env z fin l n f s)"
proof -
  define s1 where "s1 = (if \<not> z then MaybeSendBlocked env s else s)"
  have s1: "quiet s s1" "\<not> read_side_closed s1" "\<not> ignore_read_data s1"
    using quiet_MaybeSendBlocked[of s env] keeps_MaybeSendBlocked[of s env] sending_cong[of s1 s] assms
      quiet_D(7)[OF quiet_MaybeSendBlocked, of env s] by (simp_all add: s1_def quiet_def keeps_def)
  define s2 where "s2 = (if fin_received (s1\<lparr>fin_sent := True\<rparr>)
      then s1\<lparr>fin_sent := True, draining := True\<rparr> else s1\<lparr>fin_sent := True\<rparr>)"
  have "quiet s1 s2" "\<not> read_side_closed s2" "\<not> ignore_read_data s2"
    using s1(2,3) quiet_view[of s2 s1] by (simp_all add: s2_def)
  then have close: "quiet s (CloseWriteSide env s2)"
    using quiet_CloseWriteSide quiet_trans s1(1) by blast
  have "quiet s s" by (simp add: quiet_def)
  then show ?thesis
    unfolding after_write_def Let_def s1_def[symmetric]
    using quiet_flow(2)[of s] quiet_trans[OF s1(1) quiet_flow(2)] close s1(1) by (simp add: s2_def)
qed

lemma WritevData_sends:
  assumes s: "sent_ok body sf s" "\<not> write_side_closed s" and data: "data = drop (stream_bytes_written s) body"
    and env: "takes_prefix env" and lim: "fc_bytes_sent sf + length body < 2 ^ 64"
    and run: "WritevData env data True s = ((k, f), s')"
  shows "sent_ok body sf s'" and "k \<le> length data" and "f = (k = length data)" and "f \<longrightarrow> write_side_closed s'"
    and "stream_bytes_written s' = stream_bytes_written s + k"
    and "queued_data s' = queued_data s" and "queued_data_bytes s' = queued_data_bytes s" and "fin_buffered s' = fin_buffered s"
    and "no_errors env \<Longrightarrow> \<not> read_side_closed s \<Longrightarrow> quiet s s'"
proof -
  let ?n = "stream_bytes_written s"
  define window where "window = min (SendWindowSize (stream_flow s)) (SendWindowSize (session_flow s))"
  have n: "?n < length body" "data \<noteq> []" using s data by (auto simp: sent_ok_def)
  have all: "sent_ok body sf s' \<and> k \<le> length data \<and> f = (k = length data) \<and> (f \<longrightarrow> write_side_closed s')
    \<and> stream_bytes_written s' = ?n + k \<and> queued_data s' = queued_data s \<and> queued_data_bytes s' = queued_data_bytes s
    \<and> fin_buffered s' = fin_buffered s \<and> (no_errors env \<longrightarrow> \<not> read_side_closed s \<longrightarrow> quiet s s')"
  proof (cases "window = 0")
    case True
    then have "s' = MaybeSendBlocked env s" "k = 0" "\<not> f"
      using run n(2) s(2) unfolding WritevData_def window_def[symmetric] Let_def by simp_all
    moreover have "sending (MaybeSendBlocked env s) = sending s"
      using keeps_MaybeSendBlocked[of s env] by (simp add: keeps_def)
    ultimately show ?thesis
      using keeps_sent_ok[OF keeps_MaybeSendBlocked s(1)] n(2) sending_cong[of s' s] quiet_MaybeSendBlocked[of s env] by simp
  next
    case False
    define len where "len = (if window < length data then window else length data)"
    define fin1 where "fin1 = (True \<and> \<not> window < length data)"
    obtain k0 f0 err where took: "send_data env ?n (take len data) fin1 = (k0, f0, err)" by (metis prod.exhaust)
    have kf: "k0 \<le> len" "f0 = (k0 = length data)"
    proof -
      have "take len data \<noteq> []" "length (take len data) = len" using False n(2) by (auto simp: len_def)
      then have "k0 \<le> len" "f0 = (fin1 \<and> k0 = len)" using env took unfolding takes_prefix_def by fastforce+
      then show "k0 \<le> len" "f0 = (k0 = length data)" by (auto simp: len_def fin1_def split: if_splits)
    qed
    define t where "t = emit (Wrote ?n (take k0 (take len data)) f0) s"
    define t1 where "t1 = (case err of None \<Rightarrow> t | Some e \<Rightarrow> CloseConnection env e t)"
    define t2 where "t2 = t1\<lparr>stream_bytes_written := u64 (stream_bytes_written t1 + k0)\<rparr>"
    define t3 where "t3 = AddBytesSent env k0 t2"
    have "session_WritevData env (take len data) fin1 s = ((k0, f0), t1)"
      by (simp add: session_WritevData_def took t1_def t_def split: option.splits)
    then have "WritevData env data True s = ((k0, f0), after_write env False fin1 len k0 f0 t3)"
      using n(2) s(2) False
      unfolding WritevData_def Let_def window_def[symmetric] len_def[symmetric] fin1_def[symmetric] t3_def t2_def by simp
    with run have out: "s' = after_write env False fin1 len k0 f0 t3" "k = k0" "f = f0" by auto
    have k: "k0 \<le> length data" "k0 \<le> window" "?n + k0 \<le> length body"
      using kf(1) n(1) data by (auto simp: len_def split: if_splits)
    have wrote: "writes (out t) = writes (out s) @ [(?n, take k0 data, f0)]"
      using kf(1) by (simp add: t_def emit_def min_absorb1)
    have t: "stream_bytes_written t = ?n" "queued_data t = queued_data s" "queued_data_bytes t = queued_data_bytes s"
      "fin_buffered t = fin_buffered s" "stream_flow t = stream_flow s" "session_flow t = session_flow s"
      "SentConnectionClose QUIC_FLOW_CONTROL_SENT_TOO_MUCH_DATA \<notin> set (out t)" "ignore_read_data t = ignore_read_data s"
      using s(1) by (simp_all add: t_def emit_def sent_ok_def)
    have "sending t1 = sending t"
      using keeps_closes(5)[of t env] by (simp add: t1_def keeps_def split: option.splits)
    note t1 = sending_cong[OF this, unfolded t wrote]
    have t2: "stream_bytes_written t2 = ?n + k0" using k(3) lim t1(6) by (simp add: t2_def u64_def)
    have win: "?n + k0 \<le> send_window_offset (stream_flow s)"
      "fc_bytes_sent sf + ?n + k0 \<le> send_window_offset (session_flow s)"
      using in_window[OF s(1), of k0] k(2) by (simp_all add: window_def)
    have p: "sent_part (stream_flow t2) = (?n, send_window_offset (stream_flow s))"
      "sent_part (session_flow t2) = (fc_bytes_sent sf + ?n, send_window_offset (session_flow s))"
      using t1(7,8) s(1) by (simp_all add: t2_def sent_ok_def)
    from AddBytesSent_counts[OF p(1) win(1) _ p(2) win(2), of env] k(3) lim
    obtain f1 f2 where t3: "t3 = t2\<lparr>stream_flow := f1, session_flow := f2\<rparr>"
      "sent_part f1 = (?n + k0, send_window_offset (stream_flow s))"
      "sent_part f2 = (fc_bytes_sent sf + ?n + k0, send_window_offset (session_flow s))"
      unfolding t3_def by (auto simp: add.assoc)
    have "sending s' = sending t3" using keeps_after_write by (simp add: out(1) keeps_def)
    note fin = sending_cong[OF this]
    have fw: "f0 \<longrightarrow> write_side_closed s'"
      unfolding out(1) by (rule impI, rule after_write_fin) (use kf in \<open>auto simp: fin1_def len_def split: if_splits\<close>)
    have w': "writes (out s') = writes (out s) @ [(?n, take k0 data, f0)]" using fin(1) t1(1) by (simp add: t3(1) t2_def)
    have "in_sequence 0 body (writes (out s'))"
      unfolding w' using s(1) n(1) k(1) kf(2) data by (intro in_sequence_append) (auto simp: sent_ok_def min_absorb1)
    then have "sent_ok body sf s'"
      using w' s(1) k(1,3) kf(2) data fw win fin t(7) t1 t2 t3 unfolding sent_ok_def
      by (simp add: sent_part_def t2_def min_absorb1 add.assoc)
    moreover have "quiet s s'" if "no_errors env" "\<not> read_side_closed s"
    proof -
      have "err = None" using that(1) took unfolding no_errors_def by (metis snd_conv)
      then have t3': "t3 = t\<lparr>stream_bytes_written := u64 (?n + k0), stream_flow := f1, session_flow := f2\<rparr>"
        by (simp add: t3(1) t2_def t1_def t(1))
      have "quiet s t3" unfolding t3' by (rule quiet_view) (simp_all add: t_def, simp add: emit_def)
      moreover have "quiet t3 s'" unfolding out(1)
        by (rule quiet_after_write) (use that(2) s(1) in \<open>simp_all add: t3' t_def emit_def sent_ok_def\<close>)
      ultimately show ?thesis by (rule quiet_trans)
    qed
    ultimately show ?thesis using out(2,3) k(1) kf(2) fw fin t1 t2 t3 by (simp add: t2_def)
  qed
  then show "sent_ok body sf s'" and "k \<le> length data" and "f = (k = length data)" and "f \<longrightarrow> write_side_closed s'"
    and "stream_bytes_written s' = stream_bytes_written s + k"
    and "queued_data s' = queued_data s" and "queued_data_bytes s' = queued_data_bytes s" and "fin_buffered s' = fin_buffered s"
    and "no_errors env \<Longrightarrow> \<not> read_side_closed s \<Longrightarrow> quiet s s'"
    by simp_all
qed


subsection \<open>Every step\<close>

lemma closed_OnCanWrite:
  "sent_ok body sf s \<Longrightarrow> write_side_closed s \<Longrightarrow>
     sent_ok body sf (OnCanWrite env s) \<and> write_side_closed (OnCanWrite env s) \<and> quiet s (OnCanWrite env s)"
proof (induction "length (queued_data s)" arbitrary: s rule: less_induct)
  case less
  have same: "sent_ok body sf (t\<lparr>queued_data_bytes := b\<rparr>) = sent_ok body sf t"
    "sent_ok body sf (t\<lparr>queued_data := q\<rparr>) = sent_ok body sf t"
    "quiet s s" "quiet s (t\<lparr>queued_data := q\<rparr>) = quiet s t" "quiet (s\<lparr>queued_data := q\<rparr>) t = quiet s t" for s t b q
    by (simp_all add: sent_ok_def quiet_def view_def app_def)
  show ?case
  proof (cases "queued_data s")
    case Nil
    with less.prems show ?thesis by (simp add: OnCanWrite_stops same)
  next
    case (Cons p rest)
    obtain d off where p: "queued_data s = (d, off) # rest" using Cons by (cases p) simp
    show ?thesis
    proof (cases "0 < off \<and> length d \<le> off")
      case True
      with less.prems show ?thesis by (simp add: OnCanWrite_stops(2)[OF p] same)
    next
      case False
      have "WritevData env (drop off d) fin s = ((0, False), s)" for fin
        using less.prems(2) by (simp add: WritevData_def)
      from OnCanWrite_step[OF p False this refl] less.hyps[of "s\<lparr>queued_data_bytes := u64_sub (queued_data_bytes s) 0, queued_data := rest\<rparr>"]
      show ?thesis using less.prems p same by (simp add: Let_def)
    qed
  qed
qed

lemma writing_OnCanWrite:
  assumes w: "writing body sf s" and env: "takes_prefix env" and lim: "fc_bytes_sent sf + length body < 2 ^ 64"
  shows "writing body sf (OnCanWrite env s)"
    and "no_errors env \<Longrightarrow> \<not> read_side_closed s \<Longrightarrow> quiet s (OnCanWrite env s)"
proof (atomize (full), cases "write_side_closed s")
  case True
  with w closed_OnCanWrite[of body sf s env]
  show "writing body sf (OnCanWrite env s) \<and> (no_errors env \<longrightarrow> \<not> read_side_closed s \<longrightarrow> quiet s (OnCanWrite env s))"
    by (simp add: writing_def waiting_ok_def)
next
  case False
  let ?n = "stream_bytes_written s"
  from w False obtain d off where q: "queued_data s = [(d, off)]" "drop off d = drop ?n body" "fin_buffered s"
    "queued_data_bytes s = length body - ?n" by (auto simp: writing_def waiting_ok_def)
  have s: "sent_ok body sf s" and n: "?n < length body" using w False by (auto simp: writing_def sent_ok_def)
  have open_: "\<not> (0 < off \<and> length d \<le> off)" using q(2) n by auto
  obtain k f s1 where run: "WritevData env (drop off d) True s = ((k, f), s1)" by (metis prod.exhaust)
  note sent = WritevData_sends[OF s False q(2) env lim run]
  define s2 where "s2 = s1\<lparr>queued_data_bytes := u64_sub (queued_data_bytes s1) k\<rparr>"
  have b: "queued_data_bytes s2 = length body - (?n + k)"
    using sent(2,7) q(2,4) n lim by (simp add: s2_def u64_sub_def)
  have sent2: "sent_ok body sf (s2\<lparr>queued_data := x\<rparr>)" for x
    using sent(1) by (simp add: sent_ok_def s2_def)
  have heard: "quiet s (s2\<lparr>queued_data := x\<rparr>)" if "no_errors env" "\<not> read_side_closed s" for x
    using sent(9)[OF that] by (simp add: s2_def quiet_def view_def app_def)
  let ?thesis = "writing body sf (OnCanWrite env s) \<and> (no_errors env \<longrightarrow> \<not> read_side_closed s \<longrightarrow> quiet s (OnCanWrite env s))"
  have ?thesis if "f"
  proof -
    have "OnCanWrite env s = OnCanWrite env (s2\<lparr>queued_data := []\<rparr>)"
      using OnCanWrite_step[OF q(1) open_ run] q(3) that sent(3) by (simp add: s2_def Let_def)
    then show ?thesis
      using sent2 sent(4) that heard by (simp add: OnCanWrite_stops writing_def waiting_ok_def s2_def)
  qed
  moreover have ?thesis if "\<not> f"
  proof -
    have "OnCanWrite env s = s2\<lparr>queued_data := [(d, off + k)]\<rparr>"
      using OnCanWrite_step[OF q(1) open_ run] q(3) that sent(3) by (simp add: s2_def Let_def)
    moreover have "drop (off + k) d = drop (?n + k) body" by (metis drop_drop add.commute q(2))
    ultimately show ?thesis
      using sent2 sent(5,8) q(3) b heard by (simp add: writing_def waiting_ok_def s2_def)
  qed
  ultimately show ?thesis by blast
qed

lemma writing_more_window:
  assumes "writing body sf s"
  shows "writing body sf (s\<lparr>stream_flow := snd (UpdateSendWindowOffset n (stream_flow s))\<rparr>)"
    and "writing body sf (s\<lparr>session_flow := snd (UpdateSendWindowOffset n (session_flow s))\<rparr>)"
  using assms by (auto simp: writing_def waiting_ok_def sent_ok_def sent_part_def UpdateSendWindowOffset_def)

lemma keeps_round: "read_round env s = Some (again, s') \<Longrightarrow> keeps s s'"
proof -
  have fin: "keeps s (OnFinRead env s)" for s
    using keeps_closes(2)[of "s\<lparr>fin_received := True\<rparr>" env] by (simp add: OnFinRead_def keeps_def)
  have after: "keeps s (snd (after_reading env s))"
    using fin[of s] by (simp add: after_reading_def Let_def keeps_def)
  have add: "keeps s (add_incoming_data d s)" for d by (simp add: keeps_def)
  have mark: "seq_MarkConsumed env n t = Some t' \<Longrightarrow> keeps t t'" for n t t'
    using keeps_closes(4)[of "t\<lparr>buffered_frames := b\<rparr>" env QUIC_ERROR_PROCESSING_STREAM for b]
    by (auto simp: seq_MarkConsumed_def Let_def keeps_def split: if_splits)
  show "read_round env s = Some (again, s') \<Longrightarrow> keeps s s'"
    using after keeps_trans[OF add keeps_closes(4)] keeps_trans[OF add mark]
    by (auto simp: read_round_def Let_def split: option.splits list.splits if_splits)
qed

subsection \<open>Every run\<close>

text \<open>The request as it was handed to the session.\<close>

definition asked :: "string \<Rightarrow> flow_controller \<Rightarrow> bool" where
  "asked body sf \<longleftrightarrow> fc_bytes_sent sf \<le> send_window_offset sf \<and> fc_bytes_sent sf + length body < 2 ^ 64"

definition on_wire :: "string \<Rightarrow> flow_controller \<Rightarrow> quic_stream \<Rightarrow> bool" where
  "on_wire body sf s \<longleftrightarrow> asked body sf \<and> writing body sf s"

lemma keeps_on_wire: "keeps s s' \<Longrightarrow> on_wire body sf s \<Longrightarrow> on_wire body sf s'"
  using keeps_writing by (simp add: on_wire_def)

lemma on_wire_OnCanWrite: "on_wire body sf s \<Longrightarrow> takes_prefix env \<Longrightarrow> on_wire body sf (OnCanWrite env s)"
  using writing_OnCanWrite(1)[of body sf s env] by (simp add: on_wire_def asked_def)

interpretation ow: header_invariant "on_wire body sf" "\<lambda>_. True" takes_prefix True for body sf
proof unfold_locales
  fix s s' :: quic_stream and env :: stream_env and n c h code e frame t
  show "on_wire body sf s = on_wire body sf s'"
    if "view s = view s'" "reading s = reading s'" "sending s = sending s'"
    using keeps_on_wire[OF keeps_same, of s' s] keeps_on_wire[OF keeps_same, of s s'] that by metis
  assume w: "on_wire body sf s"
  note same = keeps_on_wire[OF _ w]
  show "on_wire body sf (CloseReadSide env s)" "on_wire body sf (CloseWriteSide env s)"
    "on_wire body sf (Reset env code s)" "on_wire body sf (CloseConnection env e s)"
    using keeps_closes same by blast+
  show "on_wire body sf (s\<lparr>response_code := c\<rparr>)" "on_wire body sf (s\<lparr>response_headers := h\<rparr>)"
    "on_wire body sf (s\<lparr>headers_decompressed := True\<rparr>)"
    "on_wire body sf (s\<lparr>buffered_frames := Clear (buffered_frames s)\<rparr>)"
    "on_wire body sf (s\<lparr>buffered_frames := snd (FlushBufferedFrames (buffered_frames s))\<rparr>)"
    by (rule same, simp add: keeps_def)+
  show "gives True (\<lambda>(again, s'). on_wire body sf s') (read_round env s)"
    using keeps_round[of env s] same by (cases "read_round env s") auto
  show "gives True (\<lambda>(e, n, b). on_wire body sf (s\<lparr>buffered_frames := b\<rparr>))
      (OnStreamData (fr_offset frame) (fr_data frame) t (buffered_frames s))"
    using same[of "s\<lparr>buffered_frames := b\<rparr>" for b] by (intro gives_any) (auto simp: keeps_def)
  show more: "on_wire body sf (s\<lparr>session_flow := snd (UpdateSendWindowOffset n (session_flow s))\<rparr>)"
    using w writing_more_window(2) by (simp add: on_wire_def)
  show "takes_prefix env \<Longrightarrow> on_wire body sf (OnCanWrite env s)"
    by (rule on_wire_OnCanWrite[OF w])
  have "on_wire body sf (s\<lparr>stream_flow := snd (UpdateSendWindowOffset n (stream_flow s))\<rparr>)"
    using w writing_more_window(1) by (simp add: on_wire_def)
  then show "takes_prefix env \<Longrightarrow> on_wire body sf (OnWindowUpdateFrame env n s)"
    using on_wire_OnCanWrite by (simp add: OnWindowUpdateFrame_def Let_def case_prod_unfold)
qed simp_all

lemma keeps_answer: "keeps s (answer s)"
  by (simp add: answer_def keeps_def) (simp add: onQUICStreamReceivedResponse_def emit_def)

lemma keeps_update: "keeps s (session_update now s)"
  by (simp add: session_update_def update_def Let_def keeps_def) (simp add: onQUICStreamFailed_def emit_def)

lemma on_wire_step:
  "on_wire body sf s \<Longrightarrow> takes_prefix env \<Longrightarrow> gives True (on_wire body sf) (stream_step env e s)"
proof (rule ow.P_stream_step)
  fix fin assume "on_wire body sf s"
  then show "gives True (on_wire body sf) (OnInitialHeadersComplete env fin s)"
    unfolding OnInitialHeadersComplete_def answer_def[symmetric]
    by (intro gives_map[OF ow.P_client_OnInitialHeadersComplete] ow.E_headers keeps_on_wire[OF keeps_answer])
qed (auto simp: event_ok_def keeps_on_wire[OF keeps_update] split: stream_event.splits)

lemma on_wire_run:
  "on_wire body sf s \<Longrightarrow> \<forall>(env, e) \<in> set es. takes_prefix env \<Longrightarrow> stream_run es s = Some s' \<Longrightarrow> on_wire body sf s'"
proof (induction es arbitrary: s)
  case (Cons x es)
  obtain env e where x: "x = (env, e)" by (cases x)
  show ?case
    using on_wire_step[OF Cons.prems(1), of env e] Cons.IH Cons.prems by (cases "stream_step env e s") (simp_all add: x)
qed simp

text \<open>The first bytes go out when the request is sent.\<close>

lemma request_on_wire:
  assumes "p_sendRequest True (Some (QUICDataStream_new sid window sf)) env hs body = Some s"
    and a: "asked body sf" and env: "takes_prefix env"
  shows "on_wire body sf s"
proof -
  define s1 where "s1 = emit (WroteHeaders hs (body = [])) ((QUICDataStream_new sid window sf)\<lparr>mDelegate := True, registered := True\<rparr>)"
  have new: "writes (out s1) = []" "stream_bytes_written s1 = 0" "queued_data s1 = []" "queued_data_bytes s1 = 0"
    "\<not> fin_buffered s1" "\<not> write_side_closed s1" "SentConnectionClose q \<notin> set (out s1)"
    "sent_part (stream_flow s1) = (0, send_window_offset (stream_flow s1))" "session_flow s1 = sf"
    "\<not> ignore_read_data s1" for q
    by (simp_all add: s1_def emit_def QUICDataStream_new_def QuicFlowController_new_def sent_part_def)
  have run: "s = (if body = [] then CloseWriteSide env (s1\<lparr>fin_sent := True\<rparr>) else WriteOrBufferData env body True s1)"
    using assms(1) by (auto simp: p_sendRequest_def SendRequest_def WriteHeaders_def Let_def s1_def)
  have sent: "sent_ok body sf (s1\<lparr>write_side_closed := b, fin_buffered := f, fin_sent := g\<rparr>)" if "body = [] \<longrightarrow> b" for b f g
    using a new that by (auto simp: sent_ok_def asked_def sent_part_def)
  show ?thesis
  proof (cases "body = []")
    case True
    have "sending (CloseWriteSide env (s1\<lparr>fin_sent := True\<rparr>)) = sending s1"
      using keeps_closes(3)[of "s1\<lparr>fin_sent := True\<rparr>" env] by (simp add: keeps_def)
    then have "keeps (s1\<lparr>write_side_closed := True, fin_buffered := False, fin_sent := True\<rparr>) s"
      using run True new(5) keeps_closes(6) by (simp add: keeps_def sending_def)
    from keeps_sent_ok[OF this sent] show ?thesis
      using a run True keeps_closes(6) by (simp add: on_wire_def writing_def waiting_ok_def)
  next
    case False
    let ?t = "s1\<lparr>fin_buffered := True\<rparr>"
    have t: "sent_ok body sf ?t" "\<not> write_side_closed ?t" "body = drop (stream_bytes_written ?t) body"
      using False new a by (auto simp: sent_ok_def asked_def sent_part_def)
    obtain k f s2 where w: "WritevData env body True ?t = ((k, f), s2)" by (metis prod.exhaust)
    have lim: "fc_bytes_sent sf + length body < 2 ^ 64" using a by (simp add: asked_def)
    note wrote = WritevData_sends[OF t env lim w]
    show ?thesis
    proof (cases f)
      case True
      then have "s = s2"
        using run False new w wrote(3) by (simp add: WriteOrBufferData_def Let_def)
      with a wrote(1,4) True show ?thesis by (simp add: on_wire_def writing_def waiting_ok_def)
    next
      case f: False
      have "s = s2\<lparr>queued_data_bytes := u64 (queued_data_bytes s2 + length (drop k body)),
          queued_data := queued_data s2 @ [(drop k body, 0)]\<rparr>"
        using run False new w wrote(2,3) f by (simp add: WriteOrBufferData_def Let_def)
      moreover have "sent_ok body sf (s2\<lparr>queued_data_bytes := x, queued_data := y\<rparr>)" for x y
        using wrote(1) by (simp add: sent_ok_def)
      ultimately show ?thesis
        using a wrote(5-8) new lim by (simp add: on_wire_def writing_def waiting_ok_def u64_def)
    qed
  qed
qed

text \<open>
  Property C6. The body of a request on the wire, in every run: the writes of the stream are pieces of the
  body, one behind the other from its first byte, and the end of the stream goes with its last byte and
  nothing after it. Neither the stream's window nor the connection's is ever overrun, and what was not sent
  is what waits in the queue as long as the write side is open.
\<close>

theorem request_body_sent_in_order:
  assumes "p_sendRequest True (Some (QUICDataStream_new sid window sf)) env hs body = Some s0"
    and "stream_run es s0 = Some s"
    and "takes_prefix env" and "\<forall>(env, e) \<in> set es. takes_prefix env"
    and "fc_bytes_sent sf \<le> send_window_offset sf" and "fc_bytes_sent sf + length body < 2 ^ 64"
  shows "in_sequence 0 body (writes (out s))
    \<and> total (writes (out s)) \<le> send_window_offset (stream_flow s)
    \<and> fc_bytes_sent sf + total (writes (out s)) \<le> send_window_offset (session_flow s)
    \<and> SentConnectionClose QUIC_FLOW_CONTROL_SENT_TOO_MUCH_DATA \<notin> set (out s)
    \<and> (\<not> write_side_closed s \<longrightarrow> (\<exists>d off. queued_data s = [(d, off)] \<and> drop off d = drop (total (writes (out s))) body)
         \<and> queued_data_bytes s = length body - total (writes (out s)) \<and> total (writes (out s)) < length body)"
proof -
  have "on_wire body sf s0"
    by (rule request_on_wire[OF assms(1)]) (use assms(3,5,6) in \<open>simp_all add: asked_def\<close>)
  from on_wire_run[OF this assms(4,2)] have "sent_ok body sf s" "waiting_ok body s"
    by (simp_all add: on_wire_def writing_def)
  then show ?thesis by (auto simp: sent_ok_def waiting_ok_def)
qed

theorem request_body_sent_in_order_witness:
  "\<exists>s0 s. p_sendRequest True (Some (QUICDataStream_new 5 3 plain_session)) plain_env [('':method'', ''POST'')] ''hello'' = Some s0
     \<and> stream_run [(plain_env, PeerWindow 5 4), (plain_env, Tick 1)] s0 = Some s
     \<and> in_sequence 0 ''hello'' (writes (out s)) \<and> total (writes (out s)) \<le> send_window_offset (stream_flow s)"
proof -
  obtain s0 where s0: "p_sendRequest True (Some (QUICDataStream_new 5 3 plain_session)) plain_env [('':method'', ''POST'')] ''hello''
      = Some s0"
    by (simp add: p_sendRequest_def)
  obtain s where s: "stream_run [(plain_env, PeerWindow 5 4), (plain_env, Tick 1)] s0 = Some s" by simp
  have env: "takes_prefix plain_env" by (simp add: takes_prefix_def plain_env_def)
  have "\<forall>(env, e) \<in> set [(plain_env, PeerWindow 5 4), (plain_env, Tick 1)]. takes_prefix env" using env by simp
  from request_body_sent_in_order[OF s0 s env this] s0 s show ?thesis
    by (simp add: plain_session_def QuicFlowController_new_def)
qed

subsection \<open>Completion\<close>

lemma WritevData_all:
  assumes "\<not> write_side_closed s" and "data \<noteq> []" and "\<And>off d fin. send_data env off d fin = (length d, fin, None)"
    and "length data \<le> min (SendWindowSize (stream_flow s)) (SendWindowSize (session_flow s))"
    and "WritevData env data True s = ((k, f), s')"
  shows "k = length data"
proof -
  define m where "m = min (SendWindowSize (stream_flow s)) (SendWindowSize (session_flow s))"
  have "session_WritevData env data True s
      = ((length data, True), emit (Wrote (stream_bytes_written s) data True) s)"
    by (simp add: session_WritevData_def assms(3) Let_def)
  moreover have "m \<noteq> 0" "\<not> m < length data"
    using assms(4) length_greater_0_conv[of data] assms(2) unfolding m_def[symmetric] by linarith+
  ultimately show ?thesis
    using assms(1,2,5) unfolding WritevData_def m_def[symmetric] by (simp add: Let_def)
qed

lemma OnCanWrite_all:
  assumes w: "writing body sf s" and env: "\<And>off d fin. send_data env off d fin = (length d, fin, None)"
    and lim: "fc_bytes_sent sf + length body < 2 ^ 64" and open_: "\<not> write_side_closed s"
    and win: "length body \<le> send_window_offset (stream_flow s)"
      "fc_bytes_sent sf + length body \<le> send_window_offset (session_flow s)"
  shows "stream_bytes_written (OnCanWrite env s) = length body" and "write_side_closed (OnCanWrite env s)"
    and "queued_data (OnCanWrite env s) = []" and "queued_data_bytes (OnCanWrite env s) = 0"
proof -
  let ?n = "stream_bytes_written s"
  from w open_ obtain d off where q: "queued_data s = [(d, off)]" "drop off d = drop ?n body" "fin_buffered s"
    "queued_data_bytes s = length body - ?n" by (auto simp: writing_def waiting_ok_def)
  have s: "sent_ok body sf s" and n: "?n < length body" using w open_ by (auto simp: writing_def sent_ok_def)
  have ne: "\<not> (0 < off \<and> length d \<le> off)" "drop off d \<noteq> []" using q(2) n by auto
  have tp: "takes_prefix env" by (simp add: takes_prefix_def env)
  obtain k f s1 where run: "WritevData env (drop off d) True s = ((k, f), s1)" by (metis prod.exhaust)
  have "length (drop off d) \<le> min (SendWindowSize (stream_flow s)) (SendWindowSize (session_flow s))"
    using s n win unfolding q(2) by (auto simp: SendWindowSize_def sent_ok_def sent_part_def)
  from WritevData_all[OF open_ ne(2) env this run] have k: "k = length (drop off d)" .
  note sent = WritevData_sends[OF s open_ q(2) tp lim run]
  have "f" using sent(3) k by simp
  then have "OnCanWrite env s = s1\<lparr>queued_data_bytes := u64_sub (queued_data_bytes s1) k, queued_data := []\<rparr>"
    using OnCanWrite_step[OF q(1) ne(1) run] q(3) k by (simp add: Let_def OnCanWrite_stops)
  moreover have "?n + k = length body" "queued_data_bytes s1 = k" using k q(2,4) n sent(7) by simp_all
  moreover have "k < 2 ^ 64" using calculation lim by simp
  ultimately show "stream_bytes_written (OnCanWrite env s) = length body" and "write_side_closed (OnCanWrite env s)"
    and "queued_data (OnCanWrite env s) = []" and "queued_data_bytes (OnCanWrite env s) = 0"
    using sent(4,5) \<open>f\<close> by (simp_all add: u64_sub_def)
qed

text \<open>
  Property C9. A body that waits is completed: once the peer has opened the windows for all of it and the
  connection takes what it is offered, the next turn to write puts the whole rest on the wire, with the
  end of the stream, and nothing is left in the queue.
\<close>

theorem accepted_body_is_completed:
  assumes "p_sendRequest True (Some (QUICDataStream_new sid window sf)) env hs body = Some s0"
    and "stream_run es s0 = Some s"
    and "takes_prefix env" and "\<forall>(env, e) \<in> set es. takes_prefix env"
    and "fc_bytes_sent sf \<le> send_window_offset sf" and "fc_bytes_sent sf + length body < 2 ^ 64"
    and "\<not> write_side_closed s" and "\<And>off d fin. send_data env' off d fin = (length d, fin, None)"
    and "length body \<le> send_window_offset (stream_flow s)"
    and "fc_bytes_sent sf + length body \<le> send_window_offset (session_flow s)"
  shows "\<exists>s'. stream_step env' CanWrite s = Some s' \<and> in_sequence 0 body (writes (out s'))
    \<and> total (writes (out s')) = length body \<and> queued_data s' = [] \<and> queued_data_bytes s' = 0 \<and> write_side_closed s'"
proof -
  have a: "asked body sf" using assms(5,6) by (simp add: asked_def)
  have w: "writing body sf s"
    using on_wire_run[OF request_on_wire[OF assms(1) a assms(3)] assms(4,2)] by (simp add: on_wire_def)
  have tp: "takes_prefix env'" by (simp add: takes_prefix_def assms(8))
  have "steady s" using request_story(1)[OF assms(1,2)] .
  then have i: "in_session s" using assms(7) by (auto simp: steady_def known_def live_def closable_def gone_def)
  have "sent_part (stream_flow s) = (stream_bytes_written s, send_window_offset (stream_flow s))"
    "stream_bytes_written s < length body"
    using w assms(7) by (auto simp: writing_def sent_ok_def)
  then have "\<not> IsBlocked (stream_flow s)"
    using assms(9) by (auto simp: IsBlocked_def SendWindowSize_def sent_part_def)
  with i have step: "stream_step env' CanWrite s = Some (OnCanWrite env' s)" by (simp add: session_OnCanWrite_def)
  have "sent_ok body sf (OnCanWrite env' s)"
    using writing_OnCanWrite(1)[OF w tp assms(6)] by (simp add: writing_def)
  then show ?thesis
    using step OnCanWrite_all[OF w assms(8,6,7,9,10)] by (simp add: sent_ok_def)
qed

text \<open>A connection that takes nothing for the moment leaves the whole body waiting.\<close>

definition busy_env :: stream_env where
  "busy_env = plain_env\<lparr>send_data := (\<lambda>off d fin. (0, False, None))\<rparr>"

lemma busy_takes_prefix: "takes_prefix busy_env"
  by (simp add: takes_prefix_def busy_env_def)

lemma busy_request:
  assumes "p_sendRequest True (Some (QUICDataStream_new 5 16384 plain_session)) busy_env hs ''hello'' = Some s"
  shows "\<not> write_side_closed s" and "send_window_offset (stream_flow s) = 16384"
    and "send_window_offset (session_flow s) = 16384" and "registered s" and "\<not> read_side_closed s" and "mInitialMS s = 0"
    and "app s = []"
proof -
  define t where "t = emit (WroteHeaders hs False) ((QUICDataStream_new 5 16384 plain_session)\<lparr>mDelegate := True, registered := True\<rparr>)"
  define s1 where "s1 = t\<lparr>fin_buffered := True\<rparr>"
  have t: "\<not> fin_buffered t" "\<not> write_side_closed t" "queued_data s1 = []"
    by (simp_all add: t_def s1_def emit_def QUICDataStream_new_def)
  have w: "WritevData busy_env ''hello'' True s1 = ((0, False),
      MarkConnectionLevelWriteBlocked (AddBytesSent busy_env 0 ((emit (Wrote 0 [] False) s1)\<lparr>stream_bytes_written := 0\<rparr>)))"
    by (simp add: WritevData_def session_WritevData_def after_write_def s1_def t_def busy_env_def emit_def QUICDataStream_new_def
        QuicFlowController_new_def plain_session_def SendWindowSize_def AddBytesSent_def fc_AddBytesSent_def flow_out_def
        emit_flow_def Let_def u64_def)
  have "s = WriteOrBufferData busy_env ''hello'' True t"
    using assms by (simp add: p_sendRequest_def SendRequest_def WriteHeaders_def Let_def t_def)
  also have "\<dots> = (let s2 = snd (WritevData busy_env ''hello'' True s1)
      in s2\<lparr>queued_data_bytes := u64 (queued_data_bytes s2 + length ''hello''), queued_data := queued_data s2 @ [(''hello'', 0)]\<rparr>)"
    using t w by (simp add: WriteOrBufferData_def Let_def flip: s1_def)
  finally have s: "s = \<dots>" .
  show "\<not> write_side_closed s" and "send_window_offset (stream_flow s) = 16384"
    and "send_window_offset (session_flow s) = 16384" and "registered s" and "\<not> read_side_closed s" and "mInitialMS s = 0"
    and "app s = []"
    unfolding s w
    by (simp_all add: s1_def t_def emit_def QUICDataStream_new_def QuicFlowController_new_def plain_session_def AddBytesSent_def
        fc_AddBytesSent_def flow_out_def emit_flow_def MarkConnectionLevelWriteBlocked_def Let_def u64_def app_def)
qed

theorem accepted_body_is_completed_witness:
  "\<exists>s0 s'. p_sendRequest True (Some (QUICDataStream_new 5 16384 plain_session)) busy_env [('':method'', ''POST'')] ''hello'' = Some s0
     \<and> stream_step plain_env CanWrite s0 = Some s' \<and> in_sequence 0 ''hello'' (writes (out s')) \<and> total (writes (out s')) = 5"
proof -
  obtain s0 where s0: "p_sendRequest True (Some (QUICDataStream_new 5 16384 plain_session)) busy_env [('':method'', ''POST'')] ''hello''
      = Some s0"
    by (simp add: p_sendRequest_def)
  have run: "stream_run [] s0 = Some s0" by simp
  have none: "\<forall>(env, e) \<in> set ([] :: (stream_env \<times> stream_event) list). takes_prefix env" by simp
  have all: "send_data plain_env off d fin = (length d, fin, None)" for off d fin by (simp add: plain_env_def)
  from accepted_body_is_completed[OF s0 run busy_takes_prefix none _ _ busy_request(1)[OF s0] all]
    busy_request(2,3)[OF s0] s0
  show ?thesis by (auto simp: plain_session_def QuicFlowController_new_def)
qed

end
