(* ===== verification/StreamTimer.thy ===== *)
theory StreamTimer
  imports StreamWriting
begin

text \<open>
  The timer of a request (\<open>QUICDataStream::update\<close>, driven by \<open>QUICThread.mm\<close>): when a request that gets no
  answer is given up, while its body may still be on its way.
\<close>

subsection \<open>Silence\<close>

text \<open>The events without a word of the response.\<close>

fun silent :: "stream_event \<Rightarrow> bool" where
  "silent (Tick now) = True"
| "silent CanWrite = True"
| "silent (PeerWindow sid n) = True"
| "silent (PeerHeaders data) = True"
| "silent _ = False"

text \<open>The ticks of the timer, after the one that started it (0: none yet).\<close>

fun timed_out :: "nat \<Rightarrow> stream_event list \<Rightarrow> bool" where
  "timed_out m [] = False"
| "timed_out m (Tick now # es) = (if m = 0 then timed_out now es else 20000 < u64_sub now m \<or> timed_out m es)"
| "timed_out m (e # es) = timed_out m es"

lemma silent_step:
  assumes w: "on_wire body sf s" and o: "\<not> read_side_closed s" and env: "takes_prefix env" "no_errors env"
    and e: "silent e" "\<forall>now. e \<noteq> Tick now"
  shows "\<exists>s'. stream_step env e s = Some s' \<and> quiet s s'"
proof (cases e)
  case CanWrite
  have "quiet s (session_OnCanWrite env s)"
    using w o env writing_OnCanWrite(2)[of body sf s env]
    by (simp add: session_OnCanWrite_def on_wire_def asked_def) (simp add: quiet_def)
  with CanWrite show ?thesis by simp
next
  case (PeerWindow sid n)
  let ?t = "s\<lparr>stream_flow := snd (UpdateSendWindowOffset n (stream_flow s))\<rparr>"
  have "on_wire body sf ?t" using w writing_more_window(1) by (simp add: on_wire_def)
  then have "quiet ?t (OnCanWrite env ?t)"
    using o env writing_OnCanWrite(2)[of body sf ?t env] by (simp add: on_wire_def asked_def)
  then have "quiet s (OnCanWrite env ?t)" using quiet_flow(3) quiet_trans by blast
  then have "quiet s (OnWindowUpdateFrame env n s)"
    using quiet_flow(3) by (simp add: OnWindowUpdateFrame_def Let_def case_prod_unfold)
  then show ?thesis
    using PeerWindow quiet_flow(4) by (simp add: session_OnWindowUpdateFrame_def) (simp add: quiet_def)
next
  case (PeerHeaders data)
  then show ?thesis by (auto intro!: quiet_view simp: session_OnStreamHeaders_def OnStreamHeaders_def)
qed (use e in simp_all)

definition tick :: "nat \<Rightarrow> quic_stream \<Rightarrow> bool" where
  "tick now s \<longleftrightarrow> registered s \<and> mInitialMS s \<noteq> 0 \<and> 20000 < u64_sub now (mInitialMS s)"

lemma session_update_run:
  assumes "registered s \<longrightarrow> mDelegate s \<and> \<not> mFailed s"
  shows "app (session_update now s) = app s @ (if tick now s then [AppFailed] else [])"
    and "registered (session_update now s) = (registered s \<and> \<not> tick now s)"
    and "mInitialMS (session_update now s) = (if registered s \<and> mInitialMS s = 0 then now else mInitialMS s)"
    and "read_side_closed (session_update now s) = read_side_closed s"
    and "registered (session_update now s) \<longrightarrow> mDelegate (session_update now s) \<and> \<not> mFailed (session_update now s)"
  using assms
  by (auto simp: session_update_def update_def tick_def mTimeoutMS_def onQUICStreamFailed_def app_def emit_def Let_def)

lemma silent_run:
  "on_wire body sf s \<Longrightarrow> \<not> read_side_closed s \<Longrightarrow> registered s \<longrightarrow> mDelegate s \<and> \<not> mFailed s \<Longrightarrow>
   \<forall>(env, e) \<in> set es. silent e \<and> takes_prefix env \<and> no_errors env \<Longrightarrow>
   \<exists>s'. stream_run es s = Some s'
     \<and> app s' = app s @ (if registered s \<and> timed_out (mInitialMS s) (map snd es) then [AppFailed] else [])"
proof (induction es arbitrary: s)
  case (Cons x es)
  obtain env e where x: "x = (env, e)" by (cases x)
  have env: "silent e" "takes_prefix env" "no_errors env" using Cons.prems(4) by (simp_all add: x)
  show ?case
  proof (cases "\<exists>now. e = Tick now")
    case True
    then obtain now where e: "e = Tick now" by blast
    note u = session_update_run[OF Cons.prems(3), of now]
    have "on_wire body sf (session_update now s)" by (rule keeps_on_wire[OF keeps_update Cons.prems(1)])
    from Cons.IH[OF this] obtain s' where "stream_run es (session_update now s) = Some s'"
      "app s' = app (session_update now s) @ (if registered (session_update now s)
         \<and> timed_out (mInitialMS (session_update now s)) (map snd es) then [AppFailed] else [])"
      using u Cons.prems(2,4) by auto
    then show ?thesis using u by (auto simp: x e tick_def)
  next
    case False
    then obtain t where t: "stream_step env e s = Some t" "quiet s t"
      using silent_step[OF Cons.prems(1,2) env(2,3,1)] by blast
    have "on_wire body sf t" using on_wire_step[OF Cons.prems(1) env(2), of e] t(1) by simp
    moreover have "timed_out m (e # es') = timed_out m es'" for m es' using False by (cases e) simp_all
    ultimately show ?thesis
      using Cons.IH[of t] Cons.prems quiet_D[OF t(2)] t(1) by (simp add: x)
  qed
qed simp

text \<open>
  Property C7. The timer of a request measures the silence of the peer. While the application waits and not
  a byte of the response comes, it is told the failure exactly when a tick of the timer is more than 20 seconds
  after the one that started it; that its own body is still being sent, however fast, makes no difference.
\<close>

theorem timer_measures_silence:
  assumes "p_sendRequest True (Some (QUICDataStream_new sid window sf)) env hs body = Some s0"
    and "stream_run es s0 = Some s"
    and "takes_prefix env" and "\<forall>(env, e) \<in> set es. takes_prefix env"
    and "fc_bytes_sent sf \<le> send_window_offset sf" and "fc_bytes_sent sf + length body < 2 ^ 64"
    and "registered s" and "\<not> read_side_closed s"
    and "\<forall>(env, e) \<in> set es'. silent e \<and> takes_prefix env \<and> no_errors env"
  shows "\<exists>s'. stream_run es' s = Some s'
    \<and> app s' = app s @ (if timed_out (mInitialMS s) (map snd es') then [AppFailed] else [])"
proof -
  have a: "asked body sf" using assms(5,6) by (simp add: asked_def)
  have w: "on_wire body sf s" by (rule on_wire_run[OF request_on_wire[OF assms(1) a assms(3)] assms(4,2)])
  have "steady s" by (rule request_story(1)[OF assms(1,2)])
  with assms(7) have "mDelegate s" "\<not> mFailed s" by (auto simp: steady_def known_def live_def closable_def gone_def)
  with silent_run[OF w assms(8) _ assms(9)] assms(7) show ?thesis by simp
qed

theorem timer_measures_silence_witness:
  "\<exists>s0 s'. p_sendRequest True (Some (QUICDataStream_new 5 16384 plain_session)) busy_env [('':method'', ''POST'')] ''hello'' = Some s0
     \<and> stream_run [(plain_env, Tick 100), (plain_env, CanWrite), (plain_env, Tick 20100), (plain_env, Tick 20101)] s0 = Some s'
     \<and> app s' = [AppFailed]"
proof -
  obtain s0 where s0: "p_sendRequest True (Some (QUICDataStream_new 5 16384 plain_session)) busy_env [('':method'', ''POST'')] ''hello''
      = Some s0"
    by (simp add: p_sendRequest_def)
  note b = busy_request[OF s0]
  let ?es = "[(plain_env, Tick 100), (plain_env, CanWrite), (plain_env, Tick 20100), (plain_env, Tick 20101)]"
  have run: "stream_run [] s0 = Some s0" by simp
  have none: "\<forall>(env, e) \<in> set ([] :: (stream_env \<times> stream_event) list). takes_prefix env" by simp
  have env: "\<forall>(env, e) \<in> set ?es. silent e \<and> takes_prefix env \<and> no_errors env"
    by (simp add: takes_prefix_def no_errors_def plain_env_def)
  from timer_measures_silence[OF s0 run busy_takes_prefix none _ _ b(4,5) env] s0 b(6,7)
  show ?thesis by (auto simp: plain_session_def QuicFlowController_new_def u64_sub_def)
qed

text \<open>The difference of two readings wraps around: a clock that is set back ends every request.\<close>

lemma clock_set_back_times_out:
  "0 < now \<Longrightarrow> now < m \<Longrightarrow> m \<le> 2 ^ 63 \<Longrightarrow> timed_out m [Tick now]"
  by (simp add: u64_sub_def)

end
