(* ===== verification/UsageTracker.thy ===== *)
theory UsageTracker
  imports Connections JsonValue
begin

text \<open>
  The usage counters of the SDK (\<open>Debug/DebugUsageTracker.{hpp,mm}\<close>): how many requests and bytes
  went through the origin and through the edge, and which protocols the last test found available.
  A counter is a \<open>size_t\<close> and wraps around.
\<close>

record usage_tracker =
  mNumberOfConfigurationPulls :: "64 word"
  mNumberOfStatRecordsSubmitted :: "64 word"
  mMostRecentConfiguration :: data
  mNumberOfRequestsServedViaOrigin :: "64 word"
  mNumberOfRequestsServedViaRev :: "64 word"
  mNumberOfBytesServedViaOrigin :: "64 word"
  mNumberOfBytesServedViaRev :: "64 word"
  mNumberOfRequestsFailedViaOrigin :: "64 word"
  mNumberOfRequestsFailedViaRev :: "64 word"
  mNumberOfSuccessfulQUICRequests :: "64 word"
  mNumberOfFailedQUICRequests :: "64 word"
  mNumberOfSuccessfulStandartRequests :: "64 word"
  mNumberOfFailedStandartRequests :: "64 word"
  mFailedStatsUploads :: "64 word"
  mFailedConfigurationFetches :: "64 word"
  mStandartProtocolAvailable :: bool
  mQUICProtocolAvailable :: bool

definition DebugUsageTracker_new :: usage_tracker where
  "DebugUsageTracker_new =
     \<lparr>mNumberOfConfigurationPulls = 0, mNumberOfStatRecordsSubmitted = 0, mMostRecentConfiguration = [],
      mNumberOfRequestsServedViaOrigin = 0, mNumberOfRequestsServedViaRev = 0,
      mNumberOfBytesServedViaOrigin = 0, mNumberOfBytesServedViaRev = 0,
      mNumberOfRequestsFailedViaOrigin = 0, mNumberOfRequestsFailedViaRev = 0,
      mNumberOfSuccessfulQUICRequests = 0, mNumberOfFailedQUICRequests = 0,
      mNumberOfSuccessfulStandartRequests = 0, mNumberOfFailedStandartRequests = 0,
      mFailedStatsUploads = 0, mFailedConfigurationFetches = 0,
      mStandartProtocolAvailable = False, mQUICProtocolAvailable = False\<rparr>"

definition trackConfigurationPulled :: "data \<Rightarrow> usage_tracker \<Rightarrow> usage_tracker" where
  "trackConfigurationPulled aData u =
     (if 0 < length aData
      then u\<lparr>mMostRecentConfiguration := aData,
             mNumberOfConfigurationPulls := mNumberOfConfigurationPulls u + 1\<rparr>
      else u)"

definition trackStatsReported :: "usage_tracker \<Rightarrow> usage_tracker" where
  "trackStatsReported u = u\<lparr>mNumberOfStatRecordsSubmitted := mNumberOfStatRecordsSubmitted u + 1\<rparr>"

definition trackRequestFinished :: "bool \<Rightarrow> int \<Rightarrow> usage_tracker \<Rightarrow> usage_tracker" where
  "trackRequestFinished usingRevHost aDataLength u =
     (if usingRevHost
      then u\<lparr>mNumberOfBytesServedViaRev := mNumberOfBytesServedViaRev u + word_of_int aDataLength,
             mNumberOfRequestsServedViaRev := mNumberOfRequestsServedViaRev u + 1,
             mNumberOfSuccessfulStandartRequests := mNumberOfSuccessfulStandartRequests u + 1\<rparr>
      else u\<lparr>mNumberOfBytesServedViaOrigin := mNumberOfBytesServedViaOrigin u + word_of_int aDataLength,
             mNumberOfRequestsServedViaOrigin := mNumberOfRequestsServedViaOrigin u + 1\<rparr>)"

definition trackRequestFailed :: "bool \<Rightarrow> int \<Rightarrow> usage_tracker \<Rightarrow> usage_tracker" where
  "trackRequestFailed usingRevHost aDataLength u =
     (if usingRevHost
      then u\<lparr>mNumberOfBytesServedViaRev := mNumberOfBytesServedViaRev u + word_of_int aDataLength,
             mNumberOfRequestsFailedViaRev := mNumberOfRequestsFailedViaRev u + 1,
             mNumberOfFailedStandartRequests := mNumberOfFailedStandartRequests u + 1\<rparr>
      else u\<lparr>mNumberOfBytesServedViaOrigin := mNumberOfBytesServedViaOrigin u + word_of_int aDataLength,
             mNumberOfRequestsFailedViaOrigin := mNumberOfRequestsFailedViaOrigin u + 1\<rparr>)"

definition trackRequest :: "bool \<Rightarrow> int \<Rightarrow> rs_error \<Rightarrow> usage_tracker \<Rightarrow> usage_tracker" where
  "trackRequest usingRevHost aDataLength aError u =
     (if isNoError aError then trackRequestFinished usingRevHost aDataLength u
      else trackRequestFailed usingRevHost aDataLength u)"

definition QUICRequestsFinishedWithSuccess :: "usage_tracker \<Rightarrow> usage_tracker" where
  "QUICRequestsFinishedWithSuccess u = u\<lparr>mNumberOfSuccessfulQUICRequests := mNumberOfSuccessfulQUICRequests u + 1\<rparr>"

definition QUICRequestsFinishedWithError :: "usage_tracker \<Rightarrow> usage_tracker" where
  "QUICRequestsFinishedWithError u = u\<lparr>mNumberOfFailedQUICRequests := mNumberOfFailedQUICRequests u + 1\<rparr>"

definition statsUploadFinishedWithError :: "usage_tracker \<Rightarrow> usage_tracker" where
  "statsUploadFinishedWithError u = u\<lparr>mFailedStatsUploads := mFailedStatsUploads u + 1\<rparr>"

definition configurationFinishedLoadWithError :: "usage_tracker \<Rightarrow> usage_tracker" where
  "configurationFinishedLoadWithError u = u\<lparr>mFailedConfigurationFetches := mFailedConfigurationFetches u + 1\<rparr>"

text \<open>\<open>compare\<close> is zero, that is false, for equal strings.\<close>

fun availableProtocols :: "availability_result list \<Rightarrow> usage_tracker \<Rightarrow> usage_tracker" where
  "availableProtocols [] u = u"
| "availableProtocols (it # rest) u =
     (let u1 = (if ProtocolID it \<noteq> ''standart'' then u\<lparr>mStandartProtocolAvailable := Available it\<rparr> else u);
          u2 = (if ProtocolID it \<noteq> ''quic'' then u1\<lparr>mQUICProtocolAvailable := Available it\<rparr> else u1)
      in availableProtocols rest u2)"

definition to_string :: "64 word \<Rightarrow> string" where
  "to_string w = int_to_string (uint w)"

definition getUsageStatistics :: "usage_tracker \<Rightarrow> string \<rightharpoonup> string" where
  "getUsageStatistics u = map_of
     [(''Number of configuration pulls'', to_string (mNumberOfConfigurationPulls u)),
      (''Number of stat records submitted'', to_string (mNumberOfStatRecordsSubmitted u)),
      (''Number of requests served via origin'', to_string (mNumberOfRequestsServedViaOrigin u)),
      (''Number of requests served via Rev'', to_string (mNumberOfRequestsServedViaRev u)),
      (''Number of requests failed via origin'', to_string (mNumberOfRequestsFailedViaOrigin u)),
      (''Number of requests failed via Rev'', to_string (mNumberOfRequestsFailedViaRev u)),
      (''Kbytes served via origin'', to_string (mNumberOfBytesServedViaOrigin u div 1024)),
      (''Kbytes served via Rev'', to_string (mNumberOfBytesServedViaRev u div 1024)),
      (''Number of successful QUIC requests'', to_string (mNumberOfSuccessfulQUICRequests u)),
      (''Number of failed QUIC requests'', to_string (mNumberOfFailedQUICRequests u)),
      (''Number of successful standart requests'', to_string (mNumberOfSuccessfulStandartRequests u)),
      (''Number of failed standart requests'', to_string (mNumberOfFailedStandartRequests u)),
      (''Number of failed stats uploads'', to_string (mFailedStatsUploads u)),
      (''Number of failed configuration fetches'', to_string (mFailedConfigurationFetches u)),
      (''Standart protocol status'', if mStandartProtocolAvailable u then ''Available'' else ''Offline''),
      (''QUIC protocol status'', if mQUICProtocolAvailable u then ''Available'' else ''Offline'')]"

definition getLatestConfiguration :: "usage_tracker \<Rightarrow> fault + string" where
  "getLatestConfiguration u = toString (mMostRecentConfiguration u)"

text \<open>\<open>reset\<close> keeps the configuration and the two flags.\<close>

definition reset :: "usage_tracker \<Rightarrow> usage_tracker" where
  "reset u = DebugUsageTracker_new
     \<lparr>mMostRecentConfiguration := mMostRecentConfiguration u,
      mStandartProtocolAvailable := mStandartProtocolAvailable u,
      mQUICProtocolAvailable := mQUICProtocolAvailable u\<rparr>"

fun track_all :: "(bool \<times> int \<times> rs_error) list \<Rightarrow> usage_tracker \<Rightarrow> usage_tracker" where
  "track_all [] u = u"
| "track_all ((via, n, e) # rs) u = track_all rs (trackRequest via n e u)"

text \<open>Every tracked request is in exactly one of the four counters, its bytes in one of the two.\<close>

lemma track_all_counts:
  "mNumberOfRequestsServedViaRev (track_all rs u) + mNumberOfRequestsFailedViaRev (track_all rs u)
     + mNumberOfRequestsServedViaOrigin (track_all rs u) + mNumberOfRequestsFailedViaOrigin (track_all rs u)
   = mNumberOfRequestsServedViaRev u + mNumberOfRequestsFailedViaRev u
     + mNumberOfRequestsServedViaOrigin u + mNumberOfRequestsFailedViaOrigin u + of_nat (length rs)
   \<and> mNumberOfBytesServedViaRev (track_all rs u) + mNumberOfBytesServedViaOrigin (track_all rs u)
   = mNumberOfBytesServedViaRev u + mNumberOfBytesServedViaOrigin u
     + word_of_int (sum_list (map (\<lambda>(_, n, _). n) rs))"
proof (induction rs u rule: track_all.induct)
  case (2 via n e rs u)
  then show ?case
    by (cases via; cases "isNoError e")
      (simp_all add: trackRequest_def trackRequestFinished_def trackRequestFailed_def ac_simps)
qed simp

text \<open>
  The two availability flags end up exchanged: a test run reports the standard
  protocol and then QUIC, and afterwards the flag of the standard protocol holds the outcome of
  QUIC and the flag of QUIC the outcome of the standard protocol, because the comparisons are
  inverted (and one of the names is misspelt).
\<close>

theorem availability_flags_exchanged:
  "let u' = availableProtocols
       [\<lparr>ProtocolID = protocolName StandardProtocol, Available = std\<rparr>,
        \<lparr>ProtocolID = protocolName QUICProtocol, Available = quic\<rparr>] u
   in mStandartProtocolAvailable u' = quic \<and> mQUICProtocolAvailable u' = std"
  by (simp add: Let_def standardProtocolName_def quicProtocolName_def)

end
