(* ===== verification/Spec2Isabelle.thy ===== *)
theory Spec2Isabelle
  imports ConfigService EventLog JsonDocuments LogTargets QuicConnections StreamTimer UsageTracker
begin

text \<open>
  The Rev SDK for iOS (\<open>src/RevSDK/RevSDK\<close>): a library that takes over the HTTP requests of an
  application, sends them to the servers of Rev Software over a standard or a QUIC transport,
  and reports statistics. The development models the parts that decide: what the SDK may do
  (configuration), over what it sends (protocol selection), what it counts (statistics) and
  how bytes get back to the application.

  \<^bold>\<open>How the code is modelled.\<close> Objects are records, methods are functions from state to state; a
  method that can hit an \<open>assert\<close>, undefined behaviour or an exception answers \<open>fault + 'a\<close>
  (\<open>Prelude\<close>). Callbacks and messages are lists of effects in the order the code makes them. The
  clock, the random number, the disk's success and Foundation's parsers are arguments. Locks are
  not modelled: one operation is one step.

  \<^bold>\<open>Theories.\<close>
    \<^item> \<open>Prelude\<close>, \<open>IeeeRound\<close>: faults, strings, and rounding of rationals to \<open>float\<close> and \<open>double\<close>.
    \<^item> \<open>FailureMonitor\<close> (\<open>Protocol/ProtocolFailureMonitor.cpp\<close>): reports, pruning, failover decision.
    \<^item> \<open>AvailabilityTester\<close> (\<open>Protocol/ProtocolAvailabilityTester.mm\<close>): test runs over the main queue.
    \<^item> \<open>JsonValue\<close>, \<open>Configuration\<close>, \<open>ConfigValidation\<close> (\<open>libs/json\<close>, \<open>Utils/Configuration\<close>,
      \<open>Utils/JSONUtils.cpp\<close>, \<open>Utils/RSUtils.mm\<close>): documents, their validation and their reading.
    \<^item> \<open>JsonReader\<close>, \<open>JsonWriter\<close> (\<open>libs/json/jsoncpp.cpp\<close>: \<open>Reader\<close>, \<open>StyledWriter\<close>): JSON text;
      \<open>JsonRoundTrip\<close>: a grammar between the two, what is written reads back, reading ends (the loops are
      partial functions; the fuel of \<open>readValue\<close> is the stack limit of the code); \<open>JsonSuffix\<close>: the reader on a
      text with more behind it; \<open>JsonDocuments\<close> (\<open>Utils/JSONUtils.cpp\<close>): the text of reports and of
      configurations.
    \<^item> \<open>ProtocolSelector\<close> (\<open>Protocol/ProtocolSelector.cpp\<close>): the choice of the transport.
    \<^item> \<open>DataStorage\<close> (\<open>DataStorage/DataStorage.mm\<close>): files and their dictionaries.
    \<^item> \<open>EventLog\<close> (\<open>Stats/Event.hpp\<close>, \<open>DataStorage.mm\<close>): the log events, each reported once.
    \<^item> \<open>RequestStats\<close> (\<open>Stats/RequestStatsHandler.cpp\<close>, \<open>Model::reportStats\<close>): records and batches; the
      contract of the record store is the locale \<open>request_storage\<close>.
    \<^item> \<open>ConfigService\<close> (\<open>Model/ConfigurationService.cpp\<close>, \<open>Debug/TestConfigurationService.cpp\<close>): loading,
      staleness, the A/B lottery; the interface is the locale \<open>configuration_service\<close>.
    \<^item> \<open>LogTargets\<close> (\<open>Debug/RSLog.cpp\<close>), \<open>UsageTracker\<close> (\<open>Debug/DebugUsageTracker.mm\<close>): log and counters.
    \<^item> \<open>SdkModel\<close> (\<open>Model/Model.cpp\<close>, \<open>Stats/StatsHandler.cpp\<close>): the decisions about a request.
    \<^item> \<open>Connections\<close> (\<open>Connection/*.cpp\<close>, \<open>StandardConnection.mm\<close>): data, requests, the proxy.
    \<^item> \<open>RequestPath\<close> (\<open>Interception/*.mm\<close>, \<open>Utils/RSURLRequestProcessor.mm\<close>, \<open>Utils/RSUtils.mm\<close>, \<open>Networking\<close>):
      which requests are taken over, what is sent for them, and their record; with the parser of URLs as a
      parameter. Its theorems follow a URL to the server and back into the record.
    \<^item> \<open>ReceiveBuffer\<close>, \<open>SequencerBuffer\<close>, \<open>FrameList\<close> (\<open>quicrepack/src/net/quic\<close>, \<open>stream_sequencer_buffer\<close> and
      \<open>quic_frame_list\<close>): the two stores for stream bytes that arrive out of order, both models of the
      locale \<open>receive_buffer\<close>; \<open>StreamDelivery\<close> has what follows for a stream.
    \<^item> \<open>FlowControl\<close> (\<open>quic_flow_controller\<close>): the windows of a stream and of a connection.
    \<^item> \<open>HeaderText\<close> (\<open>quicrepack/src/base/strings\<close>): numbers, trimming and splitting in header values.
    \<^item> \<open>QuicStream\<close> (\<open>reliable_quic_stream.cc\<close>, \<open>quic_stream_sequencer.cc\<close>, \<open>quic_spdy_stream.cc\<close>,
      \<open>quic/quic_spdy_client_stream.cc\<close>, \<open>Connection/QUICDataStream.cpp\<close>, and of \<open>quic_session.cc\<close> and
      \<open>Connection/QUICSession.mm\<close> what concerns one stream): a request as one record, every method as a
      function, and the events of a stream as \<open>stream_step\<close>. \<open>OnDataAvailable\<close> is a partial function; no fuel is
      used anywhere, the body theorem shows that it returns.
    \<^item> \<open>StreamLifecycle\<close>: how closing proceeds and what it tells; \<open>StreamInvariant\<close>: the locales
      \<open>closing_invariant\<close>, \<open>event_invariant\<close>, \<open>header_invariant\<close> (for the first headers) and \<open>stream_invariant\<close>, whose
      lemmas carry a property through every operation; \<open>StreamBody\<close>: bytes in order and the end of the reading
      loop, with the locales \<open>log_invariant\<close> and \<open>answer_invariant\<close>; \<open>StreamRequest\<close>: every run of a
      request. \<open>StreamWriting\<close>: the body of a request on the wire, in order and within the windows, and its
      completion; \<open>StreamTimer\<close>: when a request without an answer is given up. The connection that takes the
      bytes is a parameter (\<open>takes_prefix\<close> says what is relied on).
    \<^item> \<open>QuicConnections\<close> (\<open>Connection/QUICConnection.mm\<close>): the connection between a request and its stream; what the
      proxy hears in every run, redirections, the header block and the body.

  \<^bold>\<open>Not modelled.\<close> User interface, device inspection, sockets and threads; the vendored libraries
  except the parts named above (of QUIC: no packets, handshake, loss recovery or second stream; of
  JSON: no comments in values, error messages or the other readers and writers).
\<close>

end
